(* ===== verification/Prelude.thy ===== *)
theory Prelude
  imports Main
begin

text \<open>
  Shared vocabulary of the development: the types that Go's strings, errors and effects are
  read as, the list lemmas the line buffer and the queues share, and the \<open>named_theorems\<close>
  collections the component theories extend.

  Conventions used by every theory:
  \<^item> a Go \<open>string\<close> or \<open>[]byte\<close> is a HOL \<open>string\<close>, a list of 8-bit characters, so that
    \<open>length\<close> counts bytes as Go's \<open>len\<close> does;
  \<^item> a fallible Go call \<open>(T, error)\<close> is a sum \<open>'e + 'a\<close>, \<open>Inl\<close> the error;
  \<^item> a Go call with effects takes the state and returns the new one beside its result.
\<close>

named_theorems go_strings "equations of the modelled functions of package strings"
named_theorems inv_intros "introduction rules of the component invariants"
named_theorems effect_simps "equations of the effectful operations"

type_synonym bytes = string

text \<open>An effectful, fallible call: Go's \<open>func(...) (T, error)\<close> over a world \<open>'w\<close>.\<close>

type_synonym ('w, 'e, 'a) call = "'w \<Rightarrow> ('e + 'a) \<times> 'w"

definition call_return :: "'a \<Rightarrow> ('w, 'e, 'a) call" where
  "call_return x = (\<lambda>w. (Inr x, w))"

definition call_fail :: "'e \<Rightarrow> ('w, 'e, 'a) call" where
  "call_fail e = (\<lambda>w. (Inl e, w))"

text \<open>\<open>x, err := m(); if err != nil { return err }; k(x)\<close>\<close>

definition call_bind :: "('w, 'e, 'a) call \<Rightarrow> ('a \<Rightarrow> ('w, 'e, 'b) call) \<Rightarrow> ('w, 'e, 'b) call" where
  "call_bind m k = (\<lambda>w. case m w of (Inl e, w') \<Rightarrow> (Inl e, w') | (Inr x, w') \<Rightarrow> k x w')"

text \<open>\<open>if err := m(); err != nil { return err }; k()\<close>\<close>

abbreviation call_then :: "('w, 'e, 'a) call \<Rightarrow> ('w, 'e, 'b) call \<Rightarrow> ('w, 'e, 'b) call" where
  "call_then m k \<equiv> call_bind m (\<lambda>_. k)"

lemma call_return_apply [effect_simps]: "call_return x w = (Inr x, w)"
  by (simp add: call_return_def)

lemma call_fail_apply [effect_simps]: "call_fail e w = (Inl e, w)"
  by (simp add: call_fail_def)

lemma call_bind_Inl [effect_simps]: "m w = (Inl e, w') \<Longrightarrow> call_bind m k w = (Inl e, w')"
  by (simp add: call_bind_def)

lemma call_bind_Inr [effect_simps]: "m w = (Inr x, w') \<Longrightarrow> call_bind m k w = k x w'"
  by (simp add: call_bind_def)

lemma call_bind_InrE:
  assumes "call_bind m k w = (Inr y, w2)"
  obtains x w1 where "m w = (Inr x, w1)" "k x w1 = (Inr y, w2)"
  using assms by (auto simp: call_bind_def split: prod.splits sum.splits)

lemma call_bind_return: "call_bind (call_return x) k = k x"
  by (simp add: call_bind_def call_return_def)

lemma call_bind_assoc:
  "call_bind (call_bind m k) h = call_bind m (\<lambda>x. call_bind (k x) h)"
  by (rule ext) (simp add: call_bind_def split: prod.splits sum.splits)

text \<open>Guard clauses: a chain of early returns succeeded only if no guard fired.\<close>

lemma guard_Inr: "(if b then Inl e else m) = Inr x \<longleftrightarrow> \<not> b \<and> m = Inr x"
  by simp

lemma guard_None: "(if b then None else m) = Some x \<longleftrightarrow> \<not> b \<and> m = Some x"
  by simp

section \<open>Lists\<close>

text \<open>The last \<open>n\<close> elements, oldest first: what a capped ring of lines keeps.\<close>

definition take_last :: "nat \<Rightarrow> 'a list \<Rightarrow> 'a list" where
  "take_last n xs = drop (length xs - n) xs"

lemma length_take_last [simp]: "length (take_last n xs) = min n (length xs)"
  by (simp add: take_last_def)

lemma take_last_Nil [simp]: "take_last n [] = []"
  by (simp add: take_last_def)

lemma take_last_short: "length xs \<le> n \<Longrightarrow> take_last n xs = xs"
  by (simp add: take_last_def)

lemma take_last_append_long: "n \<le> length ys \<Longrightarrow> take_last n (xs @ ys) = take_last n ys"
  by (simp add: take_last_def)

lemma take_last_take_last_append:
  "take_last n (take_last n xs @ ys) = take_last n (xs @ ys)"
proof (cases "length xs \<le> n")
  case True
  then show ?thesis by (simp add: take_last_short)
next
  case False
  then have "length (take_last n xs @ ys) - n = length ys"
    and "length (xs @ ys) - n = length xs - n + length ys"
    by simp_all
  with False show ?thesis
    by (simp add: take_last_def) (metis add.commute drop_drop)
qed

lemma set_take_last: "set (take_last n xs) \<subseteq> set xs"
  by (simp add: take_last_def set_drop_subset)

lemma butlast_append_last: "xs \<noteq> [] \<Longrightarrow> xs = butlast xs @ [last xs]"
  by simp

text \<open>Association lists stand for Go maps that the code iterates over.\<close>

lemma map_of_eq_None_fst: "map_of al k = None \<longleftrightarrow> k \<notin> fst ` set al"
  by (rule map_of_eq_None_iff)

end
