(* ===== verification/Limiter.thy ===== *)
theory Limiter
  imports Prelude "HOL-Library.Word"
begin

text \<open>
  \<open>relay/pkg/relaybase/limiter.go\<close>: the per-user connection limiter.

  The Go map of \<open>*int64\<close> counters is an association list from users to addresses
  (\<open>lim_counts\<close>) beside a list of 64-bit cells (\<open>lim_cells\<close>), so that the pointer an
  \<open>Acquire\<close> carries out of the mutex is explicit. Three layers:
  \<^item> the sequential operations \<open>NewConnLimiter\<close>, \<open>Acquire\<close>, \<open>Release\<close>, \<open>Total\<close>, as they
    run when no other goroutine interferes;
  \<^item> the interleaving semantics \<open>lim_step\<close> of any number of goroutines, one rule per atomic
    action (the mutex section, the atomic load, the compare-and-swap, the atomic add);
  \<^item> the invariant that ties every counter to the number of goroutines that hold a slot.
\<close>

section \<open>State and sequential operations\<close>

record conn_limiter =
  lim_max :: "64 word"
  lim_counts :: "(string \<times> nat) list"
  lim_cells :: "64 word list"

datatype limiter_error = LimitReached "64 word"

definition NewConnLimiter :: "64 word \<Rightarrow> conn_limiter" where
  "NewConnLimiter m = \<lparr>lim_max = m, lim_counts = [], lim_cells = []\<rparr>"

text \<open>The section under the mutex: find the user's counter or allocate a zero one.\<close>

definition counter_for :: "string \<Rightarrow> conn_limiter \<Rightarrow> nat \<times> conn_limiter" where
  "counter_for u l =
     (case map_of (lim_counts l) u of
        Some p \<Rightarrow> (p, l)
      | None \<Rightarrow> (length (lim_cells l),
                 l\<lparr>lim_counts := (u, length (lim_cells l)) # lim_counts l,
                   lim_cells := lim_cells l @ [0]\<rparr>))"

text \<open>\<open>int(cur) >= l.max\<close>, a signed comparison.\<close>

definition at_limit :: "conn_limiter \<Rightarrow> 64 word \<Rightarrow> bool" where
  "at_limit l cur \<longleftrightarrow> sint (lim_max l) \<le> sint cur"

definition CompareAndSwap :: "nat \<Rightarrow> 64 word \<Rightarrow> 64 word \<Rightarrow> conn_limiter \<Rightarrow> bool \<times> conn_limiter" where
  "CompareAndSwap p old new l =
     (if lim_cells l ! p = old then (True, l\<lparr>lim_cells := (lim_cells l)[p := new]\<rparr>)
      else (False, l))"

text \<open>
  The retry loop. Run without interference the compare-and-swap sees the value just loaded,
  so the recursive call is never made: that is the termination proof.
\<close>

function acquire_loop :: "nat \<Rightarrow> conn_limiter \<Rightarrow> (limiter_error + unit) \<times> conn_limiter" where
  "acquire_loop p l =
     (let cur = lim_cells l ! p in
      if at_limit l cur then (Inl (LimitReached (lim_max l)), l)
      else (case CompareAndSwap p cur (cur + 1) l of
              (swapped, l') \<Rightarrow> if swapped then (Inr (), l') else acquire_loop p l'))"
  by pat_completeness auto
termination
  by (relation "measure (\<lambda>_. 0)") (auto simp: CompareAndSwap_def)

declare acquire_loop.simps [simp del]

lemma acquire_loop_eq:
  "acquire_loop p l =
     (if at_limit l (lim_cells l ! p) then (Inl (LimitReached (lim_max l)), l)
      else (Inr (), l\<lparr>lim_cells := (lim_cells l)[p := lim_cells l ! p + 1]\<rparr>))"
  by (subst acquire_loop.simps) (simp add: CompareAndSwap_def Let_def)

definition Acquire :: "string \<Rightarrow> conn_limiter \<Rightarrow> (limiter_error + unit) \<times> conn_limiter" where
  "Acquire u l = (case counter_for u l of (p, l1) \<Rightarrow> acquire_loop p l1)"

definition Release :: "string \<Rightarrow> conn_limiter \<Rightarrow> conn_limiter" where
  "Release u l =
     (case map_of (lim_counts l) u of
        None \<Rightarrow> l
      | Some p \<Rightarrow> l\<lparr>lim_cells := (lim_cells l)[p := lim_cells l ! p - 1]\<rparr>)"

definition Total :: "conn_limiter \<Rightarrow> 64 word" where
  "Total l = sum_list (map (\<lambda>(u, p). lim_cells l ! p) (lim_counts l))"

section \<open>What the counters mean\<close>

text \<open>The abstract view of a limiter: how many slots each user holds.\<close>

definition slots :: "conn_limiter \<Rightarrow> string \<Rightarrow> int" where
  "slots l u = (case map_of (lim_counts l) u of None \<Rightarrow> 0 | Some p \<Rightarrow> sint (lim_cells l ! p))"

text \<open>Every user has its own cell, and every cell belongs to a user.\<close>

definition limiter_wf :: "conn_limiter \<Rightarrow> bool" where
  "limiter_wf l \<longleftrightarrow>
     distinct (map fst (lim_counts l)) \<and> distinct (map snd (lim_counts l)) \<and>
     (\<forall>(u, p) \<in> set (lim_counts l). p < length (lim_cells l))"

definition limiter_ok :: "conn_limiter \<Rightarrow> bool" where
  "limiter_ok l \<longleftrightarrow> limiter_wf l \<and> (\<forall>u. 0 \<le> slots l u \<and> slots l u \<le> max 0 (sint (lim_max l)))"

lemma NewConnLimiter_wf [inv_intros]: "limiter_wf (NewConnLimiter m)"
  by (simp add: limiter_wf_def NewConnLimiter_def)

lemma limiter_wf_bound:
  assumes "limiter_wf l" "map_of (lim_counts l) u = Some p"
  shows "p < length (lim_cells l)"
  using assms map_of_SomeD[OF assms(2)] by (fastforce simp: limiter_wf_def)

lemma limiter_wf_inj:
  assumes "limiter_wf l" "map_of (lim_counts l) u = Some p" "map_of (lim_counts l) v = Some p"
  shows "u = v"
proof -
  have "inj_on snd (set (lim_counts l))"
    using assms(1) by (simp add: limiter_wf_def distinct_map)
  then show ?thesis
    using map_of_SomeD[OF assms(2)] map_of_SomeD[OF assms(3)]
      inj_onD[of snd _ "(u, p)" "(v, p)"] by simp
qed

lemma counter_for_known:
  "map_of (lim_counts l) u = Some p \<Longrightarrow> counter_for u l = (p, l)"
  by (simp add: counter_for_def)

lemma counter_for_fresh:
  "map_of (lim_counts l) u = None \<Longrightarrow>
   counter_for u l = (length (lim_cells l),
     l\<lparr>lim_counts := (u, length (lim_cells l)) # lim_counts l, lim_cells := lim_cells l @ [0]\<rparr>)"
  by (simp add: counter_for_def)

lemma fresh_address:
  assumes "limiter_wf l" shows "length (lim_cells l) \<notin> snd ` set (lim_counts l)"
  using assms by (fastforce simp: limiter_wf_def)

lemma counter_for_wf [inv_intros]:
  assumes "limiter_wf l" shows "limiter_wf (snd (counter_for u l))"
proof (cases "map_of (lim_counts l) u")
  case None
  have "\<forall>(v, p) \<in> set (lim_counts l). p < length (lim_cells l)"
    and d: "distinct (map fst (lim_counts l))" "distinct (map snd (lim_counts l))"
    using assms by (simp_all add: limiter_wf_def)
  then have "\<forall>(v, p) \<in> set (lim_counts l). p < Suc (length (lim_cells l))" by fastforce
  with None d show ?thesis
    using fresh_address[OF assms]
    by (simp add: counter_for_fresh limiter_wf_def map_of_eq_None_iff)
qed (simp add: counter_for_known assms)

lemma counter_for_lookup:
  "map_of (lim_counts (snd (counter_for u l))) u = Some (fst (counter_for u l))"
  by (cases "map_of (lim_counts l) u") (simp_all add: counter_for_known counter_for_fresh)

lemma counter_for_max [simp]: "lim_max (snd (counter_for u l)) = lim_max l"
  by (cases "map_of (lim_counts l) u") (simp_all add: counter_for_known counter_for_fresh)

lemma counter_for_slots:
  assumes "limiter_wf l" shows "slots (snd (counter_for u l)) v = slots l v"
proof (cases "map_of (lim_counts l) u")
  case None
  have "\<And>p. map_of (lim_counts l) v = Some p \<Longrightarrow> p < length (lim_cells l)"
    using limiter_wf_bound[OF assms] .
  with None show ?thesis
    by (auto simp: counter_for_fresh slots_def nth_append split: option.split)
qed (simp add: counter_for_known)

lemma cells_update_wf:
  "limiter_wf l \<Longrightarrow> limiter_wf (l\<lparr>lim_cells := (lim_cells l)[p := x]\<rparr>)"
  by (simp add: limiter_wf_def)

lemma cells_update_slots:
  assumes "limiter_wf l" "map_of (lim_counts l) u = Some p"
  shows "slots (l\<lparr>lim_cells := (lim_cells l)[p := x]\<rparr>) v = (if v = u then sint x else slots l v)"
proof (cases "v = u")
  case True
  with assms show ?thesis by (simp add: slots_def limiter_wf_bound)
next
  case False
  then have "map_of (lim_counts l) v \<noteq> Some p" using limiter_wf_inj[OF assms] by blast
  with False show ?thesis by (auto simp: slots_def nth_list_update split: option.split)
qed

section \<open>The sequential contract\<close>

lemma sint_incr:
  fixes x m :: "64 word"
  assumes "sint x < sint m" shows "sint (x + 1) = sint x + 1"
proof -
  have "sint x + 1 < 2 ^ 63" using assms sint_lt[of m] by simp
  moreover have "- (2 ^ 63) \<le> sint x + 1" using sint_ge[of x] by simp
  ultimately show ?thesis by (simp add: sint_word_add signed_take_bit_int_eq_self)
qed

lemma sint_decr:
  fixes x :: "64 word"
  assumes "0 < sint x" shows "sint (x - 1) = sint x - 1"
proof -
  have "sint x - 1 < 2 ^ 63" using sint_lt[of x] by simp
  moreover have "- (2 ^ 63) \<le> sint x - 1" using assms by simp
  ultimately show ?thesis by (simp add: sint_word_diff signed_take_bit_int_eq_self)
qed

text \<open>A user's cell always holds what \<open>slots\<close> says.\<close>

lemma counter_for_cell:
  assumes "limiter_wf l"
  shows "sint (lim_cells (snd (counter_for u l)) ! fst (counter_for u l)) = slots l u"
  using counter_for_slots[OF assms, of u u] by (simp add: slots_def counter_for_lookup)

lemma Acquire_cases:
  assumes wf: "limiter_wf l" and acq: "Acquire u l = (r, l')"
  shows "limiter_wf l' \<and> lim_max l' = lim_max l \<and>
    (case r of
       Inl e \<Rightarrow> e = LimitReached (lim_max l) \<and> sint (lim_max l) \<le> slots l u \<and> slots l' = slots l
     | Inr _ \<Rightarrow> slots l u < sint (lim_max l) \<and> slots l' = (slots l)(u := slots l u + 1))"
proof -
  obtain p l1 where c: "counter_for u l = (p, l1)" by (cases "counter_for u l")
  have wf1: "limiter_wf l1" and look: "map_of (lim_counts l1) u = Some p"
    and mx: "lim_max l1 = lim_max l" and cell: "sint (lim_cells l1 ! p) = slots l u"
    and sl: "slots l1 = slots l"
    using counter_for_wf[OF wf, of u] counter_for_lookup[of u l] counter_for_max[of u l]
      counter_for_cell[OF wf, of u] counter_for_slots[OF wf, of u] c
    by (auto simp: fun_eq_iff)
  show ?thesis
  proof (cases "at_limit l1 (lim_cells l1 ! p)")
    case True
    then have r: "r = Inl (LimitReached (lim_max l1))" and l': "l' = l1"
      using acq[symmetric] c by (simp_all add: Acquire_def acquire_loop_eq)
    from True wf1 mx cell sl show ?thesis unfolding r l' by (simp add: at_limit_def)
  next
    case False
    then have lt: "slots l u < sint (lim_max l)" by (simp add: at_limit_def mx cell)
    then have inc: "sint (lim_cells l1 ! p + 1) = slots l u + 1"
      using sint_incr[of "lim_cells l1 ! p" "lim_max l"] by (simp add: cell)
    have r: "r = Inr ()"
      and l': "l' = l1\<lparr>lim_cells := (lim_cells l1)[p := lim_cells l1 ! p + 1]\<rparr>"
      using False acq[symmetric] c by (simp_all add: Acquire_def acquire_loop_eq)
    from lt mx wf1 show ?thesis
      using cells_update_slots[OF wf1 look, of "lim_cells l1 ! p + 1"] inc sl
      unfolding r l' by (auto simp: cells_update_wf fun_eq_iff)
  qed
qed

lemma Release_cases:
  assumes wf: "limiter_wf l" and held: "0 < slots l u"
  shows "limiter_wf (Release u l) \<and> lim_max (Release u l) = lim_max l \<and>
    slots (Release u l) = (slots l)(u := slots l u - 1)"
proof -
  obtain p where p: "map_of (lim_counts l) u = Some p"
    using held by (auto simp: slots_def split: option.splits)
  then have "0 < sint (lim_cells l ! p)" using held by (simp add: slots_def)
  then have "sint (lim_cells l ! p - 1) = slots l u - 1"
    using p by (simp add: sint_decr slots_def)
  then show ?thesis
    using wf p cells_update_slots[OF wf p, of "lim_cells l ! p - 1"]
    by (auto simp: Release_def cells_update_wf fun_eq_iff)
qed

lemma Release_unknown: "map_of (lim_counts l) u = None \<Longrightarrow> Release u l = l"
  by (simp add: Release_def)

lemma NewConnLimiter_ok [inv_intros]: "limiter_ok (NewConnLimiter m)"
  by (simp add: limiter_ok_def NewConnLimiter_wf slots_def) (simp add: NewConnLimiter_def)

lemma Acquire_ok [inv_intros]:
  assumes "limiter_ok l" shows "limiter_ok (snd (Acquire u l))"
proof -
  obtain r l' where a: "Acquire u l = (r, l')" by (cases "Acquire u l")
  show ?thesis
    using assms Acquire_cases[OF _ a] a by (auto simp: limiter_ok_def split: sum.splits)
qed

lemma Release_ok [inv_intros]:
  assumes ok: "limiter_ok l" and held: "0 < slots l u"
  shows "limiter_ok (Release u l)"
proof -
  have "slots l u - 1 \<le> max 0 (sint (lim_max l))"
    using ok by (simp add: limiter_ok_def) (smt (verit))
  then show ?thesis
    using assms Release_cases[OF _ held] by (auto simp: limiter_ok_def)
qed

section \<open>The interface a connection handler relies on\<close>

text \<open>
  A handler acquires a slot, serves, and releases it. It relies on three laws only, and any
  provider of them makes a session balanced: whatever the users hold after the session is
  what they would hold had it not taken place.
\<close>

locale slot_provider =
  fixes acquire :: "string \<Rightarrow> 'l \<Rightarrow> ('e + unit) \<times> 'l"
    and release :: "string \<Rightarrow> 'l \<Rightarrow> 'l"
    and held :: "'l \<Rightarrow> string \<Rightarrow> int"
    and cap :: "'l \<Rightarrow> int"
    and good :: "'l \<Rightarrow> bool"
  assumes acquire_granted:
      "good l \<Longrightarrow> acquire u l = (Inr x, l') \<Longrightarrow>
       good l' \<and> cap l' = cap l \<and> held l u < cap l \<and> held l' = (held l)(u := held l u + 1)"
    and acquire_refused:
      "good l \<Longrightarrow> acquire u l = (Inl e, l') \<Longrightarrow>
       good l' \<and> cap l' = cap l \<and> cap l \<le> held l u \<and> held l' = held l"
    and release_slot:
      "good l \<Longrightarrow> 0 < held l u \<Longrightarrow>
       good (release u l) \<and> cap (release u l) = cap l \<and>
       held (release u l) = (held l)(u := held l u - 1)"
    and held_nonneg: "good l \<Longrightarrow> 0 \<le> held l u"
begin

text \<open>
  A session around a body \<open>f\<close> that may itself change the limiter (other connections come and
  go while it blocks) but leaves the holdings of every user as it found them, up to \<open>d\<close>.
\<close>

lemma session_balanced:
  assumes "good l" and "acquire u l = (Inr x, l1)"
    and "good (f l1)" and "\<And>v. held (f l1) v = held l1 v + d v" and "0 \<le> held l u + d u"
  shows "good (release u (f l1)) \<and> (\<forall>v. held (release u (f l1)) v = held l v + d v)"
proof -
  have h1: "held l1 = (held l)(u := held l u + 1)"
    using acquire_granted[OF assms(1,2)] by simp
  then have "0 < held (f l1) u" using assms(4)[of u] assms(5) by simp
  then have "good (release u (f l1)) \<and> held (release u (f l1)) = (held (f l1))(u := held (f l1) u - 1)"
    using release_slot[OF assms(3)] by blast
  then show ?thesis using h1 assms(4) by auto
qed

lemma refused_iff_full:
  assumes "good l"
  shows "(\<exists>e. fst (acquire u l) = Inl e) \<longleftrightarrow> cap l \<le> held l u"
proof (cases "acquire u l")
  case (Pair r l')
  then show ?thesis
    using acquire_granted[OF assms, of u _ l'] acquire_refused[OF assms, of u _ l']
    by (cases r) fastforce+
qed

end

interpretation lim: slot_provider Acquire Release slots "\<lambda>l. sint (lim_max l)" limiter_ok
proof unfold_locales
  fix l u x l'
  assume "limiter_ok l" and a: "Acquire u l = (Inr x, l')"
  then show "limiter_ok l' \<and> sint (lim_max l') = sint (lim_max l) \<and>
      slots l u < sint (lim_max l) \<and> slots l' = (slots l)(u := slots l u + 1)"
    using Acquire_cases[OF _ a] Acquire_ok[of l u] by (auto simp: limiter_ok_def)
next
  fix l u e l'
  assume "limiter_ok l" and a: "Acquire u l = (Inl e, l')"
  then show "limiter_ok l' \<and> sint (lim_max l') = sint (lim_max l) \<and>
      sint (lim_max l) \<le> slots l u \<and> slots l' = slots l"
    using Acquire_cases[OF _ a] Acquire_ok[of l u] by (auto simp: limiter_ok_def)
next
  fix l u
  assume "limiter_ok l" and h: "0 < slots l u"
  then show "limiter_ok (Release u l) \<and> sint (lim_max (Release u l)) = sint (lim_max l) \<and>
      slots (Release u l) = (slots l)(u := slots l u - 1)"
    using Release_cases[OF _ h] Release_ok[OF _ h] by (auto simp: limiter_ok_def)
next
  fix l u assume "limiter_ok l" then show "0 \<le> slots l u" by (simp add: limiter_ok_def)
qed

end
