(* ===== verification/LimiterConc.thy ===== *)
theory LimiterConc
  imports Limiter
begin

text \<open>
  \<open>ConnLimiter\<close> under any interleaving of goroutines. Every rule of \<open>lim_step\<close> is one atomic
  action of \<open>Acquire\<close> or \<open>Release\<close> (limiter.go lines 24-53): the map access under the mutex,
  the atomic load together with the test of the value loaded, the compare-and-swap, the
  atomic add. A goroutine that holds a slot runs the handler's session between the two calls.
\<close>

datatype gpc =
    Idle
  | Entered string
  | Looping string nat
  | Loaded string nat "64 word"
  | Refused string
  | Holding string
  | Releasing string nat

record lsys =
  shared :: conn_limiter
  pcs :: "nat \<Rightarrow> gpc"

definition at_pc :: "lsys \<Rightarrow> nat \<Rightarrow> gpc \<Rightarrow> lsys" where
  "at_pc s t x = s\<lparr>pcs := (pcs s)(t := x)\<rparr>"

inductive lim_step :: "lsys \<Rightarrow> lsys \<Rightarrow> bool" where
  call: "pcs s t = Idle \<Longrightarrow> lim_step s (at_pc s t (Entered u))"
| find_counter: "pcs s t = Entered u \<Longrightarrow> counter_for u (shared s) = (p, l) \<Longrightarrow>
    lim_step s (at_pc (s\<lparr>shared := l\<rparr>) t (Looping u p))"
| refuse: "pcs s t = Looping u p \<Longrightarrow> at_limit (shared s) (lim_cells (shared s) ! p) \<Longrightarrow>
    lim_step s (at_pc s t (Refused u))"
| load: "pcs s t = Looping u p \<Longrightarrow> \<not> at_limit (shared s) (lim_cells (shared s) ! p) \<Longrightarrow>
    lim_step s (at_pc s t (Loaded u p (lim_cells (shared s) ! p)))"
| swap: "pcs s t = Loaded u p cur \<Longrightarrow> CompareAndSwap p cur (cur + 1) (shared s) = (True, l) \<Longrightarrow>
    lim_step s (at_pc (s\<lparr>shared := l\<rparr>) t (Holding u))"
| retry: "pcs s t = Loaded u p cur \<Longrightarrow> CompareAndSwap p cur (cur + 1) (shared s) = (False, l) \<Longrightarrow>
    lim_step s (at_pc (s\<lparr>shared := l\<rparr>) t (Looping u p))"
| give_up: "pcs s t = Refused u \<Longrightarrow> lim_step s (at_pc s t Idle)"
| release_find: "pcs s t = Holding u \<Longrightarrow> map_of (lim_counts (shared s)) u = Some p \<Longrightarrow>
    lim_step s (at_pc s t (Releasing u p))"
| release_none: "pcs s t = Holding u \<Longrightarrow> map_of (lim_counts (shared s)) u = None \<Longrightarrow>
    lim_step s (at_pc s t Idle)"
| release_add: "pcs s t = Releasing u p \<Longrightarrow>
    lim_step s (at_pc (s\<lparr>shared := (shared s)
      \<lparr>lim_cells := (lim_cells (shared s))[p := lim_cells (shared s) ! p - 1]\<rparr>\<rparr>) t Idle)"

definition lim_init :: "64 word \<Rightarrow> lsys" where
  "lim_init m = \<lparr>shared = NewConnLimiter m, pcs = (\<lambda>_. Idle)\<rparr>"

inductive lim_reach :: "64 word \<Rightarrow> lsys \<Rightarrow> bool" for m where
  lim_start: "lim_reach m (lim_init m)"
| lim_next: "lim_reach m s \<Longrightarrow> lim_step s s' \<Longrightarrow> lim_reach m s'"

section \<open>Who holds a slot\<close>

fun holds_slot :: "gpc \<Rightarrow> string \<Rightarrow> bool" where
  "holds_slot (Holding u) v \<longleftrightarrow> u = v"
| "holds_slot (Releasing u p) v \<longleftrightarrow> u = v"
| "holds_slot _ v \<longleftrightarrow> False"

definition holders :: "lsys \<Rightarrow> string \<Rightarrow> nat set" where
  "holders s u = {t. holds_slot (pcs s t) u}"

fun pc_ok :: "conn_limiter \<Rightarrow> gpc \<Rightarrow> bool" where
  "pc_ok l (Looping u p) \<longleftrightarrow> map_of (lim_counts l) u = Some p"
| "pc_ok l (Loaded u p cur) \<longleftrightarrow> map_of (lim_counts l) u = Some p \<and> \<not> at_limit l cur"
| "pc_ok l (Holding u) \<longleftrightarrow> map_of (lim_counts l) u \<noteq> None"
| "pc_ok l (Releasing u p) \<longleftrightarrow> map_of (lim_counts l) u = Some p"
| "pc_ok l _ \<longleftrightarrow> True"

definition lim_inv :: "64 word \<Rightarrow> lsys \<Rightarrow> bool" where
  "lim_inv m s \<longleftrightarrow>
     limiter_wf (shared s) \<and> lim_max (shared s) = m \<and> finite {t. pcs s t \<noteq> Idle} \<and>
     (\<forall>t. pc_ok (shared s) (pcs s t)) \<and>
     (\<forall>u. slots (shared s) u = int (card (holders s u)) \<and>
          int (card (holders s u)) \<le> max 0 (sint m))"

lemma holders_at_pc:
  "holders (at_pc s t x) u = (if holds_slot x u then insert t (holders s u) else holders s u - {t})"
  by (auto simp: holders_def at_pc_def)

lemma holders_shared [simp]: "holders (s\<lparr>shared := l\<rparr>) u = holders s u"
  by (simp add: holders_def)

lemma lim_inv_finite_holders: "lim_inv m s \<Longrightarrow> finite (holders s u)"
proof -
  have "holders s u \<subseteq> {t. pcs s t \<noteq> Idle}" by (auto simp: holders_def)
  then show "lim_inv m s \<Longrightarrow> finite (holders s u)"
    by (auto simp: lim_inv_def intro: finite_subset)
qed

lemma finite_busy_at_pc:
  "finite {t. pcs s t \<noteq> Idle} \<Longrightarrow> finite {t'. pcs (at_pc s t x) t' \<noteq> Idle}"
  by (rule finite_subset[of _ "insert t {t. pcs s t \<noteq> Idle}"]) (auto simp: at_pc_def)

text \<open>
  The frame of every step: when the shared part keeps each pointer and the step's goroutine
  gets a program counter that agrees with it, only the equation between slots and holders is
  left to show.
\<close>

definition keeps_pointers :: "conn_limiter \<Rightarrow> conn_limiter \<Rightarrow> bool" where
  "keeps_pointers l l' \<longleftrightarrow> lim_max l' = lim_max l \<and>
     (\<forall>u p. map_of (lim_counts l) u = Some p \<longrightarrow> map_of (lim_counts l') u = Some p)"

lemma keeps_pointers_refl [simp]: "keeps_pointers l l"
  by (simp add: keeps_pointers_def)

lemma keeps_pointers_cells [simp]: "keeps_pointers l (l\<lparr>lim_cells := c\<rparr>)"
  by (simp add: keeps_pointers_def)

lemma keeps_pointers_counter_for: "keeps_pointers l (snd (counter_for u l))"
  by (cases "map_of (lim_counts l) u")
    (auto simp: keeps_pointers_def counter_for_known counter_for_fresh)

lemma pc_ok_keeps: "keeps_pointers l l' \<Longrightarrow> pc_ok l x \<Longrightarrow> pc_ok l' x"
  by (cases x) (auto simp: keeps_pointers_def at_limit_def)

lemma lim_inv_stepI:
  assumes inv: "lim_inv m s" and keep: "keeps_pointers (shared s) l"
    and wf: "limiter_wf l" and pc: "pc_ok l x"
    and slots: "\<And>v. slots l v = int (card (holders (at_pc (s\<lparr>shared := l\<rparr>) t x) v))
                 \<and> int (card (holders (at_pc (s\<lparr>shared := l\<rparr>) t x) v)) \<le> max 0 (sint m)"
  shows "lim_inv m (at_pc (s\<lparr>shared := l\<rparr>) t x)"
proof -
  have fin: "finite {t. pcs s t \<noteq> Idle}" and pcs: "\<forall>t. pc_ok (shared s) (pcs s t)"
    and mx: "lim_max (shared s) = m"
    using inv by (auto simp: lim_inv_def)
  have "\<forall>t'. pc_ok l (pcs (at_pc (s\<lparr>shared := l\<rparr>) t x) t')"
    using pcs pc pc_ok_keeps[OF keep] by (simp add: at_pc_def)
  moreover have "lim_max l = m" using keep mx by (simp add: keeps_pointers_def)
  ultimately show ?thesis
    using wf slots finite_busy_at_pc[of "s\<lparr>shared := l\<rparr>" t x] fin
    by (auto simp: lim_inv_def at_pc_def)
qed

text \<open>A step that changes no holding only has to keep the slots.\<close>

lemma lim_inv_silentI:
  assumes inv: "lim_inv m s" and keep: "keeps_pointers (shared s) l"
    and wf: "limiter_wf l" and pc: "pc_ok l x" and same: "slots l = slots (shared s)"
    and no: "\<And>v. holds_slot x v = holds_slot (pcs s t) v"
  shows "lim_inv m (at_pc (s\<lparr>shared := l\<rparr>) t x)"
proof (rule lim_inv_stepI[OF inv keep wf pc])
  fix v
  have "holders (at_pc (s\<lparr>shared := l\<rparr>) t x) v = holders s v"
    using no[of v] by (auto simp: holders_at_pc) (auto simp: holders_def)
  then show "slots l v = int (card (holders (at_pc (s\<lparr>shared := l\<rparr>) t x) v))
      \<and> int (card (holders (at_pc (s\<lparr>shared := l\<rparr>) t x) v)) \<le> max 0 (sint m)"
    using inv same by (simp add: lim_inv_def)
qed

lemma lim_inv_quietI:
  assumes "lim_inv m s" and "pc_ok (shared s) x" and "\<And>v. holds_slot x v = holds_slot (pcs s t) v"
  shows "lim_inv m (at_pc s t x)"
  using lim_inv_silentI[OF assms(1) keeps_pointers_refl _ assms(2) refl assms(3)] assms(1)
  by (simp add: lim_inv_def)

lemma lim_inv_pc_ok: "lim_inv m s \<Longrightarrow> pcs s t = x \<Longrightarrow> pc_ok (shared s) x"
  by (auto simp: lim_inv_def)

section \<open>The invariant\<close>

lemma lim_init_inv: "lim_inv m (lim_init m)"
  by (simp add: lim_inv_def lim_init_def NewConnLimiter_wf slots_def holders_def)
    (simp add: NewConnLimiter_def)

lemma lim_inv_swap:
  assumes inv: "lim_inv m s" and pc: "pcs s t = Loaded u p cur"
    and cas: "CompareAndSwap p cur (cur + 1) (shared s) = (True, l)"
  shows "lim_inv m (at_pc (s\<lparr>shared := l\<rparr>) t (Holding u))"
proof -
  have wf: "limiter_wf (shared s)" and mx: "lim_max (shared s) = m"
    and ok: "pc_ok (shared s) (Loaded u p cur)"
    using inv lim_inv_pc_ok[OF inv pc] by (auto simp: lim_inv_def)
  have l: "l = (shared s)\<lparr>lim_cells := (lim_cells (shared s))[p := cur + 1]\<rparr>"
    and cell: "lim_cells (shared s) ! p = cur"
    using cas by (auto simp: CompareAndSwap_def split: if_splits)
  have look: "map_of (lim_counts (shared s)) u = Some p" and lt: "sint cur < sint m"
    using ok mx by (auto simp: at_limit_def)
  have held: "slots (shared s) u = sint cur" by (simp add: slots_def look cell)
  have sl: "slots l = (slots (shared s))(u := sint cur + 1)"
    using cells_update_slots[OF wf look, of "cur + 1"] sint_incr[OF lt] by (auto simp: l fun_eq_iff)
  have t: "t \<notin> holders s u" using pc by (simp add: holders_def)
  show ?thesis
  proof (rule lim_inv_stepI[OF inv])
    show "pc_ok l (Holding u)" by (simp add: l look)
    fix v
    have "int (card (holders s u)) = sint cur" using inv held by (simp add: lim_inv_def)
    moreover have "\<And>v. v \<noteq> u \<Longrightarrow> holders s v - {t} = holders s v"
      using pc by (auto simp: holders_def)
    ultimately show "slots l v = int (card (holders (at_pc (s\<lparr>shared := l\<rparr>) t (Holding u)) v))
        \<and> int (card (holders (at_pc (s\<lparr>shared := l\<rparr>) t (Holding u)) v)) \<le> max 0 (sint m)"
      using inv t lt lim_inv_finite_holders[OF inv]
      by (auto simp: sl holders_at_pc lim_inv_def)
  qed (simp_all add: l wf cells_update_wf)
qed

lemma lim_inv_release:
  assumes inv: "lim_inv m s" and pc: "pcs s t = Releasing u p"
  defines "l \<equiv> (shared s)\<lparr>lim_cells := (lim_cells (shared s))[p := lim_cells (shared s) ! p - 1]\<rparr>"
  shows "lim_inv m (at_pc (s\<lparr>shared := l\<rparr>) t Idle)"
proof -
  have wf: "limiter_wf (shared s)" and ok: "pc_ok (shared s) (Releasing u p)"
    using inv lim_inv_pc_ok[OF inv pc] by (auto simp: lim_inv_def)
  have look: "map_of (lim_counts (shared s)) u = Some p" using ok by simp
  have t: "t \<in> holders s u" using pc by (simp add: holders_def)
  have card: "slots (shared s) u = int (card (holders s u))" using inv by (simp add: lim_inv_def)
  have pos: "0 < card (holders s u)" using t lim_inv_finite_holders[OF inv] by (auto simp: card_gt_0_iff)
  have cell: "sint (lim_cells (shared s) ! p) = slots (shared s) u" by (simp add: slots_def look)
  then have "sint (lim_cells (shared s) ! p - 1) = slots (shared s) u - 1"
    using pos card by (simp add: sint_decr)
  then have sl: "slots l = (slots (shared s))(u := slots (shared s) u - 1)"
    using cells_update_slots[OF wf look, of "lim_cells (shared s) ! p - 1"]
    by (auto simp: l_def fun_eq_iff)
  show ?thesis
  proof (rule lim_inv_stepI[OF inv])
    fix v
    have "\<And>v. v \<noteq> u \<Longrightarrow> holders s v - {t} = holders s v"
      using pc by (auto simp: holders_def)
    moreover have "int (card (holders s u - {t})) = int (card (holders s u)) - 1"
      using t pos lim_inv_finite_holders[OF inv] by (simp add: card_Diff_singleton of_nat_diff)
    ultimately show "slots l v = int (card (holders (at_pc (s\<lparr>shared := l\<rparr>) t Idle) v))
        \<and> int (card (holders (at_pc (s\<lparr>shared := l\<rparr>) t Idle) v)) \<le> max 0 (sint m)"
      using inv card by (auto simp: sl holders_at_pc lim_inv_def) (smt (verit))
  qed (simp_all add: l_def wf cells_update_wf)
qed

lemma lim_inv_find_counter:
  assumes inv: "lim_inv m s" and pc: "pcs s t = Entered u"
    and c: "counter_for u (shared s) = (p, l)"
  shows "lim_inv m (at_pc (s\<lparr>shared := l\<rparr>) t (Looping u p))"
proof -
  have wf: "limiter_wf (shared s)" using inv by (simp add: lim_inv_def)
  note facts = keeps_pointers_counter_for[of "shared s" u] counter_for_wf[OF wf, of u]
    counter_for_lookup[of u "shared s"] counter_for_slots[OF wf, of u]
  show ?thesis
    by (rule lim_inv_silentI[OF inv]) (use facts c pc in \<open>auto simp: fun_eq_iff\<close>)
qed

lemma lim_step_inv:
  assumes "lim_step s s'" "lim_inv m s" shows "lim_inv m s'"
  using assms
proof (cases rule: lim_step.cases)
  case (retry t u p cur l)
  then have "l = shared s" by (simp add: CompareAndSwap_def split: if_splits)
  with retry lim_inv_pc_ok[OF assms(2) retry(2)] show ?thesis
    by (auto intro!: lim_inv_quietI[OF assms(2)])
next
  case (load t u p)
  then show ?thesis
    using lim_inv_pc_ok[OF assms(2) load(2)] by (auto intro!: lim_inv_quietI[OF assms(2)])
next
  case (release_none t u)
  then show ?thesis using lim_inv_pc_ok[OF assms(2) release_none(2)] by simp
qed (auto intro: lim_inv_quietI[OF assms(2)] lim_inv_find_counter[OF assms(2)]
      lim_inv_swap[OF assms(2)] lim_inv_release[OF assms(2)])

lemma lim_reach_inv: "lim_reach m s \<Longrightarrow> lim_inv m s"
  by (induction rule: lim_reach.induct) (auto intro: lim_init_inv lim_step_inv)

section \<open>The total\<close>

lemma Total_slots:
  assumes "limiter_wf l"
  shows "Total l = of_int (\<Sum>u \<in> dom (map_of (lim_counts l)). slots l u)"
proof -
  have d: "distinct (map fst (lim_counts l))" using assms by (simp add: limiter_wf_def)
  have "Total l = sum_list (map (\<lambda>u. of_int (slots l u)) (map fst (lim_counts l)))"
    unfolding Total_def map_map
    by (rule arg_cong[where f = sum_list], rule map_cong)
      (use d in \<open>auto simp: slots_def\<close>)
  also have "\<dots> = (\<Sum>u \<in> set (map fst (lim_counts l)). of_int (slots l u))"
    by (rule sum_list_distinct_conv_sum_set[OF d])
  finally show ?thesis by (simp add: dom_map_of_conv_image_fst)
qed

lemma holders_total:
  assumes inv: "lim_inv m s"
  shows "int (card (\<Union>u. holders s u)) = (\<Sum>u \<in> dom (map_of (lim_counts (shared s))). slots (shared s) u)"
proof -
  let ?D = "dom (map_of (lim_counts (shared s)))"
  have "holders s u = {}" if "u \<notin> ?D" for u
  proof -
    have "slots (shared s) u = 0" using that by (auto simp: slots_def split: option.split)
    then show ?thesis using inv lim_inv_finite_holders[OF inv, of u] by (simp add: lim_inv_def)
  qed
  then have "(\<Union>u. holders s u) = (\<Union>u \<in> ?D. holders s u)" by blast
  moreover have "card (\<Union>u \<in> ?D. holders s u) = (\<Sum>u \<in> ?D. card (holders s u))"
  proof (rule card_UN_disjoint)
    have "holds_slot x u \<Longrightarrow> holds_slot x v \<Longrightarrow> u = v" for x u v by (cases x) auto
    then show "\<forall>i\<in>?D. \<forall>j\<in>?D. i \<noteq> j \<longrightarrow> holders s i \<inter> holders s j = {}"
      by (auto simp: holders_def)
  qed (simp_all add: finite_dom_map_of lim_inv_finite_holders[OF inv])
  ultimately show ?thesis using inv by (simp add: lim_inv_def)
qed

section \<open>Refinement of an atomic counter\<close>

text \<open>The abstract machine: a slot is granted below the limit and given back when held.\<close>

inductive slot_step :: "64 word \<Rightarrow> (string \<Rightarrow> nat) \<Rightarrow> (string \<Rightarrow> nat) \<Rightarrow> bool" for m where
  grant: "int (h u) < sint m \<Longrightarrow> slot_step m h (h(u := Suc (h u)))"
| give_back: "0 < h u \<Longrightarrow> slot_step m h (h(u := h u - 1))"

definition held_slots :: "lsys \<Rightarrow> string \<Rightarrow> nat" where
  "held_slots s u = card (holders s u)"

lemma held_slots_silent:
  assumes "\<And>v. holds_slot x v = holds_slot (pcs s t) v"
  shows "held_slots (at_pc (s\<lparr>shared := l\<rparr>) t x) = held_slots s"
proof -
  have "holders (at_pc (s\<lparr>shared := l\<rparr>) t x) v = holders s v" for v
    using assms[of v] by (auto simp: holders_at_pc) (auto simp: holders_def)
  then show ?thesis by (simp add: held_slots_def fun_eq_iff)
qed

lemma lim_step_simulates:
  assumes step: "lim_step s s'" and inv: "lim_inv m s"
  shows "held_slots s' = held_slots s \<or> slot_step m (held_slots s) (held_slots s')"
  using step
proof (cases rule: lim_step.cases)
  case (swap t u p cur l)
  have "pc_ok (shared s) (Loaded u p cur)" and mx: "lim_max (shared s) = m"
    using inv lim_inv_pc_ok[OF inv swap(2)] by (auto simp: lim_inv_def)
  then have "map_of (lim_counts (shared s)) u = Some p" and "sint cur < sint m"
    by (auto simp: at_limit_def)
  moreover have "lim_cells (shared s) ! p = cur"
    using swap(3) by (simp add: CompareAndSwap_def split: if_splits)
  ultimately have "int (held_slots s u) < sint m"
    using inv by (simp add: lim_inv_def held_slots_def slots_def) (metis option.simps(5))
  moreover have "holders s v - {t} = holders s v" for v
    using swap(2) by (auto simp: holders_def)
  then have "held_slots s' = (held_slots s)(u := Suc (held_slots s u))"
    using lim_inv_finite_holders[OF inv] unfolding swap(1)
    by (auto simp: held_slots_def fun_eq_iff holders_at_pc card_insert_if)
  ultimately show ?thesis using slot_step.grant by simp
next
  case (release_add t u p)
  have t: "t \<in> holders s u" using release_add(2) by (simp add: holders_def)
  then have "0 < held_slots s u"
    using lim_inv_finite_holders[OF inv] by (auto simp: held_slots_def card_gt_0_iff)
  moreover have "v \<noteq> u \<Longrightarrow> holders s v - {t} = holders s v" for v
    using release_add(2) by (auto simp: holders_def)
  then have "held_slots s' = (held_slots s)(u := held_slots s u - 1)"
    using t unfolding release_add(1)
    by (auto simp: held_slots_def fun_eq_iff holders_at_pc card_Diff_singleton)
  ultimately show ?thesis using slot_step.give_back by simp
next
  case (release_none t u)
  then show ?thesis using lim_inv_pc_ok[OF inv release_none(2)] by simp
qed (use held_slots_silent[of _ s _ "shared s"] held_slots_silent in auto)

section \<open>Properties\<close>

text \<open>
  C8: under every interleaving of goroutines the limiter never grants a user more slots than
  the configured maximum (none when the maximum is negative).
\<close>

theorem limit_never_exceeded:
  assumes "lim_reach m s"
  shows "int (card (holders s u)) \<le> max 0 (sint m)"
  using lim_reach_inv[OF assms] by (simp add: lim_inv_def)


text \<open>
  \<open>Total\<close> is the number of goroutines that hold a slot, over all users (as a 64-bit
  integer).
\<close>

theorem Total_counts_holders:
  assumes "lim_reach m s"
  shows "Total (shared s) = of_nat (card (\<Union>u. holders s u))"
proof -
  have inv: "lim_inv m s" by (rule lim_reach_inv[OF assms])
  then have "Total (shared s) = of_int (int (card (\<Union>u. holders s u)))"
    using Total_slots[of "shared s"] holders_total[OF inv] by (simp add: lim_inv_def)
  then show ?thesis by simp
qed

text \<open>
  a goroutine that enters \<open>Acquire\<close> and runs without interference returns, with the
  result and the state of the sequential \<open>Acquire\<close>.
\<close>

theorem Acquire_runs_alone:
  assumes "pcs s t = Entered u"
  shows "\<exists>s'. lim_step\<^sup>*\<^sup>* s s' \<and> shared s' = snd (Acquire u (shared s)) \<and>
    pcs s' = (pcs s)(t := (case fst (Acquire u (shared s)) of Inl _ \<Rightarrow> Refused u | Inr _ \<Rightarrow> Holding u))"
proof -
  obtain p l where c: "counter_for u (shared s) = (p, l)" by (cases "counter_for u (shared s)")
  define s1 where "s1 = at_pc (s\<lparr>shared := l\<rparr>) t (Looping u p)"
  have 1: "lim_step s s1" unfolding s1_def by (rule lim_step.find_counter[OF assms c])
  have pc1: "pcs s1 t = Looping u p" and sh1: "shared s1 = l" by (simp_all add: s1_def at_pc_def)
  show ?thesis
  proof (cases "at_limit l (lim_cells l ! p)")
    case True
    then have 2: "lim_step s1 (at_pc s1 t (Refused u))"
      using lim_step.refuse[OF pc1] sh1 by simp
    have "Acquire u (shared s) = (Inl (LimitReached (lim_max l)), l)"
      using True c by (simp add: Acquire_def acquire_loop_eq)
    with 1 2 show ?thesis
      by (intro exI[of _ "at_pc s1 t (Refused u)"]) (auto simp: s1_def at_pc_def)
  next
    case False
    let ?x = "lim_cells l ! p"
    define s2 where "s2 = at_pc s1 t (Loaded u p ?x)"
    let ?l' = "l\<lparr>lim_cells := (lim_cells l)[p := ?x + 1]\<rparr>"
    have 2: "lim_step s1 s2" unfolding s2_def using lim_step.load[OF pc1] sh1 False by simp
    have "pcs s2 t = Loaded u p ?x" and "CompareAndSwap p ?x (?x + 1) (shared s2) = (True, ?l')"
      by (simp_all add: s2_def s1_def at_pc_def CompareAndSwap_def)
    then have 3: "lim_step s2 (at_pc (s2\<lparr>shared := ?l'\<rparr>) t (Holding u))" by (rule lim_step.swap)
    have "Acquire u (shared s) = (Inr (), ?l')"
      using False c by (simp add: Acquire_def acquire_loop_eq)
    moreover have "lim_step\<^sup>*\<^sup>* s (at_pc (s2\<lparr>shared := ?l'\<rparr>) t (Holding u))"
      using 1 2 3 by (meson converse_rtranclp_into_rtranclp rtranclp.rtrancl_refl)
    ultimately show ?thesis
      by (intro exI[of _ "at_pc (s2\<lparr>shared := ?l'\<rparr>) t (Holding u)"])
        (auto simp: s2_def s1_def at_pc_def)
  qed
qed

section \<open>Witnesses\<close>

text \<open>A run in which goroutine 0 obtains the only slot of user \<open>u\<close>.\<close>

definition entered_once :: lsys where
  "entered_once = at_pc (lim_init 1) 0 (Entered ''u'')"

definition held_once :: lsys where
  "held_once = \<lparr>shared = snd (Acquire ''u'' (NewConnLimiter 1)),
                pcs = (\<lambda>_. Idle)(0 := Holding ''u'')\<rparr>"

lemma entered_once_reach: "lim_reach 1 entered_once"
  unfolding entered_once_def
  by (rule lim_reach.lim_next[OF lim_reach.lim_start lim_step.call]) (simp add: lim_init_def)

lemma acquire_fresh:
  "Acquire ''u'' (NewConnLimiter 1) =
   (Inr (), \<lparr>lim_max = 1, lim_counts = [(''u'', 0)], lim_cells = [1]\<rparr>)"
  by (simp add: Acquire_def NewConnLimiter_def counter_for_def acquire_loop_eq at_limit_def)

lemma held_once_reach: "lim_reach 1 held_once"
proof -
  let ?l0 = "\<lparr>lim_max = 1, lim_counts = [(''u'', 0)], lim_cells = [0]\<rparr>"
  let ?s1 = "\<lparr>shared = ?l0, pcs = (\<lambda>_. Idle)(0 := Looping ''u'' 0)\<rparr>"
  let ?s2 = "\<lparr>shared = ?l0, pcs = (\<lambda>_. Idle)(0 := Loaded ''u'' 0 0)\<rparr>"
  have "lim_step entered_once ?s1"
    using lim_step.find_counter[of entered_once 0 "''u''" 0 ?l0]
    by (simp add: entered_once_def at_pc_def lim_init_def NewConnLimiter_def counter_for_def)
  moreover have "lim_step ?s1 ?s2"
    using lim_step.load[of ?s1 0 "''u''" 0] by (simp add: at_pc_def at_limit_def)
  moreover have "lim_step ?s2 held_once"
    using lim_step.swap[of ?s2 0 "''u''" 0 0 "snd (Acquire ''u'' (NewConnLimiter 1))"]
    by (simp add: at_pc_def CompareAndSwap_def held_once_def acquire_fresh)
  ultimately show ?thesis using entered_once_reach by (blast intro: lim_reach.lim_next)
qed

lemma held_once_holders: "holders held_once ''u'' = {0}"
  by (auto simp: holders_def held_once_def)

theorem limit_never_exceeded_witness:
  "lim_reach 1 held_once \<and> int (card (holders held_once ''u'')) = max 0 (sint (1 :: 64 word))"
  using limit_never_exceeded[OF held_once_reach, of "''u''"] held_once_reach held_once_holders
  by simp


theorem Total_counts_holders_witness: "lim_reach 1 held_once \<and> Total (shared held_once) = 1"
proof -
  have "(\<Union>u. holders held_once u) = {0}" by (auto simp: holders_def held_once_def)
  then show ?thesis using Total_counts_holders[OF held_once_reach] held_once_reach by simp
qed

theorem Acquire_runs_alone_witness:
  "\<exists>s'. lim_step\<^sup>*\<^sup>* entered_once s' \<and> pcs s' 0 = Holding ''u''"
proof -
  have "pcs entered_once 0 = Entered ''u''" by (simp add: entered_once_def at_pc_def)
  from Acquire_runs_alone[OF this] show ?thesis
    using acquire_fresh by (auto simp: entered_once_def at_pc_def lim_init_def)
qed

end
