(* ===== verification/Utf8.thy ===== *)
theory Utf8
  imports Prelude
begin

text \<open>
  UTF-8 on byte strings, as Go's package \<open>unicode/utf8\<close> decides it: \<open>utf8_size\<close> is the size
  of the well-formed encoding a string starts with (0 when its first byte starts none, which
  is Go's \<open>RuneError\<close> of width one), \<open>utf8_encode\<close> the encoding of a code point, and
  \<open>sanitize\<close> the replacement of every invalid byte by \<open>U+FFFD\<close>.
\<close>

definition byte :: "char \<Rightarrow> nat" where
  "byte c = of_char c"

definition cont :: "char \<Rightarrow> bool" where
  "cont c \<longleftrightarrow> 128 \<le> byte c \<and> byte c \<le> 191"

definition second_ok :: "nat \<Rightarrow> char \<Rightarrow> bool" where
  "second_ok n b \<longleftrightarrow> cont b \<and> (n = 224 \<longrightarrow> 160 \<le> byte b) \<and> (n = 237 \<longrightarrow> byte b \<le> 159) \<and>
     (n = 240 \<longrightarrow> 144 \<le> byte b) \<and> (n = 244 \<longrightarrow> byte b \<le> 143)"

fun utf8_size :: "string \<Rightarrow> nat" where
  "utf8_size [] = 0"
| "utf8_size (a # r) =
     (if byte a < 128 then 1
      else if byte a < 194 then 0
      else if byte a < 224 then (case r of b # _ \<Rightarrow> if cont b then 2 else 0 | _ \<Rightarrow> 0)
      else if byte a < 240 then
        (case r of b # c # _ \<Rightarrow> if second_ok (byte a) b \<and> cont c then 3 else 0 | _ \<Rightarrow> 0)
      else if byte a < 245 then
        (case r of b # c # d # _ \<Rightarrow> if second_ok (byte a) b \<and> cont c \<and> cont d then 4 else 0
         | _ \<Rightarrow> 0)
      else 0)"

definition utf8_encode :: "nat \<Rightarrow> string" where
  "utf8_encode n = map char_of
     (if n < 128 then [n]
      else if n < 2048 then [192 + n div 64, 128 + n mod 64]
      else if n < 65536 then [224 + n div 4096, 128 + n div 64 mod 64, 128 + n mod 64]
      else [240 + n div 262144, 128 + n div 4096 mod 64, 128 + n div 64 mod 64, 128 + n mod 64])"

definition replacement :: string where
  "replacement = [CHR 0xEF, CHR 0xBF, CHR 0xBD]"

lemma byte_less [simp]: "byte c < 256"
  by (simp add: byte_def)

lemma utf8_size_le: "utf8_size s \<le> length s"
  by (cases s rule: utf8_size.cases) (auto split: list.splits)

lemma utf8_size_le_4: "utf8_size s \<le> 4"
  by (cases s rule: utf8_size.cases) (auto split: list.splits)

text \<open>The size is decided by the bytes it spans.\<close>

lemma utf8_size_take:
  assumes "0 < utf8_size s"
  shows "utf8_size (take (utf8_size s) s @ t) = utf8_size s"
  using assms
  by (cases s rule: utf8_size.cases) (auto split: list.splits if_splits)

lemma utf8_size_append:
  assumes "0 < utf8_size s" shows "utf8_size (s @ t) = utf8_size s"
  using utf8_size_take[OF assms, of "drop (utf8_size s) s @ t"]
  by (simp only: append_assoc[symmetric] append_take_drop_id)

lemma utf8_size_ascii [simp]: "byte c < 128 \<Longrightarrow> utf8_size (c # s) = 1"
  by simp

declare utf8_size.simps(2) [simp del]

function sanitize :: "string \<Rightarrow> string" where
  "sanitize s =
     (case s of
        [] \<Rightarrow> []
      | c # cs \<Rightarrow>
          (if utf8_size s = 0 then replacement @ sanitize cs
           else take (utf8_size s) s @ sanitize (drop (utf8_size s) s)))"
  by pat_completeness auto
termination
  by (relation "measure length") auto

declare sanitize.simps [simp del]

function valid_utf8 :: "string \<Rightarrow> bool" where
  "valid_utf8 s =
     (case s of
        [] \<Rightarrow> True
      | c # cs \<Rightarrow> (if utf8_size s = 0 then False else valid_utf8 (drop (utf8_size s) s)))"
  by pat_completeness auto
termination
  by (relation "measure length") auto

declare valid_utf8.simps [simp del]

lemma sanitize_Nil [simp]: "sanitize [] = []"
  by (subst sanitize.simps) simp

lemma sanitize_invalid: "utf8_size (c # cs) = 0 \<Longrightarrow> sanitize (c # cs) = replacement @ sanitize cs"
  by (subst sanitize.simps) simp

lemma sanitize_valid_step:
  "0 < utf8_size s \<Longrightarrow> sanitize s = take (utf8_size s) s @ sanitize (drop (utf8_size s) s)"
  by (subst sanitize.simps) (cases s, simp_all)

lemma sanitize_ascii: "byte c < 128 \<Longrightarrow> sanitize (c # cs) = c # sanitize cs"
  by (subst sanitize_valid_step) simp_all

lemma valid_utf8_Nil [simp]: "valid_utf8 []"
  by (subst valid_utf8.simps) simp

lemma valid_utf8_Cons_ascii [simp]: "byte c < 128 \<Longrightarrow> valid_utf8 (c # cs) = valid_utf8 cs"
  by (subst valid_utf8.simps) simp

lemma valid_utf8_ascii: "\<forall>c \<in> set s. byte c < 128 \<Longrightarrow> valid_utf8 s"
  by (induction s) simp_all

lemma sanitize_valid: "valid_utf8 s \<Longrightarrow> sanitize s = s"
proof (induction s rule: valid_utf8.induct)
  case (1 s)
  show ?case
  proof (cases s)
    case (Cons c cs)
    have "0 < utf8_size s" using "1.prems" Cons by (subst (asm) valid_utf8.simps) (auto split: if_splits)
    moreover then have "valid_utf8 (drop (utf8_size s) s)"
      using "1.prems" Cons by (subst (asm) valid_utf8.simps) simp
    ultimately show ?thesis using 1(1)[OF Cons] by (simp add: sanitize_valid_step)
  qed simp
qed

lemma valid_utf8_append: "valid_utf8 a \<Longrightarrow> valid_utf8 (a @ b) = valid_utf8 b"
proof (induction a rule: valid_utf8.induct)
  case (1 s)
  show ?case
  proof (cases s)
    case (Cons c cs)
    have pos: "0 < utf8_size s"
      using "1.prems" Cons by (subst (asm) valid_utf8.simps) (auto split: if_splits)
    then have v: "valid_utf8 (drop (utf8_size s) s)"
      using "1.prems" Cons by (subst (asm) valid_utf8.simps) simp
    have size: "utf8_size (s @ b) = utf8_size s"
      using utf8_size_append[OF pos] .
    have "valid_utf8 (s @ b) = valid_utf8 (drop (utf8_size s) (s @ b))"
      using pos size Cons by (subst valid_utf8.simps) simp
    also have "\<dots> = valid_utf8 (drop (utf8_size s) s @ b)"
      using utf8_size_le[of s] by simp
    finally show ?thesis using 1(1)[OF Cons _ v] pos by simp
  qed simp
qed

lemma valid_replacement: "valid_utf8 replacement"
  by (subst valid_utf8.simps)
    (simp add: replacement_def byte_def cont_def second_ok_def utf8_size.simps)

lemma valid_take_size:
  assumes "0 < utf8_size s" shows "valid_utf8 (take (utf8_size s) s)"
proof -
  let ?t = "take (utf8_size s) s"
  have "utf8_size ?t = utf8_size s" using utf8_size_take[OF assms, of "[]"] by simp
  moreover have "drop (utf8_size s) ?t = []" by simp
  ultimately show ?thesis using assms by (subst valid_utf8.simps) (cases ?t, simp_all)
qed

lemma sanitize_is_valid: "valid_utf8 (sanitize s)"
proof (induction s rule: sanitize.induct)
  case (1 s)
  show ?case
  proof (cases s)
    case (Cons c cs)
    show ?thesis
    proof (cases "utf8_size s = 0")
      case True
      then show ?thesis
        using 1(1)[OF Cons True] Cons
        by (simp add: sanitize_invalid valid_utf8_append valid_replacement)
    next
      case False
      then show ?thesis
        using 1(2)[OF Cons False]
        by (simp add: sanitize_valid_step valid_utf8_append valid_take_size)
    qed
  qed simp
qed

lemma sanitize_eq_Nil: "sanitize s = [] \<longleftrightarrow> s = []"
proof (cases s)
  case (Cons c cs)
  then show ?thesis
    by (cases "utf8_size s = 0") (simp_all add: sanitize_invalid sanitize_valid_step replacement_def)
qed simp

end
