(* ===== verification/Json.thy ===== *)
theory Json
  imports Utf8
begin

text \<open>
  The part of Go's package \<open>encoding/json\<close> the services use: values, the reader behind
  \<open>json.Unmarshal\<close> and \<open>Decoder.Decode\<close>, and the writer behind \<open>json.Marshal\<close>.

  Documented behaviour that matters to the code: \<open>Marshal\<close> writes a string with the HTML
  characters, control characters, \<open>U+2028\<close> and \<open>U+2029\<close> escaped and replaces every invalid
  UTF-8 byte by \<open>U+FFFD\<close>; \<open>Unmarshal\<close> refuses trailing data, raw control characters and
  nesting deeper than 10000, and matches member names to struct fields exactly or, failing
  that, up to case folding. Numbers are kept as their literal text.
\<close>

datatype json =
    JNull
  | JBool bool
  | JNum string
  | JStr string
  | JArr "json list"
  | JObj "(string \<times> json) list"

section \<open>Strings\<close>

definition quote :: char where "quote = CHR 0x22"
definition backslash :: char where "backslash = CHR 0x5C"

definition hex_digit :: "nat \<Rightarrow> char" where
  "hex_digit n = ''0123456789abcdef'' ! n"

definition hex_val :: "char \<Rightarrow> nat option" where
  "hex_val c =
     (if 48 \<le> byte c \<and> byte c \<le> 57 then Some (byte c - 48)
      else if 97 \<le> byte c \<and> byte c \<le> 102 then Some (byte c - 87)
      else if 65 \<le> byte c \<and> byte c \<le> 70 then Some (byte c - 55)
      else None)"

text \<open>The text \<open>Marshal\<close> writes for one ASCII byte.\<close>

definition escape_ascii :: "char \<Rightarrow> string" where
  "escape_ascii c =
     (if c = quote \<or> c = backslash then [backslash, c]
      else if c = CHR 0x08 then [backslash, CHR ''b'']
      else if c = CHR 0x0C then [backslash, CHR ''f'']
      else if c = CHR 0x0A then [backslash, CHR ''n'']
      else if c = CHR 0x0D then [backslash, CHR ''r'']
      else if c = CHR 0x09 then [backslash, CHR ''t'']
      else if byte c < 32 \<or> c = CHR ''<'' \<or> c = CHR ''>'' \<or> c = CHR 0x26
      then [backslash, CHR ''u'', CHR ''0'', CHR ''0'', hex_digit (byte c div 16), hex_digit (byte c mod 16)]
      else [c])"

text \<open>The encodings of \<open>U+2028\<close> and \<open>U+2029\<close>.\<close>

definition line_separators :: "string list" where
  "line_separators = [[CHR 0xE2, CHR 0x80, CHR 0xA8], [CHR 0xE2, CHR 0x80, CHR 0xA9]]"

definition escape_wide :: "string \<Rightarrow> string" where
  "escape_wide r =
     (if r = line_separators ! 0 then backslash # ''u2028''
      else if r = line_separators ! 1 then backslash # ''u2029''
      else r)"

function quote_body :: "string \<Rightarrow> string" where
  "quote_body s =
     (case s of
        [] \<Rightarrow> []
      | c # cs \<Rightarrow>
          (if byte c < 128 then escape_ascii c @ quote_body cs
           else if utf8_size s = 0 then (backslash # ''ufffd'') @ quote_body cs
           else escape_wide (take (utf8_size s) s) @ quote_body (drop (utf8_size s) s)))"
  by pat_completeness auto
termination
  by (relation "measure length") auto

declare quote_body.simps [simp del]

definition quote_string :: "string \<Rightarrow> string" where
  "quote_string s = quote # quote_body s @ [quote]"

text \<open>\<open>getu4\<close>, surrogate pairs and the escapes after a backslash.\<close>

fun hex4 :: "string \<Rightarrow> (nat \<times> string) option" where
  "hex4 (a # b # c # d # r) =
     (case (hex_val a, hex_val b, hex_val c, hex_val d) of
        (Some i, Some j, Some k, Some l) \<Rightarrow> Some (4096 * i + 256 * j + 16 * k + l, r)
      | _ \<Rightarrow> None)"
| "hex4 _ = None"

definition is_surrogate :: "nat \<Rightarrow> bool" where
  "is_surrogate n \<longleftrightarrow> 55296 \<le> n \<and> n < 57344"

definition low_surrogate :: "string \<Rightarrow> (nat \<times> string) option" where
  "low_surrogate s =
     (case s of
        b # u # r \<Rightarrow>
          if b = backslash \<and> u = CHR ''u''
          then (case hex4 r of
                  Some (n, r') \<Rightarrow> if 56320 \<le> n \<and> n < 57344 then Some (n, r') else None
                | None \<Rightarrow> None)
          else None
      | _ \<Rightarrow> None)"

definition unescape_u :: "string \<Rightarrow> (string \<times> string) option" where
  "unescape_u s =
     (case hex4 s of
        None \<Rightarrow> None
      | Some (n, r) \<Rightarrow>
          if is_surrogate n
          then (case (if n < 56320 then low_surrogate r else None) of
                  Some (m, r') \<Rightarrow> Some (utf8_encode (65536 + (n - 55296) * 1024 + (m - 56320)), r')
                | None \<Rightarrow> Some (replacement, r))
          else Some (utf8_encode n, r))"

fun unescape :: "string \<Rightarrow> (string \<times> string) option" where
  "unescape [] = None"
| "unescape (c # cs) =
     (if c = quote \<or> c = backslash \<or> c = CHR ''/'' then Some ([c], cs)
      else if c = CHR ''b'' then Some ([CHR 0x08], cs)
      else if c = CHR ''f'' then Some ([CHR 0x0C], cs)
      else if c = CHR ''n'' then Some ([CHR 0x0A], cs)
      else if c = CHR ''r'' then Some ([CHR 0x0D], cs)
      else if c = CHR ''t'' then Some ([CHR 0x09], cs)
      else if c = CHR ''u'' then unescape_u cs
      else None)"

lemma hex4_shorter: "hex4 s = Some (n, r) \<Longrightarrow> length r < length s"
  by (cases s rule: hex4.cases) (auto split: option.splits)

lemma low_surrogate_shorter: "low_surrogate s = Some (n, r) \<Longrightarrow> length r < length s"
  by (auto simp: low_surrogate_def split: list.splits if_splits option.splits dest: hex4_shorter)

lemma unescape_u_shorter: "unescape_u s = Some (x, r) \<Longrightarrow> length r < length s"
  by (auto simp: unescape_u_def split: option.splits if_splits dest!: hex4_shorter low_surrogate_shorter)

lemma unescape_shorter: "unescape s = Some (x, r) \<Longrightarrow> length r < length s"
  by (cases s) (auto split: if_splits dest: unescape_u_shorter)

text \<open>What follows an opening quote: the decoded text and the input after the closing quote.\<close>

definition prepend :: "string \<Rightarrow> (string \<times> 'b) option \<Rightarrow> (string \<times> 'b) option" where
  "prepend p x = map_option (\<lambda>(a, b). (p @ a, b)) x"

function unquote_body :: "string \<Rightarrow> (string \<times> string) option" where
  "unquote_body s =
     (case s of
        [] \<Rightarrow> None
      | c # cs \<Rightarrow>
          (if c = quote then Some ([], cs)
           else if c = backslash
           then (case unescape cs of None \<Rightarrow> None | Some (x, r) \<Rightarrow> prepend x (unquote_body r))
           else if byte c < 32 then None
           else if utf8_size s = 0 then prepend replacement (unquote_body cs)
           else prepend (take (utf8_size s) s) (unquote_body (drop (utf8_size s) s))))"
  by pat_completeness auto
termination
  by (relation "measure length") (auto dest: unescape_shorter)

declare unquote_body.simps [simp del]

lemma prepend_Some [simp]: "prepend p (Some (a, b)) = Some (p @ a, b)"
  by (simp add: prepend_def)

lemma prepend_SomeD: "prepend p x = Some (a, b) \<Longrightarrow> \<exists>a'. x = Some (a', b) \<and> a = p @ a'"
  by (auto simp: prepend_def)

lemma unquote_close [simp]: "unquote_body (quote # r) = Some ([], r)"
  by (subst unquote_body.simps) simp

lemma not_quote_backslash [simp]: "backslash \<noteq> quote" "quote \<noteq> backslash"
  by (simp_all add: quote_def backslash_def)

lemma unquote_escape:
  "unquote_body (backslash # cs) =
     (case unescape cs of None \<Rightarrow> None | Some (x, r) \<Rightarrow> prepend x (unquote_body r))"
  by (subst unquote_body.simps) simp

lemma unquote_escaped [simp]:
  "unescape cs = Some (x, r) \<Longrightarrow> unquote_body (backslash # cs) = prepend x (unquote_body r)"
  by (simp add: unquote_escape)

lemma unquote_control:
  "c \<noteq> quote \<Longrightarrow> c \<noteq> backslash \<Longrightarrow> byte c < 32 \<Longrightarrow> unquote_body (c # cs) = None"
  by (subst unquote_body.simps) simp

lemma unquote_invalid:
  "c \<noteq> quote \<Longrightarrow> c \<noteq> backslash \<Longrightarrow> 32 \<le> byte c \<Longrightarrow> utf8_size (c # cs) = 0 \<Longrightarrow>
   unquote_body (c # cs) = prepend replacement (unquote_body cs)"
  by (subst unquote_body.simps) simp

lemma unquote_rune:
  "c \<noteq> quote \<Longrightarrow> c \<noteq> backslash \<Longrightarrow> 32 \<le> byte c \<Longrightarrow> 0 < utf8_size (c # cs) \<Longrightarrow>
   unquote_body (c # cs) =
     prepend (take (utf8_size (c # cs)) (c # cs)) (unquote_body (drop (utf8_size (c # cs)) (c # cs)))"
  by (subst unquote_body.simps) simp

lemma unquote_ascii:
  "c \<noteq> quote \<Longrightarrow> c \<noteq> backslash \<Longrightarrow> 32 \<le> byte c \<Longrightarrow> byte c < 128 \<Longrightarrow>
   unquote_body (c # cs) = prepend [c] (unquote_body cs)"
  by (simp add: unquote_rune)

lemma unquote_body_shorter: "unquote_body s = Some (x, r) \<Longrightarrow> length r < length s"
proof (induction "length s" arbitrary: s x rule: less_induct)
  case less
  show ?case
  proof (cases s)
    case Nil
    then show ?thesis using less.prems by (simp add: unquote_body.simps)
  next
    case (Cons c cs)
    consider "c = quote" | "c = backslash" | "c \<noteq> quote" "c \<noteq> backslash" "byte c < 32"
      | "c \<noteq> quote" "c \<noteq> backslash" "32 \<le> byte c" "utf8_size s = 0"
      | "c \<noteq> quote" "c \<noteq> backslash" "32 \<le> byte c" "0 < utf8_size s" by linarith
    then show ?thesis
    proof cases
      case 1
      then show ?thesis using less.prems Cons by simp
    next
      case 2
      then obtain y r' a where u: "unescape cs = Some (y, r')" and "unquote_body r' = Some (a, r)"
        using less.prems Cons
        by (auto simp: unquote_escape split: option.splits dest!: prepend_SomeD)
      with less.hyps[of r' a] unescape_shorter[OF u] Cons show ?thesis by simp
    next
      case 3
      then show ?thesis using less.prems Cons by (simp add: unquote_control)
    next
      case 4
      then obtain a where "unquote_body cs = Some (a, r)"
        using less.prems Cons by (auto simp: unquote_invalid dest!: prepend_SomeD)
      with less.hyps[of cs a] Cons show ?thesis by simp
    next
      case 5
      then obtain a where "unquote_body (drop (utf8_size s) s) = Some (a, r)"
        using less.prems Cons by (auto simp: unquote_rune dest!: prepend_SomeD)
      with less.hyps[of "drop (utf8_size s) s" a] 5 Cons show ?thesis by simp
    qed
  qed
qed

text \<open>Writing a string and reading it back replaces the invalid bytes and nothing else.\<close>

lemma hex_val_digit: "n < 16 \<Longrightarrow> hex_val (hex_digit n) = Some n"
proof -
  have "\<forall>n \<in> set [0..<16]. hex_val (hex_digit n) = Some n"
    by (simp add: upt_rec hex_val_def hex_digit_def byte_def)
  then show "n < 16 \<Longrightarrow> ?thesis" by simp
qed

lemma hex_val_zero: "hex_val (CHR ''0'') = Some 0"
  using hex_val_digit[of 0] by (simp add: hex_digit_def)

lemma utf8_encode_ascii: "byte c < 128 \<Longrightarrow> utf8_encode (byte c) = [c]"
  by (simp add: utf8_encode_def byte_def)

lemma unescape_u_ascii:
  assumes "byte c < 128"
  shows "unescape_u (CHR ''0'' # CHR ''0'' # hex_digit (byte c div 16) # hex_digit (byte c mod 16) # r)
    = Some ([c], r)"
proof -
  have "byte c div 16 < 16" using assms by simp
  then show ?thesis
    using assms hex_val_digit[of "byte c div 16"] hex_val_digit[of "byte c mod 16"]
    by (simp add: unescape_u_def hex_val_zero is_surrogate_def utf8_encode_ascii)
qed

lemma unescape_letter [simp]:
  "unescape (CHR ''u'' # r) = unescape_u r" "unescape (quote # r) = Some ([quote], r)"
  "unescape (backslash # r) = Some ([backslash], r)" "unescape (CHR ''b'' # r) = Some ([CHR 0x08], r)"
  "unescape (CHR ''f'' # r) = Some ([CHR 0x0C], r)" "unescape (CHR ''n'' # r) = Some ([CHR 0x0A], r)"
  "unescape (CHR ''r'' # r) = Some ([CHR 0x0D], r)" "unescape (CHR ''t'' # r) = Some ([CHR 0x09], r)"
  by (simp_all add: quote_def backslash_def)

declare unescape.simps(2) [simp del]

lemma unquote_escape_ascii:
  assumes "byte c < 128"
  shows "unquote_body (escape_ascii c @ t) = prepend [c] (unquote_body t)"
proof (cases "escape_ascii c = [c]")
  case True
  then have "c \<noteq> quote" "c \<noteq> backslash" "32 \<le> byte c"
    by (auto simp: escape_ascii_def split: if_splits)
  then show ?thesis using True assms by (simp add: unquote_ascii)
next
  case False
  then consider "c = quote" | "c = backslash" | "c = CHR 0x08" | "c = CHR 0x0C" | "c = CHR 0x0A"
    | "c = CHR 0x0D" | "c = CHR 0x09"
    | "escape_ascii c = [backslash, CHR ''u'', CHR ''0'', CHR ''0'',
         hex_digit (byte c div 16), hex_digit (byte c mod 16)]"
    by (auto simp: escape_ascii_def split: if_splits)
  then show ?thesis
    by cases (use assms unescape_u_ascii[OF assms] in
      \<open>simp_all add: escape_ascii_def quote_def[symmetric] backslash_def[symmetric]\<close>)
qed

lemma unescape_wide:
  "unescape (''ufffd'' @ r) = Some (replacement, r)"
  "unescape (''u2028'' @ r) = Some (line_separators ! 0, r)"
  "unescape (''u2029'' @ r) = Some (line_separators ! 1, r)"
  by (simp_all add: unescape.simps quote_def backslash_def unescape_u_def hex_val_def byte_def is_surrogate_def
      utf8_encode_def replacement_def line_separators_def char_of_def bit_0)

lemma unquote_escape_wide:
  assumes pos: "0 < utf8_size s" and wide: "128 \<le> byte (hd s)"
  shows "unquote_body (escape_wide (take (utf8_size s) s) @ t)
    = prepend (take (utf8_size s) s) (unquote_body t)"
proof -
  let ?r = "take (utf8_size s) s"
  obtain c cs where r: "?r = c # cs" and c: "c = hd s"
    using pos by (cases s; cases "utf8_size s") auto
  have plain: "c \<noteq> quote" "c \<noteq> backslash" "32 \<le> byte c"
    using wide c by (auto simp: quote_def backslash_def byte_def)
  have "utf8_size (?r @ t) = utf8_size s" using utf8_size_take[OF pos] .
  moreover have "length ?r = utf8_size s" using utf8_size_le[of s] by simp
  then have "take (utf8_size s) (?r @ t) = ?r" and "drop (utf8_size s) (?r @ t) = t" by simp_all
  ultimately have "unquote_body (?r @ t) = prepend ?r (unquote_body t)"
    using unquote_rune[OF plain, of "cs @ t"] pos r by (simp del: take_append drop_append)
  then show ?thesis
    using unescape_wide(2,3)[of t] by (auto simp: escape_wide_def)
qed

lemma quote_body_Nil [simp]: "quote_body [] = []"
  by (subst quote_body.simps) simp

lemma quote_body_ascii: "byte c < 128 \<Longrightarrow> quote_body (c # cs) = escape_ascii c @ quote_body cs"
  by (subst quote_body.simps) simp

lemma quote_body_invalid:
  "128 \<le> byte c \<Longrightarrow> utf8_size (c # cs) = 0 \<Longrightarrow>
   quote_body (c # cs) = (backslash # ''ufffd'') @ quote_body cs"
  by (subst quote_body.simps) simp

lemma quote_body_wide:
  "128 \<le> byte c \<Longrightarrow> 0 < utf8_size (c # cs) \<Longrightarrow> quote_body (c # cs) =
     escape_wide (take (utf8_size (c # cs)) (c # cs)) @ quote_body (drop (utf8_size (c # cs)) (c # cs))"
  by (subst quote_body.simps) simp

lemma byte_string_induct [case_names Nil Ascii Invalid Wide]:
  assumes "P []"
    and "\<And>c cs. byte c < 128 \<Longrightarrow> P cs \<Longrightarrow> P (c # cs)"
    and "\<And>c cs. 128 \<le> byte c \<Longrightarrow> utf8_size (c # cs) = 0 \<Longrightarrow> P cs \<Longrightarrow> P (c # cs)"
    and "\<And>c cs. 128 \<le> byte c \<Longrightarrow> 0 < utf8_size (c # cs) \<Longrightarrow>
           P (drop (utf8_size (c # cs)) (c # cs)) \<Longrightarrow> P (c # cs)"
  shows "P s"
proof (induction "length s" arbitrary: s rule: less_induct)
  case less
  show ?case
  proof (cases s)
    case (Cons c cs)
    then show ?thesis
      using assms(2)[of c cs] assms(3)[of c cs] assms(4)[of c cs] less.hyps[of cs]
        less.hyps[of "drop (utf8_size s) s"]
      by (cases "byte c < 128"; cases "utf8_size s = 0") simp_all
  qed (simp add: assms(1))
qed

lemma unquote_quote_body: "unquote_body (quote_body s @ quote # r) = Some (sanitize s, r)"
proof (induction s rule: byte_string_induct)
  case (Ascii c cs)
  then show ?case by (simp add: quote_body_ascii unquote_escape_ascii sanitize_ascii)
next
  case (Invalid c cs)
  then show ?case
    using unescape_wide(1)[of "quote_body cs @ quote # r"]
    by (simp add: quote_body_invalid sanitize_invalid)
next
  case (Wide c cs)
  then show ?case
    using unquote_escape_wide[of "c # cs"]
    by (simp add: quote_body_wide sanitize_valid_step)
qed simp

text \<open>What is written is plain text: no raw newline and no raw control byte.\<close>

lemma hex_digit_printable: "n < 16 \<Longrightarrow> 32 \<le> byte (hex_digit n)"
proof -
  have "\<forall>n \<in> set [0..<16]. 32 \<le> byte (hex_digit n)"
    by (simp add: upt_rec hex_digit_def byte_def)
  then show "n < 16 \<Longrightarrow> ?thesis" by simp
qed

lemma escape_ascii_cases:
  obtains (plain) "escape_ascii c = [c]" "32 \<le> byte c"
  | (short) e where "escape_ascii c = [backslash, e]" "32 \<le> byte e"
  | (hex) "escape_ascii c = [backslash, CHR ''u'', CHR ''0'', CHR ''0'',
      hex_digit (byte c div 16), hex_digit (byte c mod 16)]"
proof (cases "escape_ascii c = [c]")
  case True
  then have "32 \<le> byte c"
    by (simp add: escape_ascii_def split: if_splits)
  with True show ?thesis by (rule plain)
next
  case False
  then consider "c = quote" | "c = backslash" | "c = CHR 0x08" | "c = CHR 0x0C" | "c = CHR 0x0A"
    | "c = CHR 0x0D" | "c = CHR 0x09"
    | "escape_ascii c = [backslash, CHR ''u'', CHR ''0'', CHR ''0'',
         hex_digit (byte c div 16), hex_digit (byte c mod 16)]"
    by (auto simp: escape_ascii_def split: if_splits)
  then show ?thesis
  proof cases
    case 1
    then show ?thesis by (intro short[of quote]) (simp_all add: escape_ascii_def quote_def byte_def)
  next
    case 2
    then show ?thesis
      by (intro short[of backslash]) (simp_all add: escape_ascii_def quote_def backslash_def byte_def)
  next
    case 3
    then show ?thesis
      by (intro short[of "CHR ''b''"]) (simp_all add: escape_ascii_def quote_def backslash_def byte_def)
  next
    case 4
    then show ?thesis
      by (intro short[of "CHR ''f''"]) (simp_all add: escape_ascii_def quote_def backslash_def byte_def)
  next
    case 5
    then show ?thesis
      by (intro short[of "CHR ''n''"]) (simp_all add: escape_ascii_def quote_def backslash_def byte_def)
  next
    case 6
    then show ?thesis
      by (intro short[of "CHR ''r''"]) (simp_all add: escape_ascii_def quote_def backslash_def byte_def)
  next
    case 7
    then show ?thesis
      by (intro short[of "CHR ''t''"]) (simp_all add: escape_ascii_def quote_def backslash_def byte_def)
  qed (rule hex)
qed

lemma escape_ascii_printable:
  assumes "byte c < 128" "x \<in> set (escape_ascii c)" shows "32 \<le> byte x"
proof (cases rule: escape_ascii_cases[of c])
  case hex
  have "byte c div 16 < 16" using assms(1) by simp
  then have "32 \<le> byte (hex_digit (byte c div 16))" "32 \<le> byte (hex_digit (byte c mod 16))"
    using hex_digit_printable by simp_all
  then show ?thesis using assms(2) hex by (auto simp: backslash_def byte_def)
qed (use assms in \<open>auto simp: backslash_def byte_def\<close>)

lemma utf8_size_wide_cases:
  assumes "128 \<le> byte c"
  shows "utf8_size (c # cs) = 0 \<or> (\<exists>b r. cs = b # r \<and> utf8_size (c # cs) = 2 \<and> cont b) \<or>
    (\<exists>b d r. cs = b # d # r \<and> utf8_size (c # cs) = 3 \<and> cont b \<and> cont d) \<or>
    (\<exists>b d e r. cs = b # d # e # r \<and> utf8_size (c # cs) = 4 \<and> cont b \<and> cont d \<and> cont e)"
proof -
  consider "byte c < 194 \<or> 245 \<le> byte c" | "194 \<le> byte c" "byte c < 224"
    | "224 \<le> byte c" "byte c < 240" | "240 \<le> byte c" "byte c < 245" by linarith
  then show ?thesis
  proof cases
    case 1
    then show ?thesis using assms by (auto simp: utf8_size.simps(2))
  next
    case 2
    then show ?thesis by (cases cs) (simp_all add: utf8_size.simps(2))
  next
    case 3
    then show ?thesis
      by (cases cs; cases "tl cs") (simp_all add: utf8_size.simps(2) second_ok_def)
  next
    case 4
    then show ?thesis
      by (cases cs; cases "tl cs"; cases "tl (tl cs)") (simp_all add: utf8_size.simps(2) second_ok_def)
  qed
qed

lemma rune_bytes_wide:
  assumes "128 \<le> byte c" "x \<in> set (take (utf8_size (c # cs)) (c # cs))"
  shows "128 \<le> byte x"
  using utf8_size_wide_cases[OF assms(1), of cs] assms by (auto simp: cont_def)

lemma quote_body_printable: "x \<in> set (quote_body s) \<Longrightarrow> 32 \<le> byte x"
proof (induction s rule: byte_string_induct)
  case (Ascii c cs)
  then show ?case by (auto simp: quote_body_ascii dest: escape_ascii_printable)
next
  case (Invalid c cs)
  then show ?case by (auto simp: quote_body_invalid backslash_def byte_def)
next
  case (Wide c cs)
  have "\<And>x. x \<in> set (escape_wide (take (utf8_size (c # cs)) (c # cs))) \<Longrightarrow> 32 \<le> byte x"
    using rune_bytes_wide[OF Wide(1), of _ cs]
    by (fastforce simp: escape_wide_def backslash_def byte_def split: if_splits)
  with Wide show ?case by (auto simp: quote_body_wide)
qed simp

lemma length_escape_ascii: "length (escape_ascii c) \<le> 6"
  by (simp add: escape_ascii_def)

lemma length_quote_body: "length (quote_body s) \<le> 6 * length s"
proof (induction s rule: byte_string_induct)
  case (Ascii c cs)
  then show ?case using length_escape_ascii[of c] by (simp add: quote_body_ascii)
next
  case (Invalid c cs)
  then show ?case by (simp add: quote_body_invalid)
next
  case (Wide c cs)
  let ?n = "utf8_size (c # cs)"
  have "length (escape_wide (take ?n (c # cs))) \<le> 6 * ?n"
    using Wide(2) utf8_size_le[of "c # cs"] by (auto simp: escape_wide_def)
  then show ?case using Wide utf8_size_le[of "c # cs"] by (simp add: quote_body_wide)
qed simp

end
