(* ===== verification/JsonText.thy ===== *)
theory JsonText
  imports Json
begin

text \<open>
  Reading and writing whole JSON values: the reader behind \<open>json.Unmarshal\<close> (which wants the
  whole input) and \<open>Decoder.Decode\<close> (which takes the first value of it), the writer behind
  \<open>json.Marshal\<close>, and the filling of Go structs from an object's members. The lemma
  \<open>parse_print\<close> is the round trip every message of the system goes through.
\<close>

section \<open>Reading\<close>

definition json_space :: "char \<Rightarrow> bool" where
  "json_space c \<longleftrightarrow> c = CHR '' '' \<or> c = CHR 0x09 \<or> c = CHR 0x0A \<or> c = CHR 0x0D"

definition skip_ws :: "string \<Rightarrow> string" where
  "skip_ws s = dropWhile json_space s"

lemma length_skip_ws: "length (skip_ws s) \<le> length s"
  by (simp add: skip_ws_def length_dropWhile_le)

definition digit :: "char \<Rightarrow> bool" where
  "digit c \<longleftrightarrow> 48 \<le> byte c \<and> byte c \<le> 57"

definition scan_digits :: "string \<Rightarrow> (string \<times> string) option" where
  "scan_digits s =
     (if takeWhile digit s = [] then None else Some (takeWhile digit s, dropWhile digit s))"

fun scan_int :: "string \<Rightarrow> (string \<times> string) option" where
  "scan_int [] = None"
| "scan_int (c # cs) = (if c = CHR ''0'' then Some ([c], cs) else scan_digits (c # cs))"

fun scan_frac :: "string \<Rightarrow> (string \<times> string) option" where
  "scan_frac [] = Some ([], [])"
| "scan_frac (c # cs) =
     (if c = CHR ''.'' then map_option (\<lambda>(n, r). (c # n, r)) (scan_digits cs) else Some ([], c # cs))"

fun scan_sign :: "string \<Rightarrow> string \<times> string" where
  "scan_sign [] = ([], [])"
| "scan_sign (c # cs) = (if c = CHR ''+'' \<or> c = CHR ''-'' then ([c], cs) else ([], c # cs))"

fun scan_exp :: "string \<Rightarrow> (string \<times> string) option" where
  "scan_exp [] = Some ([], [])"
| "scan_exp (c # cs) =
     (if c = CHR ''e'' \<or> c = CHR ''E''
      then map_option (\<lambda>(n, r). (c # fst (scan_sign cs) @ n, r)) (scan_digits (snd (scan_sign cs)))
      else Some ([], c # cs))"

definition scan_number :: "string \<Rightarrow> (string \<times> string) option" where
  "scan_number s =
     (let (m, s0) = (if take 1 s = ''-'' then (''-'', drop 1 s) else ([], s)) in
      case scan_int s0 of None \<Rightarrow> None | Some (i, s1) \<Rightarrow>
      (case scan_frac s1 of None \<Rightarrow> None | Some (f, s2) \<Rightarrow>
      (case scan_exp s2 of None \<Rightarrow> None | Some (e, s3) \<Rightarrow> Some (m @ i @ f @ e, s3))))"

text \<open>
  The three readers take the nesting still allowed. The comparison of lengths is what lets the
  recursion through the remaining text be accepted; it never fails.
\<close>

function parse_value :: "nat \<Rightarrow> string \<Rightarrow> (json \<times> string) option"
  and parse_elems :: "nat \<Rightarrow> string \<Rightarrow> (json list \<times> string) option"
  and parse_members :: "nat \<Rightarrow> string \<Rightarrow> ((string \<times> json) list \<times> string) option"
where
  "parse_value d s =
     (case s of
        [] \<Rightarrow> None
      | c # cs \<Rightarrow>
          if c = quote then map_option (\<lambda>(t, r). (JStr t, r)) (unquote_body cs)
          else if c = CHR ''['' then
            (if d = 0 then None
             else if take 1 (skip_ws cs) = '']'' then Some (JArr [], drop 1 (skip_ws cs))
             else map_option (\<lambda>(vs, r). (JArr vs, r)) (parse_elems (d - 1) (skip_ws cs)))
          else if c = CHR ''{'' then
            (if d = 0 then None
             else if take 1 (skip_ws cs) = ''}'' then Some (JObj [], drop 1 (skip_ws cs))
             else map_option (\<lambda>(ms, r). (JObj ms, r)) (parse_members (d - 1) (skip_ws cs)))
          else if take 4 s = ''null'' then Some (JNull, drop 4 s)
          else if take 4 s = ''true'' then Some (JBool True, drop 4 s)
          else if take 5 s = ''false'' then Some (JBool False, drop 5 s)
          else map_option (\<lambda>(n, r). (JNum n, r)) (scan_number s))"
| "parse_elems d s =
     (case parse_value d s of
        None \<Rightarrow> None
      | Some (v, r) \<Rightarrow>
          (case skip_ws r of
             [] \<Rightarrow> None
           | c # r' \<Rightarrow>
               if c = CHR '']'' then Some ([v], r')
               else if c = CHR '','' \<and> length r' < length s
               then map_option (\<lambda>(vs, r2). (v # vs, r2)) (parse_elems d (skip_ws r'))
               else None))"
| "parse_members d s =
     (case s of
        [] \<Rightarrow> None
      | q # s1 \<Rightarrow>
          if q \<noteq> quote then None
          else (case unquote_body s1 of
             None \<Rightarrow> None
           | Some (k, r) \<Rightarrow>
               (case skip_ws r of
                  [] \<Rightarrow> None
                | c # r1 \<Rightarrow>
                    if c = CHR '':'' \<and> length r1 < length s
                    then (case parse_value d (skip_ws r1) of
                       None \<Rightarrow> None
                     | Some (v, r2) \<Rightarrow>
                         (case skip_ws r2 of
                            [] \<Rightarrow> None
                          | c' # r3 \<Rightarrow>
                              if c' = CHR ''}'' then Some ([(k, v)], r3)
                              else if c' = CHR '','' \<and> length r3 < length s
                              then map_option (\<lambda>(ms, r4). ((k, v) # ms, r4)) (parse_members d (skip_ws r3))
                              else None))
                    else None)))"
  by pat_completeness auto

termination
proof (relation "measure (\<lambda>x. case x of Inl (d, s) \<Rightarrow> 2 * length s
    | Inr (Inl (d, s)) \<Rightarrow> 2 * length s + 1 | Inr (Inr (d, s)) \<Rightarrow> 2 * length s + 1)", goal_cases)
  case (2 d s c cs)
  then show ?case using length_skip_ws[of cs] by simp
next
  case (3 d s c cs)
  then show ?case using length_skip_ws[of cs] by simp
next
  case (5 d s p v r c r')
  then show ?case using length_skip_ws[of r'] by simp
next
  case (6 d s q s1 p k r c r1)
  then show ?case using length_skip_ws[of r1] by simp
next
  case (7 d s q s1 p k r c r1 p' v r2 c' r3)
  then show ?case using length_skip_ws[of r3] by simp
qed simp_all

declare parse_value.simps [simp del] parse_elems.simps [simp del] parse_members.simps [simp del]

definition max_nesting :: nat where "max_nesting = 10000"

text \<open>\<open>json.Unmarshal\<close> wants one value and nothing after it.\<close>

definition json_parse :: "string \<Rightarrow> json option" where
  "json_parse s =
     (case parse_value max_nesting (skip_ws s) of
        Some (v, r) \<Rightarrow> if skip_ws r = [] then Some v else None
      | None \<Rightarrow> None)"

text \<open>\<open>json.NewDecoder(r).Decode\<close> takes the first value of the input.\<close>

definition json_decode :: "string \<Rightarrow> json option" where
  "json_decode s = map_option fst (parse_value max_nesting (skip_ws s))"

section \<open>Writing\<close>

fun print_json :: "json \<Rightarrow> string"
  and print_elems :: "json list \<Rightarrow> string"
  and print_members :: "(string \<times> json) list \<Rightarrow> string"
where
  "print_json JNull = ''null''"
| "print_json (JBool b) = (if b then ''true'' else ''false'')"
| "print_json (JNum n) = n"
| "print_json (JStr s) = quote_string s"
| "print_json (JArr vs) = ''['' @ print_elems vs @ '']''"
| "print_json (JObj ms) = ''{'' @ print_members ms @ ''}''"
| "print_elems [] = []"
| "print_elems [v] = print_json v"
| "print_elems (v # w # vs) = print_json v @ '','' @ print_elems (w # vs)"
| "print_members [] = []"
| "print_members [(k, v)] = quote_string k @ '':'' @ print_json v"
| "print_members ((k, v) # m # ms) = quote_string k @ '':'' @ print_json v @ '','' @ print_members (m # ms)"

text \<open>What the reader recovers: the same value with every string made valid UTF-8.\<close>

fun json_clean :: "json \<Rightarrow> json" where
  "json_clean (JStr s) = JStr (sanitize s)"
| "json_clean (JArr vs) = JArr (map json_clean vs)"
| "json_clean (JObj ms) = JObj (map (\<lambda>(k, v). (sanitize k, json_clean v)) ms)"
| "json_clean v = v"

fun json_depth :: "json \<Rightarrow> nat" where
  "json_depth (JArr vs) = Suc (Max (set (0 # map json_depth vs)))"
| "json_depth (JObj ms) = Suc (Max (set (0 # map (\<lambda>(k, v). json_depth v) ms)))"
| "json_depth _ = 0"

text \<open>A number is kept as its text, which must be one the reader takes.\<close>

fun good_numbers :: "json \<Rightarrow> bool" where
  "good_numbers (JNum n) = (scan_number n = Some (n, []))"
| "good_numbers (JArr vs) = (\<forall>v \<in> set vs. good_numbers v)"
| "good_numbers (JObj ms) = (\<forall>(k, v) \<in> set ms. good_numbers v)"
| "good_numbers _ = True"

section \<open>Round trip\<close>

text \<open>The first character of a printed value starts no blank and closes no bracket.\<close>

definition starts_value :: "string \<Rightarrow> bool" where
  "starts_value s \<longleftrightarrow> (\<exists>c cs. s = c # cs \<and> \<not> json_space c \<and> c \<noteq> CHR '']'' \<and> c \<noteq> CHR ''}'')"

text \<open>What may follow a value: nothing a number could continue with.\<close>

definition ends_number :: "string \<Rightarrow> bool" where
  "ends_number r \<longleftrightarrow> (r = [] \<or> (\<not> digit (hd r) \<and> hd r \<notin> set ''.eE''))"

lemma scan_digits_append:
  assumes "scan_digits s = Some (n, t)" "t = [] \<Longrightarrow> ends_number r"
  shows "scan_digits (s @ r) = Some (n, t @ r)"
proof (cases "t = []")
  case True
  then have "\<forall>c \<in> set s. digit c" and n: "n = s" "s \<noteq> []"
    using assms(1) by (auto simp: scan_digits_def dropWhile_eq_Nil_conv takeWhile_eq_all_conv split: if_splits)
  moreover from this have "takeWhile digit (s @ r) = s" "dropWhile digit (s @ r) = r"
    using assms(2)[OF True] by (cases r; auto simp: ends_number_def)+
  ultimately show ?thesis using True by (simp add: scan_digits_def)
next
  case False
  then have "\<exists>x \<in> set s. \<not> digit x" using assms(1)
    by (auto simp: scan_digits_def split: if_splits)
  then have "takeWhile digit (s @ r) = takeWhile digit s" "dropWhile digit (s @ r) = dropWhile digit s @ r"
    by (auto simp: takeWhile_append1 dropWhile_append1)
  then show ?thesis using assms(1) by (auto simp: scan_digits_def split: if_splits)
qed

lemma scan_int_append:
  assumes "scan_int s = Some (n, t)" "t = [] \<Longrightarrow> ends_number r"
  shows "scan_int (s @ r) = Some (n, t @ r)"
  using assms scan_digits_append[of s n t r] by (cases s) (auto split: if_splits)

lemma scan_frac_append:
  assumes "scan_frac s = Some (n, t)" "t = [] \<Longrightarrow> ends_number r"
  shows "scan_frac (s @ r) = Some (n, t @ r)"
proof (cases s)
  case Nil
  then show ?thesis using assms by (cases r) (auto simp: ends_number_def)
next
  case (Cons c cs)
  then show ?thesis using assms scan_digits_append[of cs _ t r] by (auto split: if_splits)
qed

lemma scan_exp_append:
  assumes "scan_exp s = Some (n, t)" "t = [] \<Longrightarrow> ends_number r"
  shows "scan_exp (s @ r) = Some (n, t @ r)"
proof (cases s)
  case Nil
  then show ?thesis using assms by (cases r) (auto simp: ends_number_def)
next
  case (Cons c cs)
  show ?thesis
  proof (cases "c = CHR ''e'' \<or> c = CHR ''E''")
    case True
    have "cs \<noteq> []" using True Cons assms(1) by (auto simp: scan_digits_def)
    then have "scan_sign (cs @ r) = (fst (scan_sign cs), snd (scan_sign cs) @ r)" by (cases cs) auto
    then show ?thesis
      using True Cons assms scan_digits_append[of "snd (scan_sign cs)" _ t r] by auto
  qed (use Cons assms in auto)
qed

lemma scan_number_append:
  assumes "scan_number s = Some (s, [])" "ends_number r"
  shows "scan_number (s @ r) = Some (s, r)"
proof -
  obtain m s0 where m: "(m, s0) = (if take 1 s = ''-'' then (''-'', drop 1 s) else ([], s))" by force
  obtain i s1 f s2 e s3 where p: "scan_int s0 = Some (i, s1)" "scan_frac s1 = Some (f, s2)"
    "scan_exp s2 = Some (e, s3)" "m @ i @ f @ e = s" "s3 = []"
    using assms(1) unfolding scan_number_def m[symmetric] by (auto split: option.splits)
  have "s0 \<noteq> []" using p(1) by (cases s0) auto
  then have "(if take 1 (s @ r) = ''-'' then (''-'', drop 1 (s @ r)) else ([], s @ r)) = (m, s0 @ r)"
    using m by (cases s) (auto split: if_splits)
  moreover have "ends_number r" "x = [] \<Longrightarrow> ends_number r" for x :: string using assms(2) by blast+
  ultimately show ?thesis
    using p(4,5) scan_int_append[OF p(1), of r] scan_frac_append[OF p(2), of r] scan_exp_append[OF p(3), of r]
    by (simp add: scan_number_def)
qed

lemma ends_number_punct [simp]:
  "ends_number (CHR '']'' # r)" "ends_number (CHR '','' # r)" "ends_number (CHR ''}'' # r)" "ends_number []"
  by (simp_all add: ends_number_def digit_def byte_def)

text \<open>A number starts with a minus or a digit.\<close>

lemma scan_number_start:
  assumes "scan_number s = Some (n, r)"
  shows "\<exists>c cs. s = c # cs \<and> (c = CHR ''-'' \<or> digit c)"
proof (cases s)
  case Nil
  then show ?thesis using assms by (simp add: scan_number_def)
next
  case (Cons c cs)
  have "c = CHR ''-'' \<or> digit c"
  proof (rule ccontr)
    assume a: "\<not> (c = CHR ''-'' \<or> digit c)"
    then have "c \<noteq> CHR ''0''" by (auto simp: digit_def byte_def)
    with a Cons assms show False by (simp add: scan_number_def scan_digits_def)
  qed
  with Cons show ?thesis by blast
qed

definition starts_number :: "char \<Rightarrow> bool" where
  "starts_number c \<longleftrightarrow> c = CHR ''-'' \<or> digit c"

lemma starts_number_char:
  assumes "starts_number c"
  shows "\<not> json_space c" "c \<noteq> CHR '']''" "c \<noteq> CHR ''}''" "c \<noteq> quote" "c \<noteq> CHR ''[''" "c \<noteq> CHR ''{''"
    "c \<noteq> CHR ''n''" "c \<noteq> CHR ''t''" "c \<noteq> CHR ''f''"
  using assms
  by (auto simp: starts_number_def digit_def byte_def quote_def json_space_def)

lemma skip_ws_starts: "starts_value s \<Longrightarrow> skip_ws s = s"
  by (auto simp: starts_value_def skip_ws_def)

lemma starts_value_append: "starts_value s \<Longrightarrow> starts_value (s @ r)"
  by (auto simp: starts_value_def)

lemma starts_value_take:
  "starts_value s \<Longrightarrow> take 1 s \<noteq> '']'' \<and> take 1 s \<noteq> ''}''"
  by (auto simp: starts_value_def)

lemma starts_quote_string: "starts_value (quote_string k)"
  by (simp add: starts_value_def quote_string_def quote_def json_space_def)

lemma starts_value_number:
  assumes "scan_number n = Some (n, [])" shows "starts_value n"
proof -
  obtain c cs where n: "n = c # cs" and c: "starts_number c"
    using scan_number_start[OF assms] unfolding starts_number_def by blast
  show ?thesis unfolding starts_value_def using n starts_number_char(1-3)[OF c] by blast
qed

lemma starts_print_json: "good_numbers v \<Longrightarrow> starts_value (print_json v)"
proof (cases v)
  case (JNum n)
  assume "good_numbers v" with JNum show ?thesis by (simp add: starts_value_number)
qed (auto simp: starts_value_def quote_string_def quote_def json_space_def)

lemma starts_print_elems: "\<forall>v \<in> set (v # vs). good_numbers v \<Longrightarrow> starts_value (print_elems (v # vs))"
  by (cases vs) (simp_all add: starts_print_json starts_value_append)

lemma starts_print_members: "starts_value (print_members (m # ms))"
  by (cases m; cases ms) (simp_all add: starts_quote_string starts_value_append)

lemma skip_ws_punct [simp]:
  "skip_ws (CHR '']'' # r) = CHR '']'' # r" "skip_ws (CHR '','' # r) = CHR '','' # r"
  "skip_ws (CHR ''}'' # r) = CHR ''}'' # r" "skip_ws (CHR '':'' # r) = CHR '':'' # r"
  "skip_ws [] = []"
  by (simp_all add: skip_ws_def json_space_def)

lemma parse_value_quote:
  "parse_value d (quote # cs) = map_option (\<lambda>(t, r). (JStr t, r)) (unquote_body cs)"
  by (subst parse_value.simps) simp

lemma parse_value_array:
  "parse_value (Suc d) (CHR ''['' # cs) =
     (if take 1 (skip_ws cs) = '']'' then Some (JArr [], drop 1 (skip_ws cs))
      else map_option (\<lambda>(vs, r). (JArr vs, r)) (parse_elems d (skip_ws cs)))"
  by (subst parse_value.simps) (simp add: quote_def)

lemma parse_value_object:
  "parse_value (Suc d) (CHR ''{'' # cs) =
     (if take 1 (skip_ws cs) = ''}'' then Some (JObj [], drop 1 (skip_ws cs))
      else map_option (\<lambda>(ms, r). (JObj ms, r)) (parse_members d (skip_ws cs)))"
  by (subst parse_value.simps) (simp add: quote_def)

lemma parse_value_words:
  "parse_value d (''null'' @ r) = Some (JNull, r)"
  "parse_value d (''true'' @ r) = Some (JBool True, r)"
  "parse_value d (''false'' @ r) = Some (JBool False, r)"
  by (subst parse_value.simps, simp add: quote_def)+

lemma parse_value_number:
  assumes "scan_number n = Some (n, [])" "ends_number r"
  shows "parse_value d (n @ r) = Some (JNum n, r)"
proof -
  obtain c cs where n: "n = c # cs" and c: "starts_number c"
    using scan_number_start[OF assms(1)] unfolding starts_number_def by blast
  note q = starts_number_char(4-9)[OF c]
  have "scan_number (c # cs @ r) = Some (n, r)" using scan_number_append[OF assms] by (simp add: n)
  with q have "parse_value d (c # cs @ r) = Some (JNum n, r)"
    by (subst parse_value.simps) simp
  then show ?thesis by (simp add: n)
qed

lemma parse_elems_last:
  "parse_value d s = Some (v, CHR '']'' # r) \<Longrightarrow> parse_elems d s = Some ([v], r)"
  by (subst parse_elems.simps) simp

lemma parse_elems_more:
  assumes "parse_value d s = Some (v, CHR '','' # t)" "length t < length s" "starts_value t"
  shows "parse_elems d s = map_option (\<lambda>(vs, r). (v # vs, r)) (parse_elems d t)"
  using assms by (subst parse_elems.simps) (simp add: skip_ws_starts)

lemma parse_members_last:
  assumes "starts_value t" "parse_value d t = Some (v, CHR ''}'' # r)"
  shows "parse_members d (quote_string k @ CHR '':'' # t) = Some ([(sanitize k, v)], r)"
  using assms
  by (subst parse_members.simps) (simp add: quote_string_def unquote_quote_body skip_ws_starts)

lemma parse_members_more:
  assumes "starts_value t" "parse_value d t = Some (v, CHR '','' # u)" "starts_value u"
    "length u < length t"
  shows "parse_members d (quote_string k @ CHR '':'' # t) =
    map_option (\<lambda>(ms, r). ((sanitize k, v) # ms, r)) (parse_members d u)"
  using assms
  by (subst parse_members.simps) (simp add: quote_string_def unquote_quote_body skip_ws_starts)

lemma depth_bound_Cons:
  "Max (set (0 # map f (x # xs))) \<le> (d :: nat) \<longleftrightarrow> f x \<le> d \<and> Max (set (0 # map f xs)) \<le> d"
  by auto

lemma parse_print_all:
  "good_numbers v \<Longrightarrow> json_depth v \<le> d \<Longrightarrow> ends_number r \<Longrightarrow>
     parse_value d (print_json v @ r) = Some (json_clean v, r)"
  "vs \<noteq> [] \<Longrightarrow> \<forall>v \<in> set vs. good_numbers v \<Longrightarrow> \<forall>v \<in> set vs. json_depth v \<le> d \<Longrightarrow>
     parse_elems d (print_elems vs @ CHR '']'' # r) = Some (map json_clean vs, r)"
  "ms \<noteq> [] \<Longrightarrow> \<forall>(k, v) \<in> set ms. good_numbers v \<Longrightarrow> \<forall>(k, v) \<in> set ms. json_depth v \<le> d \<Longrightarrow>
     parse_members d (print_members ms @ CHR ''}'' # r) =
       Some (map (\<lambda>(k, v). (sanitize k, json_clean v)) ms, r)"
proof (induction v and vs and ms arbitrary: d r and d r and d r
    rule: print_json_print_elems_print_members.induct)
  case 1 then show ?case using parse_value_words(1)[of d r] by simp
next
  case (2 b) then show ?case using parse_value_words(2,3)[of d r] by simp
next
  case (3 n) then show ?case by (simp add: parse_value_number)
next
  case (4 s) then show ?case by (simp add: quote_string_def parse_value_quote unquote_quote_body)
next
  case (5 vs)
  then obtain d' where d: "d = Suc d'" by (cases d) simp_all
  show ?case
  proof (cases vs)
    case Nil
    then show ?thesis by (simp add: d parse_value_array)
  next
    case (Cons v ws)
    have s: "starts_value (print_elems vs @ CHR '']'' # r)"
      using starts_print_elems[of v ws] 5(2) Cons by (simp add: starts_value_append)
    have "parse_elems d' (print_elems vs @ CHR '']'' # r) = Some (map json_clean vs, r)"
      using 5 Cons by (intro "5.IH") (auto simp: d)
    then show ?thesis
      using starts_value_take[OF s] by (simp add: d parse_value_array skip_ws_starts[OF s])
  qed
next
  case (6 ms)
  then obtain d' where d: "d = Suc d'" by (cases d) simp_all
  show ?case
  proof (cases ms)
    case Nil
    then show ?thesis by (simp add: d parse_value_object)
  next
    case (Cons m ns)
    have s: "starts_value (print_members ms @ CHR ''}'' # r)"
      using starts_print_members[of m ns] Cons by (simp add: starts_value_append)
    have "parse_members d' (print_members ms @ CHR ''}'' # r) =
        Some (map (\<lambda>(k, v). (sanitize k, json_clean v)) ms, r)"
      using 6 Cons by (intro "6.IH") (auto simp: d)
    then show ?thesis
      using starts_value_take[OF s] by (simp add: d parse_value_object skip_ws_starts[OF s])
  qed
next
  case 7 then show ?case by simp
next
  case (8 v) then show ?case by (simp add: parse_elems_last)
next
  case (9 v w vs)
  let ?t = "print_elems (w # vs) @ CHR '']'' # r"
  have t: "starts_value ?t"
    using starts_print_elems[of w vs] 9(4) by (simp add: starts_value_append)
  have "parse_value d (print_json v @ CHR '','' # ?t) = Some (json_clean v, CHR '','' # ?t)"
    using 9 by simp
  moreover have "parse_elems d ?t = Some (map json_clean (w # vs), r)"
    using 9 by simp
  ultimately show ?case
    using parse_elems_more[OF _ _ t, of d "print_json v @ CHR '','' # ?t" "json_clean v"] by simp
next
  case 10 then show ?case by simp
next
  case (11 k v)
  then show ?case
    using parse_members_last[of "print_json v @ CHR ''}'' # r" d "json_clean v" r k]
    by (simp add: starts_value_append starts_print_json)
next
  case (12 k v m ms)
  let ?u = "print_members (m # ms) @ CHR ''}'' # r"
  let ?t = "print_json v @ CHR '','' # ?u"
  have u: "starts_value ?u" by (simp add: starts_value_append starts_print_members)
  have t: "starts_value ?t" using 12(4) by (simp add: starts_value_append starts_print_json)
  have "parse_value d ?t = Some (json_clean v, CHR '','' # ?u)" using 12 by simp
  moreover have "parse_members d ?u = Some (map (\<lambda>(k, v). (sanitize k, json_clean v)) (m # ms), r)"
    using 12 by simp
  ultimately show ?case
    using parse_members_more[OF t _ u, of d "json_clean v" k] by simp
qed

lemma parse_print:
  "good_numbers v \<Longrightarrow> json_depth v \<le> max_nesting \<Longrightarrow> json_parse (print_json v) = Some (json_clean v)"
  using parse_print_all(1)[of v max_nesting "[]"]
  by (simp add: json_parse_def skip_ws_starts starts_print_json)

end
