(* ===== verification/JsonStruct.thy ===== *)
theory JsonStruct
  imports JsonText
begin

text \<open>
  Filling Go values from JSON, as \<open>Unmarshal\<close> does: a decoder takes the value a variable has
  and the JSON value, and gives the variable's new value, or nothing when the types do not
  match. \<open>null\<close> leaves a string or a struct alone and empties a slice; an unknown member is
  ignored; a member named twice is decoded twice, the later one on top of the earlier. Member
  names match up to the case folding of \<open>foldName\<close>. (One corner is simplified: a slice decoded a
  second time starts from fresh elements.)
\<close>

type_synonym 'a decoder = "'a \<Rightarrow> json \<Rightarrow> 'a option"

definition dec_string :: "string decoder" where
  "dec_string old j = (case j of JStr s \<Rightarrow> Some s | JNull \<Rightarrow> Some old | _ \<Rightarrow> None)"

definition dec_bool :: "bool decoder" where
  "dec_bool old j = (case j of JBool b \<Rightarrow> Some b | JNull \<Rightarrow> Some old | _ \<Rightarrow> None)"

text \<open>A \<open>json.RawMessage\<close> keeps the value itself.\<close>

definition dec_raw :: "json option decoder" where
  "dec_raw old j = Some (Some j)"

fun dec_elems :: "'a \<Rightarrow> 'a decoder \<Rightarrow> json list \<Rightarrow> 'a list option" where
  "dec_elems zero f [] = Some []"
| "dec_elems zero f (v # vs) =
     (case f zero v of
        None \<Rightarrow> None
      | Some x \<Rightarrow> map_option (\<lambda>xs. x # xs) (dec_elems zero f vs))"

definition dec_slice :: "'a \<Rightarrow> 'a decoder \<Rightarrow> 'a list decoder" where
  "dec_slice zero f old j =
     (case j of JArr vs \<Rightarrow> dec_elems zero f vs | JNull \<Rightarrow> Some [] | _ \<Rightarrow> None)"

text \<open>\<open>foldName\<close>: ASCII letters upper-cased; \<open>U+017F\<close> folds to S and \<open>U+212A\<close> to K.\<close>

definition upper_ascii :: "char \<Rightarrow> char" where
  "upper_ascii c = (if 97 \<le> byte c \<and> byte c \<le> 122 then char_of (byte c - 32) else c)"

fun fold_name :: "string \<Rightarrow> string" where
  "fold_name [] = []"
| "fold_name (a # r) =
     (if a = CHR 0xC5 \<and> take 1 r = [CHR 0xBF] then CHR ''S'' # fold_name (drop 1 r)
      else if a = CHR 0xE2 \<and> take 2 r = [CHR 0x84, CHR 0xAA] then CHR ''K'' # fold_name (drop 2 r)
      else upper_ascii a # fold_name r)"

type_synonym 'a fields = "(string \<times> 'a decoder) list"

definition find_field :: "'a fields \<Rightarrow> string \<Rightarrow> 'a decoder option" where
  "find_field fs k =
     (case map_of fs k of
        Some f \<Rightarrow> Some f
      | None \<Rightarrow> map_option snd (find (\<lambda>(n, f). fold_name n = fold_name k) fs))"

fun dec_members :: "'a fields \<Rightarrow> 'a \<Rightarrow> (string \<times> json) list \<Rightarrow> 'a option" where
  "dec_members fs x [] = Some x"
| "dec_members fs x ((k, v) # ms) =
     (case find_field fs k of
        None \<Rightarrow> dec_members fs x ms
      | Some f \<Rightarrow> (case f x v of None \<Rightarrow> None | Some y \<Rightarrow> dec_members fs y ms))"

definition dec_struct :: "'a fields \<Rightarrow> 'a decoder" where
  "dec_struct fs old j =
     (case j of JObj ms \<Rightarrow> dec_members fs old ms | JNull \<Rightarrow> Some old | _ \<Rightarrow> None)"

text \<open>A struct member reached through a getter and a setter.\<close>

definition field :: "('a \<Rightarrow> 'b) \<Rightarrow> (('b \<Rightarrow> 'b) \<Rightarrow> 'a \<Rightarrow> 'a) \<Rightarrow> 'b decoder \<Rightarrow> 'a decoder" where
  "field get upd f x j = map_option (\<lambda>y. upd (\<lambda>_. y) x) (f (get x) j)"

text \<open>\<open>json.Unmarshal(data, &v)\<close> and \<open>json.NewDecoder(r).Decode(&v)\<close>.\<close>

definition unmarshal :: "'a decoder \<Rightarrow> 'a \<Rightarrow> string \<Rightarrow> 'a option" where
  "unmarshal f zero s = (case json_parse s of None \<Rightarrow> None | Some j \<Rightarrow> f zero j)"

definition decode_body :: "'a decoder \<Rightarrow> 'a \<Rightarrow> string \<Rightarrow> 'a option" where
  "decode_body f zero s = (case json_decode s of None \<Rightarrow> None | Some j \<Rightarrow> f zero j)"

named_theorems dec_simps "equations of the JSON decoders"

lemmas dec_defs = dec_string_def dec_bool_def dec_raw_def dec_slice_def dec_struct_def field_def
  find_field_def

lemma dec_string_simps [dec_simps]:
  "dec_string old (JStr s) = Some s" "dec_string old JNull = Some old"
  "dec_string old (JNum n) = None" "dec_string old (JBool b) = None"
  "dec_string old (JArr vs) = None" "dec_string old (JObj ms) = None"
  by (simp_all add: dec_string_def)

lemma find_field_exact [dec_simps]: "find_field ((n, f) # fs) n = Some f"
  by (simp add: find_field_def)

lemma dec_elems_length: "dec_elems z f vs = Some xs \<Longrightarrow> length xs = length vs"
  by (induction vs arbitrary: xs) (auto split: option.splits)

lemma dec_elems_map:
  assumes "\<And>x. x \<in> set xs \<Longrightarrow> f z (enc x) = Some (dec x)"
  shows "dec_elems z f (map enc xs) = Some (map dec xs)"
  using assms by (induction xs) simp_all

lemma fold_name_plain:
  assumes "\<forall>c \<in> set s. byte c < 128" shows "fold_name s = map upper_ascii s"
  using assms by (induction s) (auto simp: byte_def)

text \<open>A text no reader accepts leaves every variable unread.\<close>

lemma unmarshal_None: "json_parse s = None \<Longrightarrow> unmarshal f z s = None"
  by (simp add: unmarshal_def)

lemma unmarshal_print:
  "good_numbers v \<Longrightarrow> json_depth v \<le> max_nesting \<Longrightarrow> unmarshal f z (print_json v) = f z (json_clean v)"
  by (simp add: unmarshal_def parse_print)

text \<open>What \<open>Decoder.Decode\<close> sees when the input goes on after the value.\<close>

lemma decode_body_print:
  "good_numbers v \<Longrightarrow> json_depth v \<le> max_nesting \<Longrightarrow> ends_number r \<Longrightarrow>
     decode_body f z (print_json v @ r) = f z (json_clean v)"
  using parse_print_all(1)[of v max_nesting r]
  by (simp add: decode_body_def json_decode_def skip_ws_starts starts_print_json starts_value_append)

end
