(* ===== verification/GraderTasks.thy ===== *)
theory GraderTasks
  imports JsonStruct
begin

text \<open>
  \<open>services/relay/grader/tasks.go\<close>: the tasks file of the grader relay. The result of
  \<open>os.ReadFile\<close> is an argument.
\<close>

record task =
  ID :: string
  Type :: string
  Template :: string
  Asset :: string

definition zero_task :: task where
  "zero_task = \<lparr>ID = [], Type = [], Template = [], Asset = []\<rparr>"

definition task_fields :: "task fields" where
  "task_fields =
     [(''id'', field ID ID_update dec_string),
      (''type'', field Type Type_update dec_string),
      (''template'', field Template Template_update dec_string),
      (''asset'', field Asset Asset_update dec_string)]"

definition dec_tasks :: "task list decoder" where
  "dec_tasks = dec_slice zero_task (dec_struct task_fields)"

datatype 'e tasks_error =
    ReadTasksFile 'e
  | ParseTasksFile
  | MissingID nat
  | MissingTemplate nat string
  | UnsupportedType nat string string

text \<open>The validation loop, from index \<open>i\<close> on.\<close>

fun check_tasks :: "nat \<Rightarrow> task list \<Rightarrow> 'e tasks_error option" where
  "check_tasks i [] = None"
| "check_tasks i (t # ts) =
     (if ID t = [] then Some (MissingID i)
      else if Template t = [] then Some (MissingTemplate i (ID t))
      else if Type t \<noteq> ''term'' then Some (UnsupportedType i (ID t) (Type t))
      else check_tasks (Suc i) ts)"

definition LoadTasks :: "'e + bytes \<Rightarrow> 'e tasks_error + task list" where
  "LoadTasks read =
     (case read of
        Inl e \<Rightarrow> Inl (ReadTasksFile e)
      | Inr data \<Rightarrow>
          (case unmarshal dec_tasks [] data of
             None \<Rightarrow> Inl ParseTasksFile
           | Some tasks \<Rightarrow>
               (case check_tasks 0 tasks of Some e \<Rightarrow> Inl e | None \<Rightarrow> Inr tasks)))"

definition valid_task :: "task \<Rightarrow> bool" where
  "valid_task t \<longleftrightarrow> ID t \<noteq> [] \<and> Template t \<noteq> [] \<and> Type t = ''term''"

text \<open>The error the loop reports for one task.\<close>

definition task_fault :: "nat \<Rightarrow> task \<Rightarrow> 'e tasks_error" where
  "task_fault i t =
     (if ID t = [] then MissingID i
      else if Template t = [] then MissingTemplate i (ID t)
      else UnsupportedType i (ID t) (Type t))"

lemma check_tasks_None: "check_tasks i ts = None \<longleftrightarrow> (\<forall>t \<in> set ts. valid_task t)"
  by (induction ts arbitrary: i) (auto simp: valid_task_def)

lemma check_tasks_Some:
  "check_tasks i ts = Some e \<longleftrightarrow>
     (\<exists>k < length ts. \<not> valid_task (ts ! k) \<and> (\<forall>m < k. valid_task (ts ! m)) \<and>
        e = task_fault (i + k) (ts ! k))" (is "_ \<longleftrightarrow> ?first i ts")
proof (induction ts arbitrary: i)
  case (Cons t ts)
  show ?case
  proof (cases "valid_task t")
    case True
    then have "check_tasks i (t # ts) = Some e \<longleftrightarrow> check_tasks (Suc i) ts = Some e" by (simp add: valid_task_def)
    moreover have "?first (Suc i) ts \<longleftrightarrow> ?first i (t # ts)"
    proof
      assume "?first (Suc i) ts"
      then obtain k where "k < length ts" "\<not> valid_task (ts ! k)" "\<forall>m < k. valid_task (ts ! m)"
        "e = task_fault (Suc i + k) (ts ! k)" by blast
      then show "?first i (t # ts)"
        using True by (intro exI[of _ "Suc k"]) (auto simp: less_Suc_eq_0_disj)
    next
      assume "?first i (t # ts)"
      then obtain k where k: "k < length (t # ts)" "\<not> valid_task ((t # ts) ! k)"
        "\<forall>m < k. valid_task ((t # ts) ! m)" "e = task_fault (i + k) ((t # ts) ! k)" by blast
      with True obtain j where "k = Suc j" by (cases k) auto
      with k show "?first (Suc i) ts" by (intro exI[of _ j]) auto
    qed
    ultimately show ?thesis using Cons.IH[of "Suc i"] by (simp only:)
  next
    case False
    then have "check_tasks i (t # ts) = Some e \<longleftrightarrow> e = task_fault i t"
      by (auto simp: valid_task_def task_fault_def)
    moreover have "?first i (t # ts) \<longleftrightarrow> e = task_fault i t"
    proof
      assume "?first i (t # ts)"
      then obtain k where k: "\<forall>m < k. valid_task ((t # ts) ! m)" "e = task_fault (i + k) ((t # ts) ! k)"
        by blast
      with False have "k = 0" by (cases k) auto
      with k show "e = task_fault i t" by simp
    qed (use False in \<open>auto intro: exI[of _ 0]\<close>)
    ultimately show ?thesis by auto
  qed
qed simp

text \<open>
  \<open>LoadTasks\<close> returns exactly the decoded tasks, and it returns them only when every one has
  an id, a template and the type \<open>term\<close>; otherwise the error names the first task that lacks
  one of these and which one it lacks, in the order id, template, type.
\<close>
theorem LoadTasks_spec:
  fixes read :: "'e + bytes"
  shows "LoadTasks read =
     (case read of Inl e \<Rightarrow> Inl (ReadTasksFile e)
      | Inr data \<Rightarrow>
          (case unmarshal dec_tasks [] data of None \<Rightarrow> Inl ParseTasksFile
           | Some ts \<Rightarrow>
               (case find (\<lambda>i. \<not> valid_task (ts ! i)) [0..<length ts] of
                  None \<Rightarrow> Inr ts
                | Some i \<Rightarrow> Inl (task_fault i (ts ! i)))))"
proof -
  have "(check_tasks 0 ts :: 'e tasks_error option) = map_option (\<lambda>i. task_fault i (ts ! i))
      (find (\<lambda>i. \<not> valid_task (ts ! i)) [0..<length ts])" for ts :: "task list"
  proof (cases "find (\<lambda>i. \<not> valid_task (ts ! i)) [0..<length ts]")
    case None
    then have "\<forall>t \<in> set ts. valid_task t" by (auto simp: find_None_iff in_set_conv_nth)
    with None show ?thesis using check_tasks_None[of 0 ts, where ?'a = 'e] by simp
  next
    case (Some i)
    then have "i < length ts" "\<not> valid_task (ts ! i)" "\<forall>m < i. valid_task (ts ! m)"
      by (auto simp: find_Some_iff)
    with Some show ?thesis using check_tasks_Some[of 0 ts "task_fault i (ts ! i) :: 'e tasks_error"] by auto
  qed
  then show ?thesis by (simp add: LoadTasks_def split: sum.splits option.splits)
qed

end
