(* ===== verification/GoStrings.thy ===== *)
theory GoStrings
  imports Prelude
begin

text \<open>
  The functions of Go's package \<open>strings\<close> that the services call, on byte strings:
  \<open>HasPrefix\<close>, \<open>TrimPrefix\<close>, \<open>Trim\<close> and \<open>TrimRight\<close> with a one-character cutset,
  \<open>TrimSpace\<close>, \<open>Split\<close>, \<open>SplitN\<close>, \<open>Cut\<close>, \<open>Join\<close>. All separators in the code are single
  bytes, so splitting is byte-wise.
\<close>

definition has_prefix :: "string \<Rightarrow> string \<Rightarrow> bool" where
  "has_prefix s p \<longleftrightarrow> take (length p) s = p"

definition trim_prefix :: "string \<Rightarrow> string \<Rightarrow> string" where
  "trim_prefix s p = (if has_prefix s p then drop (length p) s else s)"

definition trim_left_char :: "char \<Rightarrow> string \<Rightarrow> string" where
  "trim_left_char c s = dropWhile (\<lambda>x. x = c) s"

definition trim_right_char :: "char \<Rightarrow> string \<Rightarrow> string" where
  "trim_right_char c s = rev (dropWhile (\<lambda>x. x = c) (rev s))"

definition trim_char :: "char \<Rightarrow> string \<Rightarrow> string" where
  "trim_char c s = trim_right_char c (trim_left_char c s)"

lemma has_prefix_append [simp, go_strings]: "has_prefix (p @ s) p"
  by (simp add: has_prefix_def)

lemma has_prefix_iff: "has_prefix s p \<longleftrightarrow> (\<exists>r. s = p @ r)"
  by (auto simp: has_prefix_def) (metis append_take_drop_id)

lemma trim_prefix_append [simp, go_strings]: "trim_prefix (p @ s) p = s"
  by (simp add: trim_prefix_def)

lemma trim_prefix_no: "\<not> has_prefix s p \<Longrightarrow> trim_prefix s p = s"
  by (simp add: trim_prefix_def)

section \<open>Cutting and splitting at a byte\<close>

text \<open>\<open>strings.Cut\<close>: \<open>None\<close> when the separator does not occur.\<close>

fun cut :: "char \<Rightarrow> string \<Rightarrow> (string \<times> string) option" where
  "cut d [] = None"
| "cut d (c # cs) =
     (if c = d then Some ([], cs) else map_option (\<lambda>(a, b). (c # a, b)) (cut d cs))"

fun split_on :: "char \<Rightarrow> string \<Rightarrow> string list" where
  "split_on d [] = [[]]"
| "split_on d (c # cs) =
     (if c = d then [] # split_on d cs
      else (case split_on d cs of [] \<Rightarrow> [[c]] | x # xs \<Rightarrow> (c # x) # xs))"

text \<open>\<open>strings.SplitN(s, d, n)\<close>: at most \<open>n\<close> parts, the last one unsplit.\<close>

fun split_n :: "nat \<Rightarrow> char \<Rightarrow> string \<Rightarrow> string list" where
  "split_n 0 d s = []"
| "split_n (Suc 0) d s = [s]"
| "split_n (Suc (Suc n)) d s =
     (case cut d s of None \<Rightarrow> [s] | Some (a, b) \<Rightarrow> a # split_n (Suc n) d b)"

fun join :: "string \<Rightarrow> string list \<Rightarrow> string" where
  "join sep [] = []"
| "join sep [x] = x"
| "join sep (x # y # ys) = x @ sep @ join sep (y # ys)"

lemma cut_append [simp, go_strings]: "d \<notin> set a \<Longrightarrow> cut d (a @ d # b) = Some (a, b)"
  by (induction a) auto

lemma cut_None [simp]: "cut d s = None \<longleftrightarrow> d \<notin> set s"
  by (induction s) auto

lemma cut_absent [simp]: "d \<notin> set s \<Longrightarrow> cut d s = None"
  by simp

lemma cut_SomeD: "cut d s = Some (a, b) \<Longrightarrow> s = a @ d # b \<and> d \<notin> set a"
  by (induction s arbitrary: a) (auto split: if_splits)

lemma split_on_nonempty [simp]: "split_on d s \<noteq> []"
  by (induction s) (auto split: list.splits)

lemma split_on_no_sep: "x \<in> set (split_on d s) \<Longrightarrow> d \<notin> set x"
proof (induction s arbitrary: x)
  case (Cons c cs)
  then show ?case
    by (cases "split_on d cs") (auto split: if_splits)
qed simp

lemma split_on_single: "d \<notin> set s \<Longrightarrow> split_on d s = [s]"
  by (induction s) auto

lemma split_on_append: "d \<notin> set a \<Longrightarrow> split_on d (a @ d # b) = a # split_on d b"
  by (induction a) auto

lemma join_split_on: "join [d] (split_on d s) = s"
proof (induction s)
  case (Cons c cs)
  then show ?case
    by (cases "split_on d cs"; cases "tl (split_on d cs)") auto
qed simp

section \<open>Trimming Unicode white space\<close>

text \<open>
  \<open>strings.TrimSpace\<close> removes leading and trailing code points of the Unicode White_Space
  property. On bytes these are the six ASCII characters and the UTF-8 encodings of
  \<open>U+0085\<close>, \<open>U+00A0\<close>, \<open>U+1680\<close>, \<open>U+2000\<close>..\<open>U+200A\<close>, \<open>U+2028\<close>, \<open>U+2029\<close>, \<open>U+202F\<close>,
  \<open>U+205F\<close> and \<open>U+3000\<close>; an invalid byte is no white space, so removing whole
  encodings from either end is exactly what the library does.
\<close>

definition space_seqs :: "nat list list" where
  "space_seqs =
     [[9], [10], [11], [12], [13], [32], [194, 133], [194, 160], [225, 154, 128]] @
     map (\<lambda>n. [226, 128, n]) [128..<139] @
     [[226, 128, 168], [226, 128, 169], [226, 128, 175], [226, 129, 159], [227, 128, 128]]"

definition space_encodings :: "string list" where
  "space_encodings = map (map char_of) space_seqs"

definition strip_one :: "string list \<Rightarrow> string \<Rightarrow> string option" where
  "strip_one ps s = map_option (\<lambda>p. drop (length p) s) (find (has_prefix s) ps)"

lemma space_encodings_nonempty: "[] \<notin> set space_encodings"
  by (auto simp: space_encodings_def space_seqs_def)

function strip_all :: "string list \<Rightarrow> string \<Rightarrow> string" where
  "strip_all ps s =
     (case strip_one ps s of
        None \<Rightarrow> s
      | Some r \<Rightarrow> if length r < length s then strip_all ps r else s)"
  by pat_completeness auto
termination
  by (relation "measure (\<lambda>(ps, s). length s)") auto

declare strip_all.simps [simp del]

definition trim_left_space :: "string \<Rightarrow> string" where
  "trim_left_space s = strip_all space_encodings s"

definition trim_right_space :: "string \<Rightarrow> string" where
  "trim_right_space s = rev (strip_all (map rev space_encodings) (rev s))"

definition trim_space :: "string \<Rightarrow> string" where
  "trim_space s = trim_right_space (trim_left_space s)"

lemma strip_all_stable: "strip_one ps s = None \<Longrightarrow> strip_all ps s = s"
  by (subst strip_all.simps) simp

lemma trim_space_Nil [simp, go_strings]: "trim_space [] = []"
  by (simp add: trim_space_def trim_left_space_def trim_right_space_def strip_all.simps
      split: option.split)

text \<open>A non-empty string of printable ASCII without blanks is its own trimmed form.\<close>

definition graphic :: "char \<Rightarrow> bool" where
  "graphic c \<longleftrightarrow> (33::nat) \<le> of_char c \<and> of_char c < (127::nat)"

lemma strip_one_graphic:
  assumes "graphic c" and "\<forall>p \<in> set ps. p \<noteq> [] \<and> \<not> graphic (hd p)"
  shows "strip_one ps (c # s) = None"
proof -
  have "find (has_prefix (c # s)) ps = None"
    using assms by (fastforce simp: find_None_iff has_prefix_def neq_Nil_conv)
  then show ?thesis by (simp add: strip_one_def)
qed

lemma space_encodings_heads: "\<forall>p \<in> set space_encodings. p \<noteq> [] \<and> \<not> graphic (hd p)"
  by (simp add: space_encodings_def space_seqs_def graphic_def upt_rec)

lemma space_encodings_lasts:
  "\<forall>p \<in> set (map rev space_encodings). p \<noteq> [] \<and> \<not> graphic (hd p)"
  by (simp add: space_encodings_def space_seqs_def graphic_def upt_rec)

lemma trim_space_graphic [go_strings]:
  assumes "\<forall>c \<in> set s. graphic c"
  shows "trim_space s = s"
proof (cases s)
  case (Cons c cs)
  then have left: "trim_left_space s = s"
    using assms strip_one_graphic[OF _ space_encodings_heads]
    by (simp add: trim_left_space_def strip_all_stable)
  obtain d ds where "rev s = d # ds" using Cons by (cases "rev s") auto
  moreover then have "graphic d" using assms by (metis list.set_intros(1) set_rev)
  ultimately have "strip_all (map rev space_encodings) (rev s) = rev s"
    using strip_one_graphic[OF _ space_encodings_lasts] by (simp add: strip_all_stable)
  with left show ?thesis by (simp add: trim_space_def trim_right_space_def)
qed simp

end
