(* ===== verification/GraderLines.thy ===== *)
theory GraderLines
  imports GoStrings
begin

text \<open>
  \<open>relay/grader/lines.go\<close>: from the raw chunks of a terminal to the last ten lines of text.
  \<open>stripANSI\<close> is the removal of every match of the regular expression
  \<open>ESC [ [0-9;]* [a-zA-Z]\<close>, \<open>splitLines\<close> the byte loop of the source, \<open>asset_buffer\<close> the
  per-asset state and \<open>buf_ingest\<close> the method \<open>Ingest\<close>.

  The main result compares the incremental reassembly with a reference that sees the whole
  stream at once: how the stream is cut into chunks does not matter, provided that no escape
  sequence interrupts another one (\<open>uninterrupted\<close>); a counterexample shows that the proviso
  is needed.
\<close>

section \<open>Stripping escape sequences\<close>

definition ESC :: char where
  "ESC = CHR 0x1B"

definition newline :: char where
  "newline = CHR 0x0A"

definition is_param :: "char \<Rightarrow> bool" where
  "is_param c \<longleftrightarrow> c \<in> set ''0123456789;''"

definition is_letter :: "char \<Rightarrow> bool" where
  "is_letter c \<longleftrightarrow> c \<in> set ''abcdefghijklmnopqrstuvwxyzABCDEFGHIJKLMNOPQRSTUVWXYZ''"

text \<open>What follows a match of \<open>ansiEscape\<close> at the start of the string, if there is one.\<close>

fun csi_rest :: "string \<Rightarrow> string option" where
  "csi_rest (e # b # cs) =
     (if e = ESC \<and> b = CHR ''[''
      then (case dropWhile is_param cs of
              c # rest \<Rightarrow> if is_letter c then Some rest else None
            | [] \<Rightarrow> None)
      else None)"
| "csi_rest _ = None"

lemma csi_rest_shape:
  "csi_rest s = Some r \<longleftrightarrow>
     (\<exists>ps c. s = ESC # CHR ''['' # ps @ c # r \<and> (\<forall>p \<in> set ps. is_param p) \<and> is_letter c)"
  (is "?L \<longleftrightarrow> ?R")
proof
  assume L: ?L
  then obtain cs c where s: "s = ESC # CHR ''['' # cs" and d: "dropWhile is_param cs = c # r"
    and c: "is_letter c"
    by (cases s rule: csi_rest.cases) (auto split: if_splits list.splits)
  from d have "cs = takeWhile is_param cs @ c # r" by (metis takeWhile_dropWhile_id)
  with s c show ?R by (metis set_takeWhileD)
next
  assume ?R
  then obtain ps c where s: "s = ESC # CHR ''['' # ps @ c # r"
    and ps: "\<forall>p \<in> set ps. is_param p" and c: "is_letter c" by blast
  have "\<not> is_param c" using c by (auto simp: is_letter_def is_param_def)
  then have "dropWhile is_param (ps @ c # r) = c # r" using ps by (simp add: dropWhile_append)
  with s c show ?L by simp
qed

lemma csi_rest_shorter: "csi_rest s = Some r \<Longrightarrow> length r < length s"
  by (auto simp: csi_rest_shape)

function stripANSI :: "string \<Rightarrow> string" where
  "stripANSI [] = []"
| "stripANSI (c # cs) =
     (case csi_rest (c # cs) of Some r \<Rightarrow> stripANSI r | None \<Rightarrow> c # stripANSI cs)"
  by pat_completeness auto
termination
  by (relation "measure length") (auto dest: csi_rest_shorter)

section \<open>Splitting into lines\<close>

text \<open>
  The loop over byte positions: the bytes since \<open>start\<close> are the accumulator. The function
  returns no segment at all for the empty string, and otherwise always a last segment.
\<close>

fun split_loop :: "string \<Rightarrow> string \<Rightarrow> string list" where
  "split_loop cur [] = [cur]"
| "split_loop cur (c # cs) =
     (if c = newline then cur # split_loop [] cs else split_loop (cur @ [c]) cs)"

definition splitLines :: "string \<Rightarrow> string list" where
  "splitLines s = (if s = [] then [] else split_loop [] s)"

definition joinLines :: "string list \<Rightarrow> string" where
  "joinLines ls = join [newline] ls"

section \<open>The line buffer\<close>

definition ringCapacity :: nat where
  "ringCapacity = 10"

record asset_buffer =
  buf_partial :: bytes
  buf_lines :: "string list"

definition empty_buffer :: asset_buffer where
  "empty_buffer = \<lparr>buf_partial = [], buf_lines = []\<rparr>"

definition buf_ingest :: "bytes \<Rightarrow> asset_buffer \<Rightarrow> bool \<times> asset_buffer" where
  "buf_ingest chunk b =
     (let combined = stripANSI (buf_partial b @ chunk);
          b1 = b\<lparr>buf_partial := []\<rparr>;
          segments = splitLines combined
      in if segments = [] then (False, b1)
         else let complete = butlast segments;
                  b2 = (if last segments \<noteq> [] then b1\<lparr>buf_partial := last segments\<rparr> else b1)
              in if complete = [] then (False, b2)
                 else let ls = buf_lines b2 @ complete
                      in (True, b2\<lparr>buf_lines :=
                            (if ringCapacity < length ls then drop (length ls - ringCapacity) ls
                             else ls)\<rparr>))"

definition Joined :: "asset_buffer \<Rightarrow> string" where
  "Joined b = joinLines (buf_lines b)"

fun ingest_all :: "bytes list \<Rightarrow> asset_buffer \<Rightarrow> asset_buffer" where
  "ingest_all [] b = b"
| "ingest_all (c # cs) b = ingest_all cs (snd (buf_ingest c b))"

lemma buf_ingest_cases:
  "buf_ingest chunk b =
     (let segs = splitLines (stripANSI (buf_partial b @ chunk)) in
      (butlast segs \<noteq> [],
       b\<lparr>buf_partial := (if segs = [] then [] else last segs),
         buf_lines := (if butlast segs = [] then buf_lines b
                       else take_last ringCapacity (buf_lines b @ butlast segs))\<rparr>))"
  by (auto simp: buf_ingest_def Let_def take_last_def)

section \<open>Lines of a string\<close>

text \<open>The complete lines of a string and what is left after the last newline.\<close>

definition full_lines :: "string \<Rightarrow> string list" where
  "full_lines s = butlast (split_loop [] s)"

definition last_part :: "string \<Rightarrow> string" where
  "last_part s = last (split_loop [] s)"

lemma split_loop_nonempty [simp]: "split_loop cur s \<noteq> []"
  by (induction cur s rule: split_loop.induct) auto

lemma split_loop_acc:
  "split_loop cur s = (cur @ hd (split_loop [] s)) # tl (split_loop [] s)"
proof (induction s arbitrary: cur)
  case (Cons c cs)
  show ?case
  proof (cases "c = newline")
    case False
    then show ?thesis using Cons[of "cur @ [c]"] Cons[of "[c]"] by simp
  qed simp
qed simp

lemma split_loop_append:
  "split_loop cur (a @ b) = butlast (split_loop cur a) @ split_loop (last (split_loop cur a)) b"
  by (induction cur a rule: split_loop.induct) auto

lemma split_loop_no_newline: "newline \<notin> set s \<Longrightarrow> split_loop cur s = [cur @ s]"
  by (induction cur s rule: split_loop.induct) auto

lemma split_loop_segments: "newline \<notin> set cur \<Longrightarrow> x \<in> set (split_loop cur s) \<Longrightarrow> newline \<notin> set x"
  by (induction cur s rule: split_loop.induct) (auto split: if_splits)

lemma join_split_loop: "join [newline] (split_loop cur s) = cur @ s"
proof (induction cur s rule: split_loop.induct)
  case (2 cur c cs)
  then show ?case
    by (cases "split_loop [] cs") (auto simp: split_loop_acc[of "cur @ [c]"])
qed simp

lemma last_part_no_newline: "newline \<notin> set (last_part s)"
  unfolding last_part_def
  by (rule split_loop_segments[of "[]" _ s]) (simp_all add: last_in_set)

lemma splitLines_parts:
  "butlast (splitLines s) = full_lines s"
  "(if splitLines s = [] then [] else last (splitLines s)) = last_part s"
  by (simp_all add: splitLines_def full_lines_def last_part_def)

lemma full_lines_append:
  "full_lines (a @ b) = full_lines a @ full_lines (last_part a @ b)"
proof -
  have "split_loop [] (last_part a @ b) = split_loop (last_part a) b"
    using split_loop_no_newline[OF last_part_no_newline, of "[]" a]
    by (simp add: split_loop_append)
  then show ?thesis
    by (simp add: full_lines_def split_loop_append[of "[]" a b] last_part_def butlast_append)
qed

lemma last_part_append: "last_part (a @ b) = last_part (last_part a @ b)"
proof -
  have "split_loop [] (last_part a @ b) = split_loop (last_part a) b"
    using split_loop_no_newline[OF last_part_no_newline, of "[]" a]
    by (simp add: split_loop_append)
  then show ?thesis
    by (simp add: last_part_def split_loop_append[of "[]" a b])
qed

lemma last_part_suffix: "\<exists>p. s = p @ last_part s \<and> (p = [] \<or> last p = newline)"
proof (induction s rule: rev_induct)
  case Nil
  then show ?case by (simp add: last_part_def)
next
  case (snoc c s)
  then obtain p where p: "s = p @ last_part s" "p = [] \<or> last p = newline" by blast
  have lp: "last_part (s @ [c]) = (if c = newline then [] else last_part s @ [c])"
    by (simp add: last_part_def split_loop_append)
  show ?case
  proof (cases "c = newline")
    case True
    then show ?thesis using lp by (intro exI[of _ "s @ [c]"]) simp
  next
    case False
    then show ?thesis using lp p by (intro exI[of _ p]) simp
  qed
qed

text \<open>In these terms one chunk is processed as follows.\<close>

lemma buf_ingest_lines:
  "buf_ingest chunk b =
     (let s = stripANSI (buf_partial b @ chunk) in
      (full_lines s \<noteq> [],
       b\<lparr>buf_partial := last_part s,
         buf_lines := (if full_lines s = [] then buf_lines b
                       else take_last ringCapacity (buf_lines b @ full_lines s))\<rparr>))"
  unfolding buf_ingest_cases Let_def splitLines_parts by simp

section \<open>How a stream may be cut\<close>

lemma csi_rest_ESC: "csi_rest (c # cs) = Some r \<Longrightarrow> c = ESC"
  by (auto simp: csi_rest_shape)

lemma csi_rest_append: "csi_rest s = Some r \<Longrightarrow> csi_rest (s @ b) = Some (r @ b)"
  by (auto simp: csi_rest_shape)

lemma csi_rest_plain [simp]: "c \<noteq> ESC \<Longrightarrow> csi_rest (c # cs) = None" "ESC \<noteq> c \<Longrightarrow> csi_rest (c # cs) = None"
  by (auto dest: csi_rest_ESC split: option.splits intro: ccontr)

lemma strip_no_ESC_append: "ESC \<notin> set p \<Longrightarrow> stripANSI (p @ s) = p @ stripANSI s"
  by (induction p) auto

lemma strip_no_ESC: "ESC \<notin> set p \<Longrightarrow> stripANSI p = p"
  using strip_no_ESC_append[of p "[]"] by simp

lemma length_stripANSI: "length (stripANSI s) \<le> length s"
proof (induction s rule: stripANSI.induct)
  case (2 c cs)
  show ?case
  proof (cases "csi_rest (c # cs)")
    case None
    with 2 show ?thesis by simp
  next
    case (Some r)
    with 2(2)[OF Some] csi_rest_shorter[OF Some] show ?thesis by simp
  qed
qed simp

lemma not_ESC_param: "is_param c \<Longrightarrow> c \<noteq> ESC" and not_newline_param: "is_param c \<Longrightarrow> c \<noteq> newline"
  by (auto simp: is_param_def ESC_def newline_def)

lemma not_newline_letter: "is_letter c \<Longrightarrow> c \<noteq> newline"
  by (auto simp: is_letter_def newline_def)

lemma not_newline_ESC [simp]: "newline \<noteq> ESC" "ESC \<noteq> newline"
  by (auto simp: ESC_def newline_def)

text \<open>
  A newline is never part of a match, so stripping works line by line: a stream may be cut
  after a newline with no effect.
\<close>

lemma csi_rest_past_newline:
  assumes "csi_rest (a @ newline # b) = Some r"
  shows "\<exists>a'. csi_rest (a @ [newline]) = Some (a' @ [newline]) \<and> r = a' @ newline # b"
proof -
  obtain ps c where s: "a @ newline # b = (ESC # CHR ''['' # ps @ [c]) @ r"
    and ps: "\<forall>p \<in> set ps. is_param p" and c: "is_letter c"
    using assms by (auto simp: csi_rest_shape)
  let ?m = "ESC # CHR ''['' # ps @ [c]"
  have nl: "newline \<notin> set ?m"
    using ps c not_newline_param not_newline_letter by (auto simp: newline_def ESC_def)
  obtain us where us: "(a = ?m @ us \<and> us @ newline # b = r) \<or> (a @ us = ?m \<and> newline # b = us @ r)"
    using s append_eq_append_conv2[THEN iffD1, of a "newline # b" ?m r] by blast
  have "a = ?m @ us \<and> us @ newline # b = r"
  proof (rule ccontr)
    assume no: "\<not> (a = ?m @ us \<and> us @ newline # b = r)"
    with us have "a @ us = ?m" and "newline # b = us @ r" by blast+
    moreover then have "us \<noteq> []" using no by (cases us) auto
    ultimately have "newline \<in> set ?m" by (metis UnCI hd_append2 hd_in_set list.sel(1) set_append)
    with nl show False ..
  qed
  moreover have "csi_rest (?m @ us @ [newline]) = Some (us @ [newline])"
    unfolding csi_rest_shape using ps c by (intro exI[of _ ps] exI[of _ c]) simp
  ultimately show ?thesis by (intro exI[of _ us]) simp
qed

lemma strip_newline_append:
  "stripANSI ((a @ [newline]) @ b) = stripANSI (a @ [newline]) @ stripANSI b"
proof (induction a rule: length_induct)
  case (1 a)
  show ?case
  proof (cases a)
    case Nil
    then show ?thesis using strip_no_ESC_append[of "[newline]" b] strip_no_ESC[of "[newline]"] by simp
  next
    case (Cons c cs)
    show ?thesis
    proof (cases "csi_rest (a @ newline # b)")
      case None
      then have "csi_rest (a @ [newline]) = None"
        using csi_rest_append[of "a @ [newline]" _ b] by (cases "csi_rest (a @ [newline])") auto
      with None Cons 1 show ?thesis by simp
    next
      case (Some r)
      then obtain a' where a': "csi_rest (a @ [newline]) = Some (a' @ [newline])"
        and r: "r = a' @ newline # b" using csi_rest_past_newline by blast
      then have "length a' < length a" using csi_rest_shorter[OF a'] by simp
      then show ?thesis using Some a' r Cons 1 by simp
    qed
  qed
qed

lemma strip_sync:
  assumes "a = [] \<or> last a = newline"
  shows "stripANSI (a @ b) = stripANSI a @ stripANSI b"
proof (cases a rule: rev_cases)
  case (snoc a' c)
  with assms have "a = a' @ [newline]" by simp
  then show ?thesis by (simp only: strip_newline_append)
qed simp

text \<open>
  The prefix of an escape sequence: after \<open>ESC\<close>, an optional bracket and its parameters.
  A stream is uninterrupted when no sequence that is left unfinished is followed at once by
  another \<open>ESC\<close>.
\<close>

fun after_csi_prefix :: "string \<Rightarrow> string" where
  "after_csi_prefix [] = []"
| "after_csi_prefix (b # bs) = (if b = CHR ''['' then dropWhile is_param bs else b # bs)"

definition leads_to_ESC :: "string \<Rightarrow> bool" where
  "leads_to_ESC cs \<longleftrightarrow> take 1 (after_csi_prefix cs) = [ESC]"

function uninterrupted :: "string \<Rightarrow> bool" where
  "uninterrupted [] = True"
| "uninterrupted (c # cs) =
     (case csi_rest (c # cs) of
        Some r \<Rightarrow> uninterrupted r
      | None \<Rightarrow> (if c = ESC then \<not> leads_to_ESC cs else True) \<and> uninterrupted cs)"
  by pat_completeness auto
termination
  by (relation "measure length") (auto dest: csi_rest_shorter)

lemma uninterrupted_no_ESC: "ESC \<notin> set p \<Longrightarrow> uninterrupted p"
  by (induction p) auto

text \<open>An \<open>ESC\<close> that starts no match: its prefix runs to the end, or a byte stops it.\<close>

lemma csi_open:
  assumes none: "csi_rest (ESC # cs) = None"
  obtains (pending) "after_csi_prefix cs = []" "ESC \<notin> set cs"
  | (stopped) mid x rest where "cs = mid @ x # rest" "ESC \<notin> set mid"
      "after_csi_prefix cs = x # rest" "\<And>t. csi_rest (ESC # mid @ x # t) = None"
      "\<And>t. after_csi_prefix (mid @ x # t) = x # t"
proof (cases cs)
  case Nil
  then show ?thesis using pending by simp
next
  case (Cons b bs)
  show ?thesis
  proof (cases "b = CHR ''[''")
    case False
    then show ?thesis using Cons stopped[of "[]" b bs]
      by (auto simp: csi_rest_shape not_None_eq[symmetric] simp del: not_None_eq)
  next
    case True
    let ?ps = "takeWhile is_param bs"
    have ps: "\<forall>p \<in> set ?ps. is_param p" by (auto dest: set_takeWhileD)
    then have no: "ESC \<notin> set (b # ?ps)" using True not_ESC_param by (auto simp: ESC_def)
    show ?thesis
    proof (cases "dropWhile is_param bs")
      case Nil
      then have "bs = ?ps" by (metis append_Nil2 takeWhile_dropWhile_id)
      then show ?thesis using pending True Cons Nil no by simp
    next
      case (Cons x rest)
      have bs: "bs = ?ps @ x # rest" using Cons by (metis takeWhile_dropWhile_id)
      have x: "\<not> is_param x" using Cons by (metis dropWhile_eq_Cons_conv)
      then have d: "dropWhile is_param (?ps @ x # t) = x # t" for t
        using ps by (simp add: dropWhile_append)
      have "\<not> is_letter x" using none True \<open>cs = b # bs\<close> Cons by (auto split: if_splits)
      then have "csi_rest (ESC # (b # ?ps) @ x # t) = None" for t using True d by simp
      then show ?thesis
        using stopped[of "b # ?ps" x rest] True \<open>cs = b # bs\<close> bs no d Cons by simp
    qed
  qed
qed

lemma uninterrupted_prefix: "uninterrupted (a @ b) \<Longrightarrow> uninterrupted a"
proof (induction a arbitrary: b rule: stripANSI.induct)
  case (2 c cs)
  show ?case
  proof (cases "csi_rest (c # cs)")
    case (Some r)
    then have "uninterrupted (r @ b)"
      using "2.prems" csi_rest_append[OF Some, of b] by simp
    then show ?thesis using 2(2)[OF Some] Some by simp
  next
    case None
    show ?thesis
    proof (cases "c = ESC")
      case False
      then show ?thesis using 2(1)[OF None] "2.prems" by simp
    next
      case True
      show ?thesis
      proof (cases rule: csi_open[OF None[unfolded True]])
        case pending: 1
        then show ?thesis using None True
          by (simp add: leads_to_ESC_def uninterrupted_no_ESC)
      next
        case (2 mid x rest)
        then have "csi_rest (c # cs @ b) = None" using True by simp
        moreover have "leads_to_ESC (cs @ b) = leads_to_ESC cs" using 2 by (simp add: leads_to_ESC_def)
        ultimately show ?thesis using \<open>uninterrupted ((c # cs) @ b)\<close> True None
          "local.2.IH"(1)[OF None, of b] by simp
      qed
    qed
  qed
qed simp

text \<open>Stripping what has been seen, and then the rest, is stripping the whole.\<close>

lemma strip_fusion: "uninterrupted (a @ b) \<Longrightarrow> stripANSI (stripANSI a @ b) = stripANSI (a @ b)"
proof (induction a rule: stripANSI.induct)
  case (2 c cs)
  note IH_match = "2.IH"(2) and IH_skip = "2.IH"(1) and prems = "2.prems"
  show ?case
  proof (cases "csi_rest (c # cs)")
    case (Some r)
    then show ?thesis
      using prems csi_rest_append[OF Some, of b] IH_match[OF Some] by simp
  next
    case None
    show ?thesis
    proof (cases "c = ESC")
      case False
      then show ?thesis using IH_skip[OF None] prems by simp
    next
      case True
      show ?thesis
      proof (cases rule: csi_open[OF None[unfolded True]])
        case pending: 1
        then show ?thesis using None True by (simp add: strip_no_ESC)
      next
        case (2 mid x rest)
        have whole: "csi_rest (c # cs @ b) = None" using 2 True by simp
        then have "\<not> leads_to_ESC (cs @ b)" and un: "uninterrupted (cs @ b)"
          using prems True by auto
        then have "x \<noteq> ESC" using 2 by (simp add: leads_to_ESC_def)
        then have "stripANSI cs = mid @ x # stripANSI rest"
          using strip_no_ESC_append[of "mid @ [x]" rest] 2 by simp
        then have "csi_rest (c # stripANSI cs @ b) = None" using 2 True by simp
        then show ?thesis using IH_skip[OF None un] whole None by simp
      qed
    qed
  qed
qed simp

section \<open>Reassembly\<close>

text \<open>What the buffer should hold once the stream \<open>s\<close> has arrived.\<close>

definition buffer_of :: "string \<Rightarrow> asset_buffer" where
  "buffer_of s = \<lparr>buf_partial = last_part (stripANSI s),
                  buf_lines = take_last ringCapacity (full_lines (stripANSI s))\<rparr>"

lemma strip_seen:
  assumes "uninterrupted (s @ c)"
  obtains L where "stripANSI s = L @ last_part (stripANSI s)" "L = [] \<or> last L = newline"
    "stripANSI (s @ c) = L @ stripANSI (last_part (stripANSI s) @ c)"
proof -
  let ?S = "stripANSI s" and ?P = "last_part (stripANSI s)"
  obtain L where L: "?S = L @ ?P" and nl: "L = [] \<or> last L = newline"
    using last_part_suffix by blast
  have "stripANSI ?S = ?S"
    using strip_fusion[of s "[]"] uninterrupted_prefix[OF assms] by simp
  then have "stripANSI L @ stripANSI ?P = L @ ?P" using L strip_sync[OF nl] by metis
  then have keep: "stripANSI L = L"
    using length_stripANSI[of L] length_stripANSI[of ?P]
    by (metis (no_types, lifting) add_le_cancel_left append_eq_append_conv le_antisym length_append
        add_le_cancel_right nat_le_linear)
  have "stripANSI (s @ c) = stripANSI (L @ ?P @ c)"
    using strip_fusion[OF assms] L by (metis append.assoc)
  then have "stripANSI (s @ c) = L @ stripANSI (?P @ c)" using strip_sync[OF nl] keep by simp
  with L nl show ?thesis by (rule that)
qed

lemma full_lines_no_newline: "newline \<notin> set s \<Longrightarrow> full_lines s = []"
  by (simp add: full_lines_def split_loop_no_newline)

lemma last_part_ended: "L = [] \<or> last L = newline \<Longrightarrow> last_part L = []"
  by (cases L rule: rev_cases) (auto simp: last_part_def split_loop_append)

lemma buf_ingest_step:
  assumes "uninterrupted (s @ c)"
  shows "snd (buf_ingest c (buffer_of s)) = buffer_of (s @ c)"
proof -
  let ?P = "last_part (stripANSI s)"
  obtain L where L: "stripANSI s = L @ ?P" and nl: "L = [] \<or> last L = newline"
    and whole: "stripANSI (s @ c) = L @ stripANSI (?P @ c)"
    using strip_seen[OF assms] .
  have before: "full_lines (stripANSI s) = full_lines L"
    by (subst L) (simp add: full_lines_append[of L] last_part_ended[OF nl]
        full_lines_no_newline last_part_no_newline)
  have "full_lines (stripANSI (s @ c)) = full_lines (stripANSI s) @ full_lines (stripANSI (?P @ c))"
    by (simp add: whole full_lines_append[of L] last_part_ended[OF nl] before)
  moreover have "last_part (stripANSI (s @ c)) = last_part (stripANSI (?P @ c))"
    by (simp add: whole last_part_append[of L] last_part_ended[OF nl])
  ultimately show ?thesis
    by (auto simp: buf_ingest_lines buffer_of_def Let_def take_last_take_last_append)
qed

lemma ingest_all_from:
  "uninterrupted (s @ concat cs) \<Longrightarrow> ingest_all cs (buffer_of s) = buffer_of (s @ concat cs)"
proof (induction cs arbitrary: s)
  case (Cons c cs)
  then have "uninterrupted (s @ c)"
    using uninterrupted_prefix[of "s @ c" "concat cs"] by simp
  then show ?case using Cons.IH[of "s @ c"] Cons.prems by (simp add: buf_ingest_step)
qed simp

lemma buffer_of_Nil: "buffer_of [] = empty_buffer"
  by (simp add: buffer_of_def empty_buffer_def last_part_def full_lines_def)

section \<open>The buffer's invariant\<close>

definition buffer_wf :: "asset_buffer \<Rightarrow> bool" where
  "buffer_wf b \<longleftrightarrow> length (buf_lines b) \<le> ringCapacity \<and> newline \<notin> set (buf_partial b) \<and>
     (\<forall>l \<in> set (buf_lines b). newline \<notin> set l)"

lemma empty_buffer_wf [inv_intros]: "buffer_wf empty_buffer"
  by (simp add: buffer_wf_def empty_buffer_def)

lemma full_lines_segments: "l \<in> set (full_lines s) \<Longrightarrow> newline \<notin> set l"
  unfolding full_lines_def by (rule split_loop_segments[of "[]" _ s]) (auto dest: in_set_butlastD)

lemma buf_ingest_wf [inv_intros]:
  assumes "buffer_wf b" shows "buffer_wf (snd (buf_ingest c b))"
proof -
  have "newline \<notin> set l" if "l \<in> set (take_last ringCapacity (buf_lines b @ full_lines s))" for l s
  proof -
    have "l \<in> set (buf_lines b @ full_lines s)" using that set_take_last by (rule subsetD[rotated])
    then show ?thesis using assms full_lines_segments by (auto simp: buffer_wf_def)
  qed
  then show ?thesis
    using assms last_part_no_newline by (simp add: buffer_wf_def buf_ingest_lines Let_def)
qed

lemma split_join_lines:
  assumes "ls \<noteq> []" "\<forall>l \<in> set ls. newline \<notin> set l"
  shows "split_loop [] (join [newline] ls) = ls"
  using assms
proof (induction "[newline]" ls rule: join.induct)
  case (2 x)
  then show ?case by (simp add: split_loop_no_newline)
next
  case (3 x y ys)
  have "split_loop [] (x @ newline # join [newline] (y # ys))
      = x # split_loop [] (join [newline] (y # ys))"
    using 3 by (simp add: split_loop_append split_loop_no_newline)
  with 3 show ?case by simp
qed simp

section \<open>Properties\<close>

text \<open>
  C9: however the terminal stream is cut into chunks, the buffer ends with the last ten complete
  lines of the stripped stream and its unfinished last line, provided that no unfinished escape
  sequence of the stream is followed at once by another.
\<close>

theorem buffer_independent_of_chunks:
  assumes "uninterrupted (concat chunks)"
  shows "ingest_all chunks empty_buffer = buffer_of (concat chunks)"
  using ingest_all_from[of "[]" chunks] assms by (simp add: buffer_of_Nil)

text \<open>
  Without that proviso the cut matters: two ways to cut one stream leave different lines in
  the buffer, because what an earlier chunk leaves over after stripping can form a new escape
  sequence with the bytes of the next chunk.
\<close>

theorem chunk_boundaries_matter:
  "\<exists>cs ds. concat cs = concat ds \<and>
     buf_lines (ingest_all cs empty_buffer) \<noteq> buf_lines (ingest_all ds empty_buffer)"
proof -
  let ?a = "[ESC, ESC, CHR ''['', CHR ''m'', CHR ''['', CHR ''1'']" and ?b = "''mx'' @ [newline]"
  have "buf_lines (ingest_all [?a, ?b] empty_buffer) = [''x'']"
    by (simp add: buf_ingest_lines empty_buffer_def Let_def ESC_def newline_def is_param_def
        is_letter_def last_part_def full_lines_def take_last_def ringCapacity_def)
  moreover have "buf_lines (ingest_all [?a @ ?b] empty_buffer) = [ESC # ''[1mx'']"
    by (simp add: buf_ingest_lines empty_buffer_def Let_def ESC_def newline_def is_param_def
        is_letter_def last_part_def full_lines_def take_last_def ringCapacity_def)
  ultimately show ?thesis by (intro exI[of _ "[?a, ?b]"] exI[of _ "[?a @ ?b]"]) simp
qed

text \<open>
  the invariant of the buffer: never more than ten lines, no newline inside a line or in the
  unfinished part; \<open>Ingest\<close> keeps it for every chunk and reports exactly the arrival of a
  complete line, and the text handed to the regular expressions splits back into the buffered
  lines.
\<close>

theorem buf_ingest_invariant:
  assumes "buffer_wf b" and "buf_ingest chunk b = (added, b')"
  shows "buffer_wf b' \<and>
    (added \<longleftrightarrow> newline \<in> set (stripANSI (buf_partial b @ chunk))) \<and>
    (Joined b' \<noteq> [] \<longrightarrow> splitLines (Joined b') = buf_lines b')"
proof -
  let ?s = "stripANSI (buf_partial b @ chunk)"
  have wf: "buffer_wf b'" using buf_ingest_wf[OF assms(1), of chunk] assms(2) by simp
  have "full_lines ?s = [] \<longleftrightarrow> newline \<notin> set ?s"
  proof
    assume none: "full_lines ?s = []"
    have "split_loop [] ?s = [last_part ?s]"
      using none append_butlast_last_id[OF split_loop_nonempty, of "[]" ?s]
      by (simp add: full_lines_def last_part_def)
    then have "?s = last_part ?s" using join_split_loop[of "[]" ?s] by simp
    then show "newline \<notin> set ?s" using last_part_no_newline by metis
  qed (rule full_lines_no_newline)
  then have "added \<longleftrightarrow> newline \<in> set ?s"
    using assms(2) by (auto simp: buf_ingest_lines Let_def)
  moreover have "Joined b' \<noteq> [] \<longrightarrow> splitLines (Joined b') = buf_lines b'"
  proof
    assume j: "Joined b' \<noteq> []"
    then have "buf_lines b' \<noteq> []" by (auto simp: Joined_def joinLines_def)
    then show "splitLines (Joined b') = buf_lines b'"
      using split_join_lines[of "buf_lines b'"] wf j
      by (simp add: Joined_def joinLines_def splitLines_def buffer_wf_def)
  qed
  ultimately show ?thesis using wf by blast
qed

section \<open>Witnesses\<close>

theorem buffer_independent_of_chunks_witness:
  "uninterrupted (concat [''ls '' @ [ESC, CHR ''['', CHR ''3''], ''2mok'' @ [newline, CHR ''$'']])
   \<and> ingest_all [''ls '' @ [ESC, CHR ''['', CHR ''3''], ''2mok'' @ [newline, CHR ''$'']] empty_buffer
     = \<lparr>buf_partial = ''$'', buf_lines = [''ls ok'']\<rparr>"
proof -
  let ?cs = "[''ls '' @ [ESC, CHR ''['', CHR ''3''], ''2mok'' @ [newline, CHR ''$'']]"
  have un: "uninterrupted (concat ?cs)"
    by (simp add: ESC_def newline_def is_param_def is_letter_def)
  have "buffer_of (concat ?cs) = \<lparr>buf_partial = ''$'', buf_lines = [''ls ok'']\<rparr>"
    by (simp add: buffer_of_def ESC_def newline_def is_param_def is_letter_def last_part_def
        full_lines_def take_last_def ringCapacity_def)
  with un buffer_independent_of_chunks[OF un] show ?thesis by simp
qed

theorem buf_ingest_invariant_witness:
  "buffer_wf empty_buffer \<and> splitLines (Joined (snd (buf_ingest (''a'' @ [newline]) empty_buffer))) = [''a'']"
proof -
  have i: "buf_ingest (''a'' @ [newline]) empty_buffer
      = (True, \<lparr>buf_partial = [], buf_lines = [''a'']\<rparr>)"
    by (simp add: buf_ingest_lines empty_buffer_def Let_def newline_def ESC_def last_part_def
        full_lines_def take_last_def ringCapacity_def)
  show ?thesis
    using buf_ingest_invariant[OF empty_buffer_wf i] empty_buffer_wf i
    by (simp add: Joined_def joinLines_def)
qed

end
