(* ===== verification/GraderBackend.thy ===== *)
theory GraderBackend
  imports GraderTasks GraderLines "HOL-Library.AList" "HOL-Library.Char_ord" "HOL-Library.List_Lexorder"
begin

text \<open>
  \<open>services/relay/grader/backend.go\<close>: the grading backend. Regular expressions are those of
  package \<open>regexp\<close>: compiling a template and matching a text are the arguments \<open>compile\<close> and
  \<open>matches\<close>. Every operation runs under the backend's mutex, so it is one function here; the
  writes to the WebSocket connections go through the argument \<open>write\<close>. Of a map the code ranges
  over, \<open>assets\<close> and \<open>clients\<close>, the model keeps the entries in a list.
\<close>

record ('re, 'c) backend =
  Tasks :: "task list"
  regexes :: "string \<rightharpoonup> 're"
  assets :: "(string \<times> asset_buffer) list"
  grades :: "string \<rightharpoonup> bool"
  clients :: "'c list"

text \<open>The loop of \<open>init\<close>: a template that does not compile is skipped.\<close>

fun compile_tasks :: "(string \<Rightarrow> 're option) \<Rightarrow> task list \<Rightarrow> (string \<rightharpoonup> 're) \<Rightarrow> (string \<rightharpoonup> 're)" where
  "compile_tasks compile [] m = m"
| "compile_tasks compile (t # ts) m =
     (case compile (Template t) of
        None \<Rightarrow> compile_tasks compile ts m
      | Some re \<Rightarrow> compile_tasks compile ts (m(ID t \<mapsto> re)))"

definition NewBackend :: "(string \<Rightarrow> 're option) \<Rightarrow> task list \<Rightarrow> ('re, 'c) backend" where
  "NewBackend compile tasks =
     \<lparr>Tasks = tasks, regexes = compile_tasks compile tasks Map.empty, assets = [],
      grades = Map.empty, clients = []\<rparr>"

text \<open>\<open>b.grades[id]\<close>: a missing entry reads as false.\<close>

definition passed :: "('re, 'c) backend \<Rightarrow> string \<Rightarrow> bool" where
  "passed b k \<longleftrightarrow> grades b k = Some True"

text \<open>\<open>gradesLocked\<close>, and the text \<open>json.Marshal\<close> makes of a map: its keys in byte order.\<close>

definition gradesLocked :: "('re, 'c) backend \<Rightarrow> (string \<times> bool) list" where
  "gradesLocked b = map (\<lambda>k. (k, passed b k)) (remdups (map ID (Tasks b)))"

definition marshal_grades :: "(string \<times> bool) list \<Rightarrow> bytes" where
  "marshal_grades m =
     print_json (JObj (map (\<lambda>k. (k, JBool (map_of m k = Some True))) (sort (map fst m))))"

text \<open>\<open>broadcastLocked\<close>: a client that cannot be written to is dropped.\<close>

fun write_all :: "('c \<Rightarrow> bytes \<Rightarrow> ('w, 'e, unit) call) \<Rightarrow> bytes \<Rightarrow> 'c list \<Rightarrow> 'w \<Rightarrow> 'c list \<times> 'w" where
  "write_all write payload [] w = ([], w)"
| "write_all write payload (c # cs) w =
     (case write c payload w of
        (Inl e, w1) \<Rightarrow> write_all write payload cs w1
      | (Inr u, w1) \<Rightarrow> (let (kept, w2) = write_all write payload cs w1 in (c # kept, w2)))"

definition broadcastLocked ::
  "('c \<Rightarrow> bytes \<Rightarrow> ('w, 'e, unit) call) \<Rightarrow> ('re, 'c) backend \<Rightarrow> 'w \<Rightarrow> ('re, 'c) backend \<times> 'w" where
  "broadcastLocked write b w =
     (let (kept, w1) = write_all write (marshal_grades (gradesLocked b)) (clients b) w
      in (b\<lparr>clients := kept\<rparr>, w1))"

text \<open>The loop over the tasks in \<open>Ingest\<close>, and the flag \<open>changed\<close>.\<close>

fun grade_tasks ::
  "('re \<Rightarrow> string \<Rightarrow> bool) \<Rightarrow> string \<Rightarrow> asset_buffer \<Rightarrow> task list \<Rightarrow> bool \<Rightarrow> ('re, 'c) backend \<Rightarrow>
     bool \<times> ('re, 'c) backend" where
  "grade_tasks matches asset buf [] changed b = (changed, b)"
| "grade_tasks matches asset buf (t # ts) changed b =
     (if passed b (ID t) then grade_tasks matches asset buf ts changed b
      else (case regexes b (ID t) of
        None \<Rightarrow> grade_tasks matches asset buf ts changed b
      | Some re \<Rightarrow>
          (if Asset t \<noteq> [] then
             (if Asset t \<noteq> asset then grade_tasks matches asset buf ts changed b
              else if matches re (Joined buf)
              then grade_tasks matches asset buf ts True (b\<lparr>grades := (grades b)(ID t \<mapsto> True)\<rparr>)
              else grade_tasks matches asset buf ts changed b)
           else if \<exists>(name, ab) \<in> set (assets b). matches re (Joined ab)
           then grade_tasks matches asset buf ts True (b\<lparr>grades := (grades b)(ID t \<mapsto> True)\<rparr>)
           else grade_tasks matches asset buf ts changed b)))"

definition Ingest ::
  "('re \<Rightarrow> string \<Rightarrow> bool) \<Rightarrow> ('c \<Rightarrow> bytes \<Rightarrow> ('w, 'e, unit) call) \<Rightarrow> string \<Rightarrow> bytes \<Rightarrow>
     ('re, 'c) backend \<Rightarrow> 'w \<Rightarrow> ('re, 'c) backend \<times> 'w" where
  "Ingest matches write asset chunk b w =
     (let buf = (case map_of (assets b) asset of Some ab \<Rightarrow> ab | None \<Rightarrow> empty_buffer);
          (complete, buf1) = buf_ingest chunk buf;
          b1 = b\<lparr>assets := AList.update asset buf1 (assets b)\<rparr>
      in if \<not> complete then (b1, w)
         else let (changed, b2) = grade_tasks matches asset buf1 (Tasks b1) False b1
              in if changed then broadcastLocked write b2 w else (b2, w))"

definition Grades :: "('re, 'c) backend \<Rightarrow> (string \<times> bool) list" where
  "Grades b = gradesLocked b"

text \<open>The critical sections of \<open>Serve\<close>: registering with a snapshot, and deregistering.\<close>

definition serve_register :: "'c \<Rightarrow> ('re, 'c) backend \<Rightarrow> bytes \<times> ('re, 'c) backend" where
  "serve_register c b =
     (let b1 = b\<lparr>clients := List.insert c (clients b)\<rparr>
      in (marshal_grades (gradesLocked b1), b1))"

definition serve_deregister :: "'c \<Rightarrow> ('re, 'c) backend \<Rightarrow> ('re, 'c) backend" where
  "serve_deregister c b = b\<lparr>clients := removeAll c (clients b)\<rparr>"

section \<open>Matching\<close>

text \<open>The rule a task is graded by, on the buffers of the moment.\<close>

definition task_matches ::
  "('re \<Rightarrow> string \<Rightarrow> bool) \<Rightarrow> (string \<rightharpoonup> 're) \<Rightarrow> string \<Rightarrow> (string \<rightharpoonup> asset_buffer) \<Rightarrow> task \<Rightarrow> bool" where
  "task_matches matches res asset bufs t \<longleftrightarrow>
     (\<exists>re. res (ID t) = Some re \<and>
        (if Asset t \<noteq> [] then Asset t = asset \<and> (\<exists>ab. bufs asset = Some ab \<and> matches re (Joined ab))
         else \<exists>ab \<in> ran bufs. matches re (Joined ab)))"

definition backend_wf :: "('re, 'c) backend \<Rightarrow> bool" where
  "backend_wf b \<longleftrightarrow> distinct (map fst (assets b)) \<and> distinct (clients b) \<and>
     (\<forall>(name, ab) \<in> set (assets b). buffer_wf ab) \<and>
     (\<forall>k. passed b k \<longrightarrow> k \<in> ID ` set (Tasks b) \<and> regexes b k \<noteq> None)"

lemma ran_map_of_distinct:
  "distinct (map fst al) \<Longrightarrow> (\<exists>ab \<in> ran (map_of al). P ab) \<longleftrightarrow> (\<exists>(k, ab) \<in> set al. P ab)"
  by (auto simp: ran_def)

lemma grade_tasks_spec:
  assumes "distinct (map fst (assets b))" "map_of (assets b) asset = Some buf"
  shows "\<exists>g. snd (grade_tasks matches asset buf ts changed b) = b\<lparr>grades := g\<rparr> \<and>
     (\<forall>k. g k = Some True \<longleftrightarrow> passed b k \<or>
        (\<exists>t \<in> set ts. ID t = k \<and> task_matches matches (regexes b) asset (map_of (assets b)) t)) \<and>
     (fst (grade_tasks matches asset buf ts changed b) \<longleftrightarrow> changed \<or> (\<exists>k. g k = Some True \<and> \<not> passed b k))"
  using assms
proof (induction ts arbitrary: b changed)
  case Nil
  show ?case by (rule exI[of _ "grades b"]) (auto simp: passed_def)
next
  case (Cons t ts)
  note IH = Cons.IH[OF Cons.prems]
  let ?m = "task_matches matches (regexes b) asset (map_of (assets b))"
  show ?case
  proof (cases "\<not> passed b (ID t) \<and> ?m t")
    case True
    let ?b = "b\<lparr>grades := (grades b)(ID t \<mapsto> True)\<rparr>"
    have "grade_tasks matches asset buf (t # ts) changed b = grade_tasks matches asset buf ts True ?b"
      using True Cons.prems by (auto simp: task_matches_def ran_map_of_distinct split: if_splits)
    moreover have p: "passed ?b k \<longleftrightarrow> passed b k \<or> k = ID t" for k by (auto simp: passed_def)
    ultimately show ?thesis using Cons.IH[of ?b True] Cons.prems True by auto
  next
    case False
    have "grade_tasks matches asset buf (t # ts) changed b = grade_tasks matches asset buf ts changed b"
      using False Cons.prems
      by (auto simp: task_matches_def ran_map_of_distinct split: option.splits)
    moreover obtain g where g: "snd (grade_tasks matches asset buf ts changed b) = b\<lparr>grades := g\<rparr>"
      "\<forall>k. g k = Some True \<longleftrightarrow> passed b k \<or> (\<exists>t \<in> set ts. ID t = k \<and> ?m t)"
      "fst (grade_tasks matches asset buf ts changed b) \<longleftrightarrow> changed \<or> (\<exists>k. g k = Some True \<and> \<not> passed b k)"
      using IH[of changed] by blast
    moreover have "\<forall>k. g k = Some True \<longleftrightarrow> passed b k \<or> (\<exists>t \<in> set (t # ts). ID t = k \<and> ?m t)"
      using False g(2) by auto
    ultimately show ?thesis by (intro exI[of _ g]) (simp only: simp_thms)
  qed
qed

text \<open>\<open>Ingest\<close> without its broadcast.\<close>

definition ingest_bufs :: "string \<Rightarrow> bytes \<Rightarrow> ('re, 'c) backend \<Rightarrow> bool \<times> (string \<rightharpoonup> asset_buffer)" where
  "ingest_bufs asset chunk b =
     (let buf = (case map_of (assets b) asset of Some ab \<Rightarrow> ab | None \<Rightarrow> empty_buffer)
      in (fst (buf_ingest chunk buf), (map_of (assets b))(asset \<mapsto> snd (buf_ingest chunk buf))))"

lemma write_all_Cons:
  "write_all write p (c # cs) w =
     (case fst (write c p w) of
        Inl e \<Rightarrow> write_all write p cs (snd (write c p w))
      | Inr u \<Rightarrow> (c # fst (write_all write p cs (snd (write c p w))),
                 snd (write_all write p cs (snd (write c p w)))))"
  by (simp add: split_beta split: sum.split)

lemma write_all_subset: "set (fst (write_all write p cs w)) \<subseteq> set cs"
proof (induction cs arbitrary: w)
  case (Cons c cs)
  show ?case using Cons[of "snd (write c p w)"] by (auto simp: write_all_Cons simp del: write_all.simps split: sum.splits)
qed simp

lemma distinct_write_all: "distinct cs \<Longrightarrow> distinct (fst (write_all write p cs w))"
proof (induction cs arbitrary: w)
  case (Cons c cs)
  then show ?case
    using write_all_subset[of "write" p cs "snd (write c p w)"]
    by (auto simp: write_all_Cons simp del: write_all.simps split: sum.splits)
qed simp

lemma Ingest_shape:
  assumes "backend_wf b"
  shows "\<exists>g cs. fst (Ingest matches write asset chunk b w) =
      b\<lparr>assets := AList.update asset (the (snd (ingest_bufs asset chunk b) asset)) (assets b),
        grades := g, clients := cs\<rparr> \<and>
    (\<forall>k. g k = Some True \<longleftrightarrow> passed b k \<or> (fst (ingest_bufs asset chunk b) \<and>
        (\<exists>t \<in> set (Tasks b). ID t = k \<and>
           task_matches matches (regexes b) asset (snd (ingest_bufs asset chunk b)) t))) \<and>
    (if \<exists>k. g k = Some True \<and> \<not> passed b k
     then (cs, snd (Ingest matches write asset chunk b w)) =
       write_all write (marshal_grades (gradesLocked (b\<lparr>grades := g\<rparr>))) (clients b) w
     else cs = clients b \<and> snd (Ingest matches write asset chunk b w) = w)"
proof -
  define buf where "buf = (case map_of (assets b) asset of Some ab \<Rightarrow> ab | None \<Rightarrow> empty_buffer)"
  define b1 where "b1 = b\<lparr>assets := AList.update asset (snd (buf_ingest chunk buf)) (assets b)\<rparr>"
  have b1: "distinct (map fst (assets b1))" "map_of (assets b1) asset = Some (snd (buf_ingest chunk buf))"
    "map_of (assets b1) = snd (ingest_bufs asset chunk b)" "regexes b1 = regexes b" "Tasks b1 = Tasks b"
    "clients b1 = clients b" "passed b1 = passed b" "grades b1 = grades b"
    using assms
    by (simp_all add: b1_def backend_wf_def distinct_update update_conv' ingest_bufs_def Let_def buf_def
        passed_def fun_eq_iff)
  have bufs: "the (snd (ingest_bufs asset chunk b) asset) = snd (buf_ingest chunk buf)"
    by (simp add: ingest_bufs_def buf_def Let_def)
  show ?thesis
  proof (cases "fst (buf_ingest chunk buf)")
    case False
    then have "Ingest matches write asset chunk b w = (b1, w)"
      by (simp add: Ingest_def buf_def[symmetric] b1_def split_beta)
    with False show ?thesis
      by (intro exI[of _ "grades b"] exI[of _ "clients b"])
        (auto simp: b1_def bufs ingest_bufs_def buf_def[symmetric] passed_def)
  next
    case True
    obtain g where g: "snd (grade_tasks matches asset (snd (buf_ingest chunk buf)) (Tasks b1) False b1)
        = b1\<lparr>grades := g\<rparr>"
      "\<And>k. g k = Some True \<longleftrightarrow> passed b k \<or> (\<exists>t \<in> set (Tasks b). ID t = k \<and>
           task_matches matches (regexes b) asset (snd (ingest_bufs asset chunk b)) t)"
      "fst (grade_tasks matches asset (snd (buf_ingest chunk buf)) (Tasks b1) False b1) \<longleftrightarrow>
         (\<exists>k. g k = Some True \<and> \<not> passed b k)"
      using grade_tasks_spec[OF b1(1,2), of matches "Tasks b1" False] unfolding b1(3-5,7) by blast
    have gl: "gradesLocked (b1\<lparr>grades := g\<rparr>) = gradesLocked (b\<lparr>grades := g\<rparr>)"
      by (simp add: gradesLocked_def b1_def passed_def)
    let ?r = "grade_tasks matches asset (snd (buf_ingest chunk buf)) (Tasks b1) False b1"
    have "Ingest matches write asset chunk b w =
        (if fst ?r then broadcastLocked write (snd ?r) w else (snd ?r, w))"
      using True by (simp add: Ingest_def buf_def[symmetric] b1_def[symmetric] split_beta)
    then have I: "Ingest matches write asset chunk b w =
        (if \<exists>k. g k = Some True \<and> \<not> passed b k then broadcastLocked write (b1\<lparr>grades := g\<rparr>) w
         else (b1\<lparr>grades := g\<rparr>, w))"
      by (simp only: g(1,3))
    have ok: "fst (ingest_bufs asset chunk b)" using True by (simp add: ingest_bufs_def buf_def Let_def)
    show ?thesis
    proof (cases "\<exists>k. g k = Some True \<and> \<not> passed b k")
      case True
      then show ?thesis
        using I g(2) ok gl b1(6)
        by (intro exI[of _ g] exI[of _ "fst (write_all write (marshal_grades (gradesLocked (b\<lparr>grades := g\<rparr>))) (clients b) w)"])
          (simp add: broadcastLocked_def split_beta b1_def bufs)
    next
      case False
      then have J: "Ingest matches write asset chunk b w = (b1\<lparr>grades := g\<rparr>, w)"
        using I by (simp only: if_False)
      have "\<forall>k. g k = Some True \<longleftrightarrow> passed b k \<or> (fst (ingest_bufs asset chunk b) \<and>
        (\<exists>t \<in> set (Tasks b). ID t = k \<and>
           task_matches matches (regexes b) asset (snd (ingest_bufs asset chunk b)) t))"
        using g(2) ok by (simp only: simp_thms)
      then show ?thesis
        using J False
        by (intro exI[of _ g] exI[of _ "clients b"] conjI)
          (simp_all only: if_False b1_def bufs fst_conv snd_conv, simp_all)
    qed
  qed
qed

end
