(* ===== verification/GraderServe.thy ===== *)
theory GraderServe
  imports GraderBackend
begin

text \<open>
  What the grading backend achieves over a run: which tasks a stream of forwarded output passes,
  and what the WebSocket clients are told while goroutines of \<open>Serve\<close> and \<open>Ingest\<close> interleave
  at the backend's mutex (\<open>services/relay/grader/backend.go\<close>).
\<close>

section \<open>A run of the listener's calls\<close>

fun ingest_run ::
  "('re \<Rightarrow> string \<Rightarrow> bool) \<Rightarrow> ('c \<Rightarrow> bytes \<Rightarrow> ('w, 'e, unit) call) \<Rightarrow> (string \<times> bytes) list \<Rightarrow>
     ('re, 'c) backend \<Rightarrow> 'w \<Rightarrow> ('re, 'c) backend \<times> 'w" where
  "ingest_run matches write [] b w = (b, w)"
| "ingest_run matches write ((asset, chunk) # evs) b w =
     (let (b1, w1) = Ingest matches write asset chunk b w in ingest_run matches write evs b1 w1)"

lemma ingest_run_append:
  "ingest_run matches write (xs @ ys) b w =
     (let (b1, w1) = ingest_run matches write xs b w in ingest_run matches write ys b1 w1)"
  by (induction matches "write" xs b w rule: ingest_run.induct) (simp_all add: split_beta Let_def)

text \<open>The chunks of one asset, and the buffers a stream of them leads to.\<close>

definition chunks_of :: "string \<Rightarrow> (string \<times> bytes) list \<Rightarrow> bytes list" where
  "chunks_of asset evs = map snd (filter (\<lambda>e. fst e = asset) evs)"

definition bufs_after :: "(string \<times> bytes) list \<Rightarrow> (string \<rightharpoonup> asset_buffer)" where
  "bufs_after evs asset =
     (if asset \<in> fst ` set evs then Some (ingest_all (chunks_of asset evs) empty_buffer) else None)"

definition completes_line :: "(string \<times> bytes) list \<Rightarrow> string \<Rightarrow> bytes \<Rightarrow> bool" where
  "completes_line evs asset chunk \<longleftrightarrow>
     fst (buf_ingest chunk (ingest_all (chunks_of asset evs) empty_buffer))"

lemma ingest_all_snoc: "ingest_all (cs @ [c]) b = snd (buf_ingest c (ingest_all cs b))"
  by (induction cs b rule: ingest_all.induct) simp_all

lemma chunks_of_snoc:
  "chunks_of a (evs @ [(a', c)]) = (if a = a' then chunks_of a evs @ [c] else chunks_of a evs)"
  by (simp add: chunks_of_def)

lemma chunks_of_unseen: "a \<notin> fst ` set evs \<Longrightarrow> chunks_of a evs = []"
  by (auto simp: chunks_of_def filter_empty_conv)

lemma bufs_after_get:
  "(case bufs_after evs a of Some ab \<Rightarrow> ab | None \<Rightarrow> empty_buffer) = ingest_all (chunks_of a evs) empty_buffer"
  by (simp add: bufs_after_def chunks_of_unseen)

lemma bufs_after_snoc:
  "bufs_after (evs @ [(a, c)]) =
     (bufs_after evs)(a \<mapsto> snd (buf_ingest c (ingest_all (chunks_of a evs) empty_buffer)))"
  by (rule ext) (auto simp: bufs_after_def chunks_of_snoc ingest_all_snoc)

text \<open>The invariant of a backend and its preservation by every operation.\<close>

lemma passed_NewBackend [simp]: "\<not> passed (NewBackend compile ts) k"
  by (simp add: passed_def NewBackend_def)

lemma NewBackend_wf [inv_intros]: "backend_wf (NewBackend compile ts)"
  by (simp add: backend_wf_def) (simp add: NewBackend_def)

lemma serve_register_wf [inv_intros]:
  "backend_wf b \<Longrightarrow> backend_wf (snd (serve_register c b))"
  by (auto simp: backend_wf_def serve_register_def Let_def passed_def)

lemma serve_deregister_wf [inv_intros]:
  "backend_wf b \<Longrightarrow> backend_wf (serve_deregister c b)"
  by (auto simp: backend_wf_def serve_deregister_def passed_def distinct_removeAll)

lemma Ingest_frame:
  assumes "backend_wf b"
  shows "Tasks (fst (Ingest matches write asset chunk b w)) = Tasks b"
    "regexes (fst (Ingest matches write asset chunk b w)) = regexes b"
    "map_of (assets (fst (Ingest matches write asset chunk b w))) = snd (ingest_bufs asset chunk b)"
    "passed (fst (Ingest matches write asset chunk b w)) k \<longleftrightarrow> passed b k \<or>
      (fst (ingest_bufs asset chunk b) \<and> (\<exists>t \<in> set (Tasks b). ID t = k \<and>
         task_matches matches (regexes b) asset (snd (ingest_bufs asset chunk b)) t))"
proof -
  obtain g cs where I: "fst (Ingest matches write asset chunk b w) =
      b\<lparr>assets := AList.update asset (the (snd (ingest_bufs asset chunk b) asset)) (assets b),
        grades := g, clients := cs\<rparr>"
    and g: "\<And>k. g k = Some True \<longleftrightarrow> passed b k \<or> (fst (ingest_bufs asset chunk b) \<and>
        (\<exists>t \<in> set (Tasks b). ID t = k \<and>
           task_matches matches (regexes b) asset (snd (ingest_bufs asset chunk b)) t))"
    using Ingest_shape[OF assms, of matches "write" asset chunk w] by blast
  show "Tasks (fst (Ingest matches write asset chunk b w)) = Tasks b"
    "regexes (fst (Ingest matches write asset chunk b w)) = regexes b"
    "map_of (assets (fst (Ingest matches write asset chunk b w))) = snd (ingest_bufs asset chunk b)"
    by (simp_all add: I update_conv' ingest_bufs_def Let_def)
  show "passed (fst (Ingest matches write asset chunk b w)) k \<longleftrightarrow> passed b k \<or>
      (fst (ingest_bufs asset chunk b) \<and> (\<exists>t \<in> set (Tasks b). ID t = k \<and>
         task_matches matches (regexes b) asset (snd (ingest_bufs asset chunk b)) t))"
    unfolding I passed_def[of "_\<lparr>clients := _\<rparr>"] using g[of k] by simp
qed

lemma Ingest_clients:
  assumes "backend_wf b"
  shows "(clients (fst (Ingest matches write asset chunk b w)), snd (Ingest matches write asset chunk b w)) =
    (if \<exists>k. passed (fst (Ingest matches write asset chunk b w)) k \<and> \<not> passed b k
     then write_all write (marshal_grades (gradesLocked (fst (Ingest matches write asset chunk b w)))) (clients b) w
     else (clients b, w))"
proof -
  obtain g cs where I: "fst (Ingest matches write asset chunk b w) =
      b\<lparr>assets := AList.update asset (the (snd (ingest_bufs asset chunk b) asset)) (assets b),
        grades := g, clients := cs\<rparr>"
    and c: "if \<exists>k. g k = Some True \<and> \<not> passed b k
     then (cs, snd (Ingest matches write asset chunk b w)) =
       write_all write (marshal_grades (gradesLocked (b\<lparr>grades := g\<rparr>))) (clients b) w
     else cs = clients b \<and> snd (Ingest matches write asset chunk b w) = w"
    using Ingest_shape[OF assms, of matches "write" asset chunk w] by blast
  have "passed (fst (Ingest matches write asset chunk b w)) = (\<lambda>k. g k = Some True)"
    by (simp add: I passed_def fun_eq_iff)
  moreover have "gradesLocked (fst (Ingest matches write asset chunk b w)) = gradesLocked (b\<lparr>grades := g\<rparr>)"
    by (simp add: I gradesLocked_def passed_def)
  ultimately show ?thesis using c by (simp add: I split: if_splits)
qed

lemma Ingest_assets:
  assumes "backend_wf b"
  shows "assets (fst (Ingest matches write asset chunk b w)) =
    AList.update asset (the (snd (ingest_bufs asset chunk b) asset)) (assets b)"
  using Ingest_shape[OF assms, of matches "write" asset chunk w] by fastforce

lemma Ingest_wf [inv_intros]:
  assumes "backend_wf b"
  shows "backend_wf (fst (Ingest matches write asset chunk b w))"
proof -
  let ?b = "fst (Ingest matches write asset chunk b w)"
  note fr = Ingest_frame[OF assms, of matches "write" asset chunk w]
  have "distinct (map fst (assets ?b))"
    using assms by (simp add: Ingest_assets[OF assms] backend_wf_def distinct_update)
  moreover have "distinct (clients ?b)"
    using arg_cong[OF Ingest_clients[OF assms, of matches "write" asset chunk w], of fst] assms
    by (simp add: backend_wf_def distinct_write_all split: if_splits)
  moreover have "\<forall>(name, ab) \<in> set (assets ?b). buffer_wf ab"
  proof -
    have old: "buffer_wf (case map_of (assets b) asset of Some ab \<Rightarrow> ab | None \<Rightarrow> empty_buffer)"
      using assms by (auto simp: backend_wf_def empty_buffer_wf dest: map_of_SomeD split: option.splits)
    then have "buffer_wf (the (snd (ingest_bufs asset chunk b) asset))"
      by (auto simp: ingest_bufs_def Let_def intro: buf_ingest_wf)
    moreover have "set (AList.update asset v al) \<subseteq> insert (asset, v) (set al)" for v :: asset_buffer and al
      by (induction al) auto
    ultimately show ?thesis
      using assms unfolding Ingest_assets[OF assms] backend_wf_def by fastforce
  qed
  moreover have "passed ?b k \<longrightarrow> k \<in> ID ` set (Tasks ?b) \<and> regexes ?b k \<noteq> None" for k
    using assms fr(4)[of k] unfolding fr(1,2) backend_wf_def
    by (auto simp: task_matches_def)
  ultimately show ?thesis unfolding backend_wf_def by blast
qed

lemma ingest_run_inv:
  fixes compile tasks
  defines "b0 \<equiv> NewBackend compile tasks"
  shows "backend_wf (fst (ingest_run matches write evs b0 w)) \<and>
    Tasks (fst (ingest_run matches write evs b0 w)) = tasks \<and>
    regexes (fst (ingest_run matches write evs b0 w)) = compile_tasks compile tasks Map.empty \<and>
    map_of (assets (fst (ingest_run matches write evs b0 w))) = bufs_after evs"
proof (induction evs rule: rev_induct)
  case Nil
  show ?case
    by (simp add: b0_def NewBackend_wf) (simp add: NewBackend_def bufs_after_def fun_eq_iff)
next
  case (snoc e evs)
  obtain a c where e: "e = (a, c)" by force
  let ?b = "fst (ingest_run matches write evs b0 w)" and ?w = "snd (ingest_run matches write evs b0 w)"
  have wf: "backend_wf ?b" using snoc by blast
  have "fst (ingest_run matches write (evs @ [e]) b0 w) = fst (Ingest matches write a c ?b ?w)"
    by (simp add: ingest_run_append e split_beta Let_def)
  moreover have "snd (ingest_bufs a c ?b) = bufs_after (evs @ [e])"
    using snoc by (simp add: e ingest_bufs_def Let_def bufs_after_snoc bufs_after_get)
  ultimately show ?case
    using snoc Ingest_wf[OF wf, of matches "write" a c ?w] Ingest_frame(1-3)[OF wf, of matches "write" a c ?w]
    by simp
qed

lemma snoc_splits:
  "(\<exists>pre a c post. evs @ [(x, y)] = pre @ (a, c) # post \<and> P pre a c) \<longleftrightarrow>
     P evs x y \<or> (\<exists>pre a c post. evs = pre @ (a, c) # post \<and> P pre a c)" (is "?l \<longleftrightarrow> ?r")
proof
  assume ?l
  then obtain pre a c post where *: "evs @ [(x, y)] = pre @ (a, c) # post" "P pre a c" by blast
  show ?r
  proof (cases post rule: rev_cases)
    case Nil
    with * show ?thesis by simp
  next
    case (snoc ps p)
    with * have "evs = pre @ (a, c) # ps" by simp
    with *(2) show ?thesis by blast
  qed
next
  assume ?r
  then show ?l
  proof
    assume "\<exists>pre a c post. evs = pre @ (a, c) # post \<and> P pre a c"
    then obtain pre a c post where "evs = pre @ (a, c) # post" "P pre a c" by blast
    then have "evs @ [(x, y)] = pre @ (a, c) # (post @ [(x, y)]) \<and> P pre a c" by simp
    then show ?l by blast
  qed blast
qed

text \<open>
  C15: From a fresh backend, a task id is passed after a stream of forwarded chunks exactly when
  at some chunk of the stream a line of output was completed and, on the buffers as they stood
  then, the template compiled for that id matched: the last ten lines of the task's own asset
  if it names one, of any asset otherwise. So grades are sticky, complete and never wrong, and
  do not depend on the clients that come and go.
\<close>
theorem stream_grades:
  "passed (fst (ingest_run matches write evs (NewBackend compile tasks) w)) k \<longleftrightarrow>
     (\<exists>pre asset chunk post. evs = pre @ (asset, chunk) # post \<and> completes_line pre asset chunk \<and>
        (\<exists>t \<in> set tasks. ID t = k \<and>
           task_matches matches (compile_tasks compile tasks Map.empty) asset
             (bufs_after (pre @ [(asset, chunk)])) t))"
proof (induction evs rule: rev_induct)
  case (snoc e evs)
  obtain a c where e: "e = (a, c)" by force
  let ?b = "fst (ingest_run matches write evs (NewBackend compile tasks) w)"
    and ?w = "snd (ingest_run matches write evs (NewBackend compile tasks) w)"
  note inv = ingest_run_inv[of matches "write" evs compile tasks w]
  have "fst (ingest_run matches write (evs @ [e]) (NewBackend compile tasks) w) =
      fst (Ingest matches write a c ?b ?w)"
    by (simp add: ingest_run_append e split_beta Let_def)
  moreover have "snd (ingest_bufs a c ?b) = bufs_after (evs @ [(a, c)])"
    "fst (ingest_bufs a c ?b) = completes_line evs a c"
    using inv by (simp_all add: ingest_bufs_def Let_def bufs_after_snoc bufs_after_get completes_line_def)
  ultimately have "passed (fst (ingest_run matches write (evs @ [e]) (NewBackend compile tasks) w)) k \<longleftrightarrow>
      passed ?b k \<or> (completes_line evs a c \<and> (\<exists>t \<in> set tasks. ID t = k \<and>
        task_matches matches (compile_tasks compile tasks Map.empty) a (bufs_after (evs @ [(a, c)])) t))"
    using Ingest_frame(4)[of ?b matches "write" a c ?w k] inv by simp
  then show ?case unfolding snoc e snoc_splits by blast
qed simp

section \<open>Interleaving with the WebSocket clients\<close>

text \<open>
  One goroutine of \<open>Serve\<close> per connection. Between its two critical sections it writes the
  snapshot it took and then reads until the connection fails; other goroutines run in between.
  \<open>outbox\<close> is what has been written to each connection, in order.
\<close>

datatype serve_pc = NotConnected | Snapshot bytes | Reading | Returned

record ('re, 'c) gsys =
  be :: "('re, 'c) backend"
  pc :: "'c \<Rightarrow> serve_pc"
  outbox :: "'c \<Rightarrow> bytes list"

text \<open>A write is recorded, or fails for the connections in \<open>bad\<close>.\<close>

definition conn_write :: "'c set \<Rightarrow> 'c \<Rightarrow> bytes \<Rightarrow> ('c \<Rightarrow> bytes list, unit, unit) call" where
  "conn_write bad c payload out = (if c \<in> bad then (Inl (), out) else (Inr (), out(c := out c @ [payload])))"

inductive serve_step ::
  "('re \<Rightarrow> string \<Rightarrow> bool) \<Rightarrow> ('re, 'c) gsys \<Rightarrow> ('re, 'c) gsys \<Rightarrow> bool" for matches where
  serve_connect: "pc s c = NotConnected \<Longrightarrow> serve_register c (be s) = (payload, b) \<Longrightarrow>
    serve_step matches s (s\<lparr>be := b, pc := (pc s)(c := Snapshot payload)\<rparr>)"
| serve_sent: "pc s c = Snapshot payload \<Longrightarrow>
    serve_step matches s (s\<lparr>pc := (pc s)(c := Reading), outbox := (outbox s)(c := outbox s c @ [payload])\<rparr>)"
| serve_send_failed: "pc s c = Snapshot payload \<Longrightarrow>
    serve_step matches s (s\<lparr>be := serve_deregister c (be s), pc := (pc s)(c := Returned)\<rparr>)"
| serve_read_failed: "pc s c = Reading \<Longrightarrow>
    serve_step matches s (s\<lparr>be := serve_deregister c (be s), pc := (pc s)(c := Returned)\<rparr>)"
| serve_ingest: "Ingest matches (conn_write bad) asset chunk (be s) (outbox s) = (b, out) \<Longrightarrow>
    serve_step matches s (s\<lparr>be := b, outbox := out\<rparr>)"

definition serve_init :: "(string \<Rightarrow> 're option) \<Rightarrow> task list \<Rightarrow> ('re, 'c) gsys" where
  "serve_init compile tasks =
     \<lparr>be = NewBackend compile tasks, pc = (\<lambda>_. NotConnected), outbox = (\<lambda>_. [])\<rparr>"

inductive serve_reach ::
  "(string \<Rightarrow> 're option) \<Rightarrow> ('re \<Rightarrow> string \<Rightarrow> bool) \<Rightarrow> task list \<Rightarrow> ('re, 'c) gsys \<Rightarrow> bool"
  for compile matches tasks where
  serve_start: "serve_reach compile matches tasks (serve_init compile tasks)"
| serve_next: "serve_reach compile matches tasks s \<Longrightarrow> serve_step matches s s' \<Longrightarrow>
    serve_reach compile matches tasks s'"

text \<open>What a client reads out of a message: the ids it is told are passed.\<close>

definition tells :: "bytes \<Rightarrow> string \<Rightarrow> bool option" where
  "tells payload k =
     (case json_parse payload of
        Some (JObj ms) \<Rightarrow> (case map_of ms k of Some (JBool v) \<Rightarrow> Some v | _ \<Rightarrow> None)
      | _ \<Rightarrow> None)"

lemma map_of_pair_image: "map_of (map (\<lambda>k. (k, f k)) ks) k = (if k \<in> set ks then Some (f k) else None)"
  by (induction ks) auto

lemma tells_marshal:
  assumes "\<forall>k \<in> fst ` set m. valid_utf8 k"
  shows "tells (marshal_grades m) k = (if k \<in> fst ` set m then Some (map_of m k = Some True) else None)"
proof -
  let ?ms = "map (\<lambda>k. (k, JBool (map_of m k = Some True))) (sort (map fst m))"
  have c: "json_clean (JObj ?ms) = JObj ?ms"
    using assms by (auto simp: sanitize_valid)
  have "json_depth (JObj ?ms) = Suc 0" by (auto intro: Max_eqI simp: image_iff)
  then have "json_parse (marshal_grades m) = Some (JObj ?ms)"
    using parse_print[of "JObj ?ms"] c by (simp add: marshal_grades_def max_nesting_def)
  then show ?thesis by (simp add: tells_def map_of_pair_image)
qed

lemma write_all_conn:
  "distinct cs \<Longrightarrow> write_all (conn_write bad) p cs out =
     (filter (\<lambda>c. c \<notin> bad) cs, \<lambda>c. if c \<in> set cs \<and> c \<notin> bad then out c @ [p] else out c)"
proof (induction cs arbitrary: out)
  case (Cons c cs)
  then show ?case
    by (cases "c \<in> bad") (auto simp: conn_write_def fun_eq_iff split_beta)
qed simp

text \<open>A message reports the grades of some moment, none of which was withdrawn since.\<close>

definition reports :: "task list \<Rightarrow> ('re, 'c) backend \<Rightarrow> bytes \<Rightarrow> bool" where
  "reports tasks b p \<longleftrightarrow> (\<exists>G. (\<forall>k. G k \<longrightarrow> passed b k) \<and>
     p = marshal_grades (map (\<lambda>k. (k, G k)) (remdups (map ID tasks))))"

definition serve_inv :: "(string \<Rightarrow> 're option) \<Rightarrow> task list \<Rightarrow> ('re, 'c) gsys \<Rightarrow> bool" where
  "serve_inv compile tasks s \<longleftrightarrow> backend_wf (be s) \<and> Tasks (be s) = tasks \<and>
     regexes (be s) = compile_tasks compile tasks Map.empty \<and>
     (\<forall>c. c \<in> set (clients (be s)) \<longrightarrow> (\<exists>p. pc s c = Snapshot p) \<or> pc s c = Reading) \<and>
     (\<forall>c p. pc s c = Snapshot p \<longrightarrow> reports tasks (be s) p) \<and>
     (\<forall>c. \<forall>p \<in> set (outbox s c). reports tasks (be s) p)"

lemma reports_now: "Tasks b = tasks \<Longrightarrow> reports tasks b (marshal_grades (gradesLocked b))"
  by (auto simp: reports_def gradesLocked_def intro!: exI[of _ "passed b"])

lemma reports_mono: "(\<And>k. passed b k \<Longrightarrow> passed b' k) \<Longrightarrow> reports tasks b p \<Longrightarrow> reports tasks b' p"
  unfolding reports_def by blast

lemma passed_register [simp]: "passed (snd (serve_register c b)) = passed b"
  by (simp add: serve_register_def passed_def fun_eq_iff Let_def)

lemma passed_deregister [simp]: "passed (serve_deregister c b) = passed b"
  by (simp add: serve_deregister_def passed_def fun_eq_iff)

lemma reports_same: "passed b = passed b' \<Longrightarrow> reports tasks b = reports tasks b'"
  by (rule ext) (simp add: reports_def)

lemma serve_ingest_effect:
  assumes "serve_inv compile tasks s" "Ingest matches (conn_write bad) asset chunk (be s) (outbox s) = (b, out)"
  shows "out = (\<lambda>c. if (\<exists>k. passed b k \<and> \<not> passed (be s) k) \<and> c \<in> set (clients (be s)) \<and> c \<notin> bad
      then outbox s c @ [marshal_grades (gradesLocked b)] else outbox s c)"
    "set (clients b) \<subseteq> set (clients (be s))" "passed (be s) k \<Longrightarrow> passed b k"
    "Tasks b = tasks" "regexes b = compile_tasks compile tasks Map.empty" "backend_wf b"
proof -
  have wf: "backend_wf (be s)" and d: "distinct (clients (be s))"
    using assms(1) by (auto simp: serve_inv_def backend_wf_def)
  have b: "b = fst (Ingest matches (conn_write bad) asset chunk (be s) (outbox s))" using assms(2) by simp
  note fr = Ingest_frame[OF wf, of matches "conn_write bad" asset chunk "outbox s", folded b]
  note cl = Ingest_clients[OF wf, of matches "conn_write bad" asset chunk "outbox s", folded b]
  show "out = (\<lambda>c. if (\<exists>k. passed b k \<and> \<not> passed (be s) k) \<and> c \<in> set (clients (be s)) \<and> c \<notin> bad
      then outbox s c @ [marshal_grades (gradesLocked b)] else outbox s c)"
    "set (clients b) \<subseteq> set (clients (be s))"
    using cl assms(2) by (auto simp: write_all_conn[OF d] fun_eq_iff split: if_splits)
  show "passed (be s) k \<Longrightarrow> passed b k" using fr(4)[of k] by blast
  show "Tasks b = tasks" "regexes b = compile_tasks compile tasks Map.empty" "backend_wf b"
    using fr(1,2) assms(1) Ingest_wf[OF wf] by (simp_all add: serve_inv_def b)
qed

lemma serve_step_inv [inv_intros]:
  assumes "serve_step matches s s'" "serve_inv compile tasks s"
  shows "serve_inv compile tasks s'"
  using assms(1)
proof cases
  case (serve_connect c payload b)
  then have b: "b = snd (serve_register c (be s))" "payload = marshal_grades (gradesLocked b)"
    by (auto simp: serve_register_def Let_def)
  have T: "Tasks b = tasks" "regexes b = regexes (be s)" "set (clients b) = insert c (set (clients (be s)))"
    using assms(2) by (simp_all add: b(1) serve_register_def Let_def serve_inv_def)
  have "reports tasks b payload" using reports_now[OF T(1)] b(2) by simp
  moreover have "backend_wf b" using assms(2) by (simp add: b(1) serve_inv_def serve_register_wf)
  moreover have "reports tasks b = reports tasks (be s)" by (rule reports_same) (simp add: b(1))
  ultimately show ?thesis using assms(2) T serve_connect(1,2) by (auto simp: serve_inv_def)
next
  case (serve_sent c payload)
  then show ?thesis using assms(2) by (auto simp: serve_inv_def)
next
  case (serve_send_failed c payload)
  have "reports tasks (serve_deregister c (be s)) = reports tasks (be s)" by (rule reports_same) simp
  then show ?thesis using assms(2) serve_send_failed serve_deregister_wf[of "be s" c]
    by (auto simp: serve_inv_def serve_deregister_def)
next
  case (serve_read_failed c)
  have "reports tasks (serve_deregister c (be s)) = reports tasks (be s)" by (rule reports_same) simp
  then show ?thesis using assms(2) serve_read_failed serve_deregister_wf[of "be s" c]
    by (auto simp: serve_inv_def serve_deregister_def)
next
  case (serve_ingest bad asset chunk b out)
  note eff = serve_ingest_effect[OF assms(2) serve_ingest(2)]
  have "reports tasks (be s) p \<Longrightarrow> reports tasks b p" for p using eff(3) by (rule reports_mono)
  moreover have "reports tasks b (marshal_grades (gradesLocked b))" using eff(4) by (rule reports_now)
  ultimately show ?thesis
    using assms(2) eff(2,4,5,6) unfolding serve_ingest(1) serve_inv_def
    by (auto simp: eff(1) split: if_splits)
qed

lemma serve_reach_inv: "serve_reach compile matches tasks s \<Longrightarrow> serve_inv compile tasks s"
proof (induction rule: serve_reach.induct)
  case serve_start
  show ?case
    by (simp add: serve_inv_def serve_init_def NewBackend_wf) (simp add: NewBackend_def)
qed (rule serve_step_inv)

lemma serve_connect': "pc s c = NotConnected \<Longrightarrow> serve_step matches s
    (s\<lparr>be := snd (serve_register c (be s)), pc := (pc s)(c := Snapshot (fst (serve_register c (be s))))\<rparr>)"
  by (rule serve_connect) simp_all

lemma serve_ingest': "serve_step matches s
    (s\<lparr>be := fst (Ingest matches (conn_write bad) asset chunk (be s) (outbox s)),
      outbox := snd (Ingest matches (conn_write bad) asset chunk (be s) (outbox s))\<rparr>)"
  by (rule serve_ingest[of _ bad asset chunk]) simp

text \<open>A small run: client 0 connects, output passes the task, the snapshot is sent, client 1 joins.\<close>

definition demo_task :: task where
  "demo_task = \<lparr>ID = ''hello'', Type = ''term'', Template = ''ok'', Asset = ''vm''\<rparr>"

definition demo0 :: "(string, nat) gsys" where
  "demo0 = serve_init Some [demo_task]"

definition demo1 :: "(string, nat) gsys" where
  "demo1 = demo0\<lparr>be := snd (serve_register 0 (be demo0)),
     pc := (pc demo0)(0 := Snapshot (fst (serve_register 0 (be demo0))))\<rparr>"

definition demo2 :: "(string, nat) gsys" where
  "demo2 = demo1\<lparr>
     be := fst (Ingest (=) (conn_write {}) ''vm'' [CHR ''o'', CHR ''k'', newline] (be demo1) (outbox demo1)),
     outbox := snd (Ingest (=) (conn_write {}) ''vm'' [CHR ''o'', CHR ''k'', newline] (be demo1) (outbox demo1))\<rparr>"

definition report_of :: "bool \<Rightarrow> bytes" where
  "report_of v = marshal_grades [(''hello'', v)]"

definition demo3 :: "(string, nat) gsys" where
  "demo3 = demo2\<lparr>pc := (pc demo2)(0 := Reading), outbox := (outbox demo2)(0 := outbox demo2 0 @ [report_of False])\<rparr>"

lemma demo1_values:
  "pc demo1 0 = Snapshot (report_of False)" "clients (be demo1) = [0]" "outbox demo1 0 = []"
  "\<not> passed (be demo1) ''hello''"
  by (simp_all add: demo1_def demo0_def serve_init_def serve_register_def report_of_def
      NewBackend_def gradesLocked_def demo_task_def passed_def)

lemma demo_ingest:
  "Ingest (=) (conn_write {}) ''vm'' [CHR ''o'', CHR ''k'', newline] (be demo1) (outbox demo1) =
     ((be demo1)\<lparr>assets := [(''vm'', \<lparr>buf_partial = [], buf_lines = [''ok'']\<rparr>)], grades := [''hello'' \<mapsto> True]\<rparr>,
      (outbox demo1)(0 := [report_of True]))"
proof -
  have b: "be demo1 = \<lparr>Tasks = [demo_task], regexes = [''hello'' \<mapsto> ''ok''], assets = [], grades = Map.empty,
      clients = [0]\<rparr>" "outbox demo1 = (\<lambda>_. [])"
    by (simp_all add: demo1_def demo0_def serve_init_def NewBackend_def serve_register_def Let_def demo_task_def)
  have i: "buf_ingest [CHR ''o'', CHR ''k'', newline] empty_buffer = (True, \<lparr>buf_partial = [], buf_lines = [''ok'']\<rparr>)"
    by code_simp
  have j: "Joined \<lparr>buf_partial = [], buf_lines = [''ok'']\<rparr> = ''ok''" by code_simp
  show ?thesis
    by (simp add: Ingest_def b i j demo_task_def passed_def broadcastLocked_def conn_write_def
        gradesLocked_def report_of_def)
qed

lemma demo_reach:
  "serve_reach Some (=) [demo_task] demo1" "serve_reach Some (=) [demo_task] demo2"
  "serve_reach Some (=) [demo_task] demo3"
proof -
  show 1: "serve_reach Some (=) [demo_task] demo1"
    unfolding demo1_def demo0_def
    by (rule serve_next[OF serve_start serve_connect']) (simp add: serve_init_def)
  show 2: "serve_reach Some (=) [demo_task] demo2"
    unfolding demo2_def by (rule serve_next[OF 1 serve_ingest'])
  show "serve_reach Some (=) [demo_task] demo3"
    unfolding demo3_def
    by (rule serve_next[OF 2 serve_sent]) (simp add: demo2_def demo1_values)
qed

lemma hello_valid: "valid_utf8 ''hello''"
  by code_simp

lemma tells_report [simp]: "tells (report_of v) ''hello'' = Some v"
  by (simp add: report_of_def tells_marshal hello_valid)

text \<open>
  C24: In every interleaving of clients and output, every message any client was ever sent is a
  JSON object with an entry for every task, and an entry that is true is a task recorded as
  passed: no client is told of a pass that did not happen, and none is withdrawn.
\<close>
theorem clients_told_the_truth:
  assumes "serve_reach compile matches tasks s" "\<forall>t \<in> set tasks. valid_utf8 (ID t)"
    "p \<in> set (outbox s c)"
  shows "(\<forall>t \<in> set tasks. tells p (ID t) \<noteq> None) \<and> (\<forall>k. tells p k = Some True \<longrightarrow> passed (be s) k)"
proof -
  have "reports tasks (be s) p"
    using serve_reach_inv[OF assms(1)] assms(3) by (auto simp: serve_inv_def)
  then obtain G where G: "\<forall>k. G k \<longrightarrow> passed (be s) k"
    "p = marshal_grades (map (\<lambda>k. (k, G k)) (remdups (map ID tasks)))"
    by (auto simp: reports_def)
  have "tells p k = (if k \<in> ID ` set tasks then Some (G k) else None)" for k
    using tells_marshal[of "map (\<lambda>k. (k, G k)) (remdups (map ID tasks))" k] assms(2)
    by (auto simp: G(2) map_of_pair_image image_image split: if_splits)
  with G(1) show ?thesis by auto
qed

theorem clients_told_the_truth_witness:
  "passed (be demo3) ''hello''"
proof -
  have "\<forall>t \<in> set [demo_task]. valid_utf8 (ID t)" by (simp add: demo_task_def hello_valid)
  moreover have "report_of True \<in> set (outbox demo3 0)"
    by (simp add: demo3_def demo2_def demo_ingest)
  ultimately show ?thesis using clients_told_the_truth[OF demo_reach(3), of "report_of True" 0] by simp
qed

text \<open>
  Whenever output passes a task that was not passed before, every registered client whose
  connection accepts the write gets one more message, and it states the current grade of every
  task; a client whose write fails gets nothing and is deregistered, and when nothing new passed
  no client is written to.
\<close>
theorem broadcast_on_change:
  assumes "serve_reach compile matches tasks s" "\<forall>t \<in> set tasks. valid_utf8 (ID t)"
    "Ingest matches (conn_write bad) asset chunk (be s) (outbox s) = (b, out)"
  shows "if (\<exists>k. passed b k \<and> \<not> passed (be s) k) \<and> c \<in> set (clients (be s)) \<and> c \<notin> bad
    then c \<in> set (clients b) \<and>
      (\<exists>p. out c = outbox s c @ [p] \<and> (\<forall>t \<in> set tasks. tells p (ID t) = Some (passed b (ID t))))
    else out c = outbox s c \<and>
      ((\<exists>k. passed b k \<and> \<not> passed (be s) k) \<longrightarrow> c \<notin> set (clients b))"
proof -
  have inv: "serve_inv compile tasks s" by (rule serve_reach_inv) fact
  then have wf: "backend_wf (be s)" "distinct (clients (be s))"
    by (auto simp: serve_inv_def backend_wf_def)
  note eff = serve_ingest_effect[OF inv assms(3)]
  have cl: "clients b = (if \<exists>k. passed b k \<and> \<not> passed (be s) k
      then filter (\<lambda>c. c \<notin> bad) (clients (be s)) else clients (be s))"
    using Ingest_clients[OF wf(1), of matches "conn_write bad" asset chunk "outbox s"] assms(3)
    by (auto simp: write_all_conn[OF wf(2)] split: if_splits)
  have "tells (marshal_grades (gradesLocked b)) (ID t) = Some (passed b (ID t))" if "t \<in> set tasks" for t
    using tells_marshal[of "gradesLocked b" "ID t"] that assms(2)
    by (auto simp: gradesLocked_def map_of_pair_image eff(4) image_image split: if_splits)
  then show ?thesis by (auto simp: eff(1) cl)
qed

theorem broadcast_on_change_witness:
  "\<exists>p. outbox demo2 0 = outbox demo1 0 @ [p] \<and> tells p ''hello'' = Some (passed (be demo2) ''hello'')"
proof -
  have v: "\<forall>t \<in> set [demo_task]. valid_utf8 (ID t)" by (simp add: demo_task_def hello_valid)
  have "Ingest (=) (conn_write {}) ''vm'' [CHR ''o'', CHR ''k'', newline] (be demo1) (outbox demo1) = (be demo2, outbox demo2)"
    by (simp add: demo2_def)
  from broadcast_on_change[OF demo_reach(1) v this, of 0]
  have "if passed (be demo2) ''hello'' \<and> \<not> passed (be demo1) ''hello''
    then \<exists>p. outbox demo2 0 = outbox demo1 0 @ [p] \<and> tells p ''hello'' = Some (passed (be demo2) ''hello'')
    else True"
    using demo1_values by (auto simp: demo_task_def split: if_splits)
  moreover have "passed (be demo2) ''hello''" by (simp add: demo2_def demo_ingest passed_def)
  ultimately show ?thesis using demo1_values(4) by simp
qed

text \<open>
  The last message a client was sent need not be the current grades: \<open>Serve\<close> takes its
  snapshot under the mutex and writes it after releasing the mutex, so a broadcast in between
  reaches the client first and the older snapshot, which still reports the task as not passed,
  overtakes it. The client stays on the stale report until some other task passes.
\<close>
theorem snapshot_overtaken_by_broadcast:
  "\<exists>s. serve_reach Some (=) [demo_task] s \<and> pc s (0 :: nat) = Reading \<and> 0 \<in> set (clients (be s)) \<and>
     passed (be s) ''hello'' \<and> map (\<lambda>p. tells p ''hello'') (outbox s 0) = [Some True, Some False]"
proof (intro exI conjI)
  show "serve_reach Some (=) [demo_task] demo3" by (rule demo_reach)
qed (simp_all add: demo3_def demo2_def demo_ingest demo1_values passed_def)

end
