(* ===== verification/ForwardWire.thy ===== *)
theory ForwardWire
  imports JsonStruct GraderLines
begin

text \<open>
  The wire between relay-exec and relay-grader: one JSON object per line. The struct
  \<open>forwardMsg\<close> is declared alike in \<open>services/relay/exec/forwarder.go\<close> (writer) and
  \<open>services/relay/grader/listener.go\<close> (reader). \<open>scan_lines\<close> is the \<open>bufio.Scanner\<close> of the
  reader, with its buffer limit of one MiB. The locale states what any message format
  must promise for the line stream to deliver the messages; the JSON format provides it.
\<close>

section \<open>The reader's scanner\<close>

definition carriage_return :: char where "carriage_return = CHR 0x0D"

definition drop_cr :: "string \<Rightarrow> string" where
  "drop_cr l = (if l \<noteq> [] \<and> last l = carriage_return then butlast l else l)"

definition max_token :: nat where "max_token = 1024 * 1024"

text \<open>
  The tokens \<open>Scan\<close> yields on all that the connection delivers. A line that does not fit the
  buffer ends the scan; an unterminated last line is a token.
\<close>

function scan_lines :: "string \<Rightarrow> string list" where
  "scan_lines s =
     (if s = [] then []
      else let l = takeWhile (\<lambda>c. c \<noteq> newline) s
           in if max_token \<le> length l then []
              else drop_cr l # (if length l < length s then scan_lines (drop (Suc (length l)) s) else []))"
  by pat_completeness auto
termination
  by (relation "measure length") auto

declare scan_lines.simps [simp del]

lemma scan_lines_Nil [simp]: "scan_lines [] = []"
  by (subst scan_lines.simps) simp

lemma scan_lines_line:
  assumes "newline \<notin> set l" "length l < max_token"
  shows "scan_lines (l @ newline # r) = drop_cr l # scan_lines r"
proof -
  have "takeWhile (\<lambda>c. c \<noteq> newline) (l @ newline # r) = l"
    using assms(1) by (induction l) auto
  then show ?thesis using assms(2) by (subst scan_lines.simps) (simp add: Let_def)
qed

lemma scan_lines_long:
  assumes "newline \<notin> set l" "max_token \<le> length l"
  shows "scan_lines (l @ r) = []"
proof -
  have "takeWhile (\<lambda>c. c \<noteq> newline) (l @ r) = l @ takeWhile (\<lambda>c. c \<noteq> newline) r"
    using assms(1) by (induction l) auto
  then show ?thesis using assms(2) by (subst scan_lines.simps) (simp add: Let_def)
qed

section \<open>The interface: a format carried by lines\<close>

locale line_codec =
  fixes encode :: "'m \<Rightarrow> string"
    and decode :: "string \<Rightarrow> 'm option"
    and norm :: "'m \<Rightarrow> 'm"
  assumes decode_encode: "decode (encode m) = Some (norm m)"
    and encode_one_line: "newline \<notin> set (encode m)"
    and encode_no_cr: "carriage_return \<notin> set (encode m)"
begin

lemma drop_cr_encode: "drop_cr (encode m) = encode m"
proof (cases "encode m = []")
  case False
  then have "last (encode m) \<noteq> carriage_return"
    using encode_no_cr[of m] last_in_set by metis
  then show ?thesis by (simp add: drop_cr_def)
qed (simp add: drop_cr_def)

lemma scan_stream:
  assumes "\<forall>m \<in> set ms. length (encode m) < max_token"
  shows "scan_lines (concat (map (\<lambda>m. encode m @ [newline]) ms) @ r) = map encode ms @ scan_lines r"
  using assms
  by (induction ms)
    (simp_all add: scan_lines_line[OF encode_one_line] drop_cr_encode)

lemma decode_stream:
  assumes "\<forall>m \<in> set ms. length (encode m) < max_token"
  shows "map decode (scan_lines (concat (map (\<lambda>m. encode m @ [newline]) ms))) = map (\<lambda>m. Some (norm m)) ms"
  using scan_stream[OF assms, of "[]"] by (simp add: decode_encode)

text \<open>One message too long and nothing after it arrives.\<close>

lemma scan_stream_too_long:
  assumes "\<forall>m \<in> set ms. length (encode m) < max_token" "max_token \<le> length (encode m)"
  shows "scan_lines (concat (map (\<lambda>m. encode m @ [newline]) (ms @ m # ms'))) = map encode ms"
  using scan_stream[OF assms(1), of "concat (map (\<lambda>m. encode m @ [newline]) (m # ms'))"]
    scan_lines_long[OF encode_one_line assms(2), of "[newline] @ concat (map (\<lambda>m. encode m @ [newline]) ms')"]
  by simp

end

section \<open>The JSON message\<close>

record forwardMsg =
  msg_asset :: string
  msg_data :: string

definition zero_msg :: forwardMsg where
  "zero_msg = \<lparr>msg_asset = [], msg_data = []\<rparr>"

definition msg_fields :: "forwardMsg fields" where
  "msg_fields =
     [(''asset'', field msg_asset msg_asset_update dec_string),
      (''data'', field msg_data msg_data_update dec_string)]"

text \<open>\<open>json.Marshal(msg)\<close> and \<open>json.Unmarshal(line, &msg)\<close>.\<close>

definition marshal_msg :: "forwardMsg \<Rightarrow> bytes" where
  "marshal_msg m = print_json (JObj [(''asset'', JStr (msg_asset m)), (''data'', JStr (msg_data m))])"

definition unmarshal_msg :: "bytes \<Rightarrow> forwardMsg option" where
  "unmarshal_msg line = unmarshal (dec_struct msg_fields) zero_msg line"

definition norm_msg :: "forwardMsg \<Rightarrow> forwardMsg" where
  "norm_msg m = \<lparr>msg_asset = sanitize (msg_asset m), msg_data = sanitize (msg_data m)\<rparr>"

lemma marshal_msg_text:
  "marshal_msg m = ''{'' @ quote_string ''asset'' @ '':'' @ quote_string (msg_asset m) @ '','' @
     quote_string ''data'' @ '':'' @ quote_string (msg_data m) @ ''}''"
  by (simp add: marshal_msg_def)

lemma quote_plain: "quote_string ''asset'' = quote # ''asset'' @ [quote]"
  "quote_string ''data'' = quote # ''data'' @ [quote]"
  by code_simp+

lemma sanitize_names: "sanitize ''asset'' = ''asset''" "sanitize ''data'' = ''data''"
  by code_simp+

lemma marshal_msg_printable: "x \<in> set (marshal_msg m) \<Longrightarrow> 32 \<le> byte x"
  unfolding marshal_msg_text quote_plain unfolding quote_string_def
  by (auto simp: quote_def byte_def dest: quote_body_printable[unfolded byte_def])

lemma length_marshal_msg:
  "length (marshal_msg m) \<le> 6 * (length (msg_asset m) + length (msg_data m)) + 22"
  unfolding marshal_msg_text quote_plain
  using length_quote_body[of "msg_asset m"] length_quote_body[of "msg_data m"]
  by (simp add: quote_string_def)

lemma unmarshal_marshal_msg: "unmarshal_msg (marshal_msg m) = Some (norm_msg m)"
proof -
  let ?j = "JObj [(''asset'', JStr (msg_asset m)), (''data'', JStr (msg_data m))]"
  have "unmarshal_msg (marshal_msg m) = dec_struct msg_fields zero_msg (json_clean ?j)"
    unfolding unmarshal_msg_def marshal_msg_def
    by (rule unmarshal_print) (simp_all add: max_nesting_def)
  then show ?thesis
    by (simp add: sanitize_names dec_struct_def find_field_def msg_fields_def field_def dec_simps
        zero_msg_def norm_msg_def)
qed

interpretation wire: line_codec marshal_msg unmarshal_msg norm_msg
proof unfold_locales
  fix m :: forwardMsg
  show "unmarshal_msg (marshal_msg m) = Some (norm_msg m)" by (rule unmarshal_marshal_msg)
  show "newline \<notin> set (marshal_msg m)"
    using marshal_msg_printable[of newline m] by (auto simp: newline_def byte_def)
  show "carriage_return \<notin> set (marshal_msg m)"
    using marshal_msg_printable[of carriage_return m] by (auto simp: carriage_return_def byte_def)
qed

end
