(* ===== verification/GraderListener.thy ===== *)
theory GraderListener
  imports GraderServe ForwardWire
begin

text \<open>
  \<open>services/relay/grader/listener.go\<close>: the internal port of the grader. A connection is the bytes
  it delivers until it ends; each accepted connection has a goroutine of its own, whose calls of
  \<open>Ingest\<close> are atomic.
\<close>

text \<open>The body of the scan loop, for one token.\<close>

definition handle_line ::
  "('re \<Rightarrow> string \<Rightarrow> bool) \<Rightarrow> ('c \<Rightarrow> bytes \<Rightarrow> ('w, 'e, unit) call) \<Rightarrow> bytes \<Rightarrow>
     ('re, 'c) backend \<Rightarrow> 'w \<Rightarrow> ('re, 'c) backend \<times> 'w" where
  "handle_line matches write line b w =
     (case unmarshal_msg line of
        None \<Rightarrow> (b, w)
      | Some msg \<Rightarrow>
          if msg_asset msg = [] then (b, w)
          else Ingest matches write (msg_asset msg) (msg_data msg) b w)"

fun handle_lines ::
  "('re \<Rightarrow> string \<Rightarrow> bool) \<Rightarrow> ('c \<Rightarrow> bytes \<Rightarrow> ('w, 'e, unit) call) \<Rightarrow> bytes list \<Rightarrow>
     ('re, 'c) backend \<Rightarrow> 'w \<Rightarrow> ('re, 'c) backend \<times> 'w" where
  "handle_lines matches write [] b w = (b, w)"
| "handle_lines matches write (l # ls) b w =
     (let (b1, w1) = handle_line matches write l b w in handle_lines matches write ls b1 w1)"

definition handleForwarderConn ::
  "('re \<Rightarrow> string \<Rightarrow> bool) \<Rightarrow> ('c \<Rightarrow> bytes \<Rightarrow> ('w, 'e, unit) call) \<Rightarrow> bytes \<Rightarrow>
     ('re, 'c) backend \<Rightarrow> 'w \<Rightarrow> ('re, 'c) backend \<times> 'w" where
  "handleForwarderConn matches write stream = handle_lines matches write (scan_lines stream)"

text \<open>What a token contributes: nothing, or one chunk of one asset.\<close>

definition event_of_line :: "bytes \<Rightarrow> (string \<times> bytes) option" where
  "event_of_line line =
     (case unmarshal_msg line of
        None \<Rightarrow> None
      | Some msg \<Rightarrow> if msg_asset msg = [] then None else Some (msg_asset msg, msg_data msg))"

lemma handle_lines_run:
  "handle_lines matches write ls b w = ingest_run matches write (List.map_filter event_of_line ls) b w"
proof (induction matches "write" ls b w rule: handle_lines.induct)
  case (2 matches wr l ls b w)
  have IH: "handle_lines matches wr ls (fst r) (snd r) =
      ingest_run matches wr (List.map_filter event_of_line ls) (fst r) (snd r)"
    if "r = handle_line matches wr l b w" for r
    using 2[of r "fst r" "snd r"] that by simp
  show ?case
  proof (cases "event_of_line l")
    case None
    then have "handle_line matches wr l b w = (b, w)"
      by (simp add: handle_line_def event_of_line_def split: option.splits if_splits)
    with None IH show ?thesis by (simp add: map_filter_simps)
  next
    case (Some e)
    then have "handle_line matches wr l b w = Ingest matches wr (fst e) (snd e) b w"
      by (auto simp: handle_line_def event_of_line_def split: option.splits if_splits)
    with Some IH show ?thesis by (cases e) (simp add: map_filter_simps split_beta)
  qed
qed (simp add: map_filter_simps)

lemma scan_lines_split:
  assumes "newline \<notin> set l" "length l < max_token"
  shows "handleForwarderConn matches write (l @ newline # r) b w =
    (let (b1, w1) = handle_line matches write (drop_cr l) b w
     in handleForwarderConn matches write r b1 w1)"
  using assms by (simp add: handleForwarderConn_def scan_lines_line)

text \<open>
  A line that is no message, or one without an asset, changes nothing: the connection goes
  on with the next line as if it had not been sent.
\<close>
theorem bad_line_skipped:
  assumes "newline \<notin> set l" "length l < max_token"
    "\<forall>msg. unmarshal_msg (drop_cr l) = Some msg \<longrightarrow> msg_asset msg = []"
  shows "handleForwarderConn matches write (l @ newline # r) b w = handleForwarderConn matches write r b w"
proof -
  have "handle_line matches write (drop_cr l) b w = (b, w)"
    using assms(3) by (auto simp: handle_line_def split: option.splits)
  then show ?thesis by (simp add: scan_lines_split[OF assms(1,2)])
qed

theorem bad_line_skipped_witness:
  "handleForwarderConn (=) (conn_write {}) (''oops!'' @ newline # ''{}'') (be demo1) (outbox demo1) =
     handleForwarderConn (=) (conn_write {}) ''{}'' (be demo1) (outbox demo1)"
proof (rule bad_line_skipped)
  show "newline \<notin> set ''oops!''" "length ''oops!'' < max_token"
    by (simp_all add: newline_def max_token_def)
  have "unmarshal_msg (drop_cr ''oops!'') = None" by code_simp
  then show "\<forall>msg. unmarshal_msg (drop_cr ''oops!'') = Some msg \<longrightarrow> msg_asset msg = []" by simp
qed

text \<open>
  One line of a MiB or more ends the connection's loop: neither it nor anything after it is
  read, whatever follows.
\<close>
theorem long_line_closes:
  assumes "newline \<notin> set l" "max_token \<le> length l"
  shows "handleForwarderConn matches write (l @ r) b w = (b, w)"
  using scan_lines_long[OF assms, of r] by (simp add: handleForwarderConn_def)

theorem long_line_closes_witness:
  "handleForwarderConn (=) (conn_write {}) (replicate max_token CHR ''x'' @ newline # ''{}'') (be demo1) (outbox demo1) =
     (be demo1, outbox demo1)"
  by (rule long_line_closes) (simp_all add: newline_def)

lemma forward_run:
  assumes "\<forall>m \<in> set ms. msg_asset m \<noteq> [] \<and> length (msg_asset m) \<le> 63 \<and> length (msg_data m) \<le> 32 * 1024"
  shows "handleForwarderConn matches write (concat (map (\<lambda>m. marshal_msg m @ [newline]) ms)) b w =
    ingest_run matches write (map (\<lambda>m. (sanitize (msg_asset m), sanitize (msg_data m))) ms) b w"
proof -
  have "\<forall>m \<in> set ms. length (marshal_msg m) < max_token"
  proof
    fix m assume "m \<in> set ms"
    with assms show "length (marshal_msg m) < max_token"
      using length_marshal_msg[of m] by (force simp: max_token_def)
  qed
  then have "scan_lines (concat (map (\<lambda>m. marshal_msg m @ [newline]) ms)) = map marshal_msg ms"
    using wire.scan_stream[of ms "[]"] by simp
  moreover have "List.map_filter event_of_line (map marshal_msg ms) =
      map (\<lambda>m. (sanitize (msg_asset m), sanitize (msg_data m))) ms"
    using assms
  proof (induction ms)
    case (Cons m ms)
    have "sanitize (msg_asset m) \<noteq> []" using Cons.prems by (simp add: sanitize_eq_Nil)
    with Cons show ?case
      by (simp add: map_filter_simps event_of_line_def unmarshal_marshal_msg norm_msg_def)
  qed (simp add: map_filter_simps)
  ultimately show ?thesis by (simp add: handleForwarderConn_def handle_lines_run)
qed

text \<open>
  C16: What relay-exec writes is what relay-grader ingests: for messages with an asset name and
  at most 32 KiB of data each, the connection's stream of lines amounts to one call of \<open>Ingest\<close>
  per message, in order, with that asset and that data made valid UTF-8. The bound is what the
  read buffer of relay-exec gives; such a line never exceeds the scanner's limit.
\<close>
theorem forwarded_is_ingested:
  assumes "\<forall>m \<in> set ms. msg_asset m \<noteq> [] \<and> length (msg_asset m) \<le> 63 \<and> length (msg_data m) \<le> 32 * 1024"
  shows "handleForwarderConn matches write (concat (map (\<lambda>m. marshal_msg m @ [newline]) ms)) b w =
    ingest_run matches write (map (\<lambda>m. (sanitize (msg_asset m), sanitize (msg_data m))) ms) b w"
  using assms by (rule forward_run)

theorem forwarded_is_ingested_witness:
  "handleForwarderConn (=) (conn_write {}) (marshal_msg \<lparr>msg_asset = ''vm'', msg_data = [CHR ''o'', CHR ''k'', newline]\<rparr> @ [newline])
     (be demo1) (outbox demo1) = (be demo2, outbox demo2)"
proof -
  have "sanitize ''vm'' = ''vm''" "sanitize [CHR ''o'', CHR ''k'', newline] = [CHR ''o'', CHR ''k'', newline]"
    by code_simp+
  then show ?thesis
    using forwarded_is_ingested[of "[\<lparr>msg_asset = ''vm'', msg_data = [CHR ''o'', CHR ''k'', newline]\<rparr>]"
      "(=)" "conn_write {}" "be demo1" "outbox demo1"]
    by (simp add: demo2_def split_beta)
qed

text \<open>
  Output that was valid UTF-8 reaches the grader corrupted when a read of relay-exec ends
  inside a multi-byte character: the two halves are marshalled on their own, each stray byte
  becomes U+FFFD, and a template matching the character never sees it.
\<close>
theorem split_rune_corrupted:
  "let eacute = [CHR 0xC3, CHR 0xA9];
       send = (\<lambda>d. marshal_msg \<lparr>msg_asset = ''vm'', msg_data = d\<rparr> @ [newline]);
       grades_after = (\<lambda>stream. passed (fst (handleForwarderConn (=) (conn_write ({} :: nat set)) stream
          (NewBackend Some [demo_task\<lparr>Template := eacute\<rparr>]) (\<lambda>_. []))) ''hello'')
   in grades_after (send (eacute @ [newline])) \<and>
      \<not> grades_after (send [CHR 0xC3] @ send [CHR 0xA9, newline])"
proof -
  define eacute where "eacute = [CHR 0xC3, CHR 0xA9]"
  define b where "b = (NewBackend Some [demo_task\<lparr>Template := eacute\<rparr>] :: (string, nat) backend)"
  have run: "handleForwarderConn (=) (conn_write {}) (concat (map (\<lambda>m. marshal_msg m @ [newline])
      (map (\<lambda>d. \<lparr>msg_asset = ''vm'', msg_data = d\<rparr>) ds))) b (\<lambda>_. []) =
    ingest_run (=) (conn_write {}) (map (\<lambda>d. (sanitize ''vm'', sanitize d)) ds) b (\<lambda>_. [])"
    if "\<forall>d \<in> set ds. length d \<le> 32 * 1024" for ds
    using forward_run[of "map (\<lambda>d. \<lparr>msg_asset = ''vm'', msg_data = d\<rparr>) ds" "(=)" "conn_write {}" b "\<lambda>_. []"] that
    by (simp add: comp_def)
  have "passed (fst (ingest_run (=) (conn_write {}) (map (\<lambda>d. (sanitize ''vm'', sanitize d)) [eacute @ [newline]]) b (\<lambda>_. []))) ''hello''"
    unfolding b_def eacute_def by code_simp
  moreover have "\<not> passed (fst (ingest_run (=) (conn_write {}) (map (\<lambda>d. (sanitize ''vm'', sanitize d)) [[CHR 0xC3], [CHR 0xA9, newline]]) b (\<lambda>_. []))) ''hello''"
    unfolding b_def eacute_def by code_simp
  ultimately show ?thesis
    using run[of "[eacute @ [newline]]"] run[of "[[CHR 0xC3], [CHR 0xA9, newline]]"]
    by (simp add: Let_def b_def eacute_def)
qed

section \<open>Many connections\<close>

text \<open>
  The loop over \<open>Accept\<close>: what each call gives, up to the first error, which is returned unless the
  context has ended; every connection got a goroutine.
\<close>

datatype 'e accepted = Connection bytes | AcceptError bool 'e \<comment> \<open>whether the context has ended\<close>

fun ServeInternalListener :: "'e accepted list \<Rightarrow> 'e option \<times> bytes list" where
  "ServeInternalListener [] = (None, [])"
| "ServeInternalListener (AcceptError ended e # as) = ((if ended then None else Some e), [])"
| "ServeInternalListener (Connection stream # as) =
     (let (r, conns) = ServeInternalListener as in (r, stream # conns))"

text \<open>The goroutines, interleaved line by line: whose turn it is comes from \<open>sched\<close>.\<close>

fun serve_conns ::
  "('re \<Rightarrow> string \<Rightarrow> bool) \<Rightarrow> ('c \<Rightarrow> bytes \<Rightarrow> ('w, 'e, unit) call) \<Rightarrow> nat list \<Rightarrow> bytes list list \<Rightarrow>
     ('re, 'c) backend \<Rightarrow> 'w \<Rightarrow> ('re, 'c) backend \<times> 'w" where
  "serve_conns matches write [] conns b w = (b, w)"
| "serve_conns matches write (i # sched) conns b w =
     (if i < length conns then
        (case conns ! i of
           [] \<Rightarrow> serve_conns matches write sched conns b w
         | l # ls \<Rightarrow> (let (b1, w1) = handle_line matches write l b w
                      in serve_conns matches write sched (conns[i := ls]) b1 w1))
      else serve_conns matches write sched conns b w)"

fun lines_taken :: "nat list \<Rightarrow> bytes list list \<Rightarrow> bytes list" where
  "lines_taken [] conns = []"
| "lines_taken (i # sched) conns =
     (if i < length conns then
        (case conns ! i of [] \<Rightarrow> lines_taken sched conns | l # ls \<Rightarrow> l # lines_taken sched (conns[i := ls]))
      else lines_taken sched conns)"

text \<open>Under every schedule the backend sees one sequence of lines, as from a single connection.\<close>

lemma serve_conns_run:
  "serve_conns matches write sched conns b w =
     ingest_run matches write (List.map_filter event_of_line (lines_taken sched conns)) b w"
proof -
  have "serve_conns matches write sched conns b w = handle_lines matches write (lines_taken sched conns) b w"
    by (induction sched arbitrary: conns b w) (auto split: list.split prod.split)
  then show ?thesis by (simp only: handle_lines_run)
qed

end
