(* ===== verification/Forwarder.thy ===== *)
theory Forwarder
  imports ForwardWire "HOL-Library.Sublist"
begin

text \<open>
  \<open>services/relay/exec/forwarder.go\<close>: the fire-and-forget queue of terminal output towards
  relay-grader. \<open>Send\<close> and \<open>Close\<close> are functions on the forwarder; the background goroutine
  \<open>run\<close>, with \<open>drainInto\<close> inlined where it is called, is a step relation whose nondeterminism
  is the network (a dial or a write may fail) and Go's \<open>select\<close> (any ready case may be taken).
  \<open>select\<close> with both a message and the closed \<open>done\<close> channel ready is one such choice.
\<close>

definition forwarderChanCapacity :: nat where "forwarderChanCapacity = 256"

record forwarder =
  fw_addr :: string
  fw_ch :: "forwardMsg list"
  fw_done :: bool

definition new_forwarder :: "string \<Rightarrow> forwarder" where
  "new_forwarder addr = \<lparr>fw_addr = addr, fw_ch = [], fw_done = False\<rparr>"

definition Send :: "string \<Rightarrow> bytes \<Rightarrow> forwarder \<Rightarrow> forwarder" where
  "Send asset data f =
     (if fw_addr f = [] then f
      else if length (fw_ch f) < forwarderChanCapacity
      then f\<lparr>fw_ch := fw_ch f @ [\<lparr>msg_asset = asset, msg_data = data\<rparr>]\<rparr>
      else f)"

text \<open>\<open>closeOnce.Do(close(done))\<close>; the wait that follows is for \<open>run\<close> to reach \<open>Exited\<close>.\<close>

definition Close :: "forwarder \<Rightarrow> forwarder" where
  "Close f = f\<lparr>fw_done := True\<rparr>"

section \<open>The goroutine\<close>

datatype run_pc =
    NotStarted
  | LoopTop
  | Dialing
  | BackingOff
  | Draining
  | Writing forwardMsg
  | Exited

text \<open>
  \<open>conns\<close> holds the bytes written to each connection, the present one last. \<open>delivered\<close>,
  \<open>accepted\<close> and \<open>lost\<close> only record what happened: the messages written to each connection in
  full, those \<open>Send\<close> queued, and how many a failed write dropped.
\<close>

record fwd_sys =
  fwd :: forwarder
  rpc :: run_pc
  backoff :: nat
  conns :: "bytes list"
  delivered :: "forwardMsg list list"
  accepted :: "forwardMsg list"
  lost :: nat

definition initialBackoff :: nat where "initialBackoff = 500"
definition maxBackoff :: nat where "maxBackoff = 10000"

definition payload :: "forwardMsg \<Rightarrow> bytes" where
  "payload msg = marshal_msg msg @ [newline]"

inductive run_step :: "fwd_sys \<Rightarrow> fwd_sys \<Rightarrow> bool" where
  run_exit: "rpc s = LoopTop \<Longrightarrow> fw_done (fwd s) \<Longrightarrow> run_step s (s\<lparr>rpc := Exited\<rparr>)"
| run_dial: "rpc s = LoopTop \<Longrightarrow> \<not> fw_done (fwd s) \<Longrightarrow> run_step s (s\<lparr>rpc := Dialing\<rparr>)"
| dial_failed: "rpc s = Dialing \<Longrightarrow> run_step s (s\<lparr>rpc := BackingOff\<rparr>)"
| backoff_over: "rpc s = BackingOff \<Longrightarrow>
    run_step s (s\<lparr>rpc := LoopTop, backoff := (if backoff s < maxBackoff then backoff s * 2 else backoff s)\<rparr>)"
| backoff_done: "rpc s = BackingOff \<Longrightarrow> fw_done (fwd s) \<Longrightarrow> run_step s (s\<lparr>rpc := Exited\<rparr>)"
| dialed: "rpc s = Dialing \<Longrightarrow>
    run_step s (s\<lparr>rpc := Draining, backoff := initialBackoff, conns := conns s @ [[]],
      delivered := delivered s @ [[]]\<rparr>)"
| drain_done: "rpc s = Draining \<Longrightarrow> fw_done (fwd s) \<Longrightarrow> run_step s (s\<lparr>rpc := LoopTop\<rparr>)"
| drain_take: "rpc s = Draining \<Longrightarrow> fw_ch (fwd s) = msg # rest \<Longrightarrow>
    run_step s (s\<lparr>fwd := (fwd s)\<lparr>fw_ch := rest\<rparr>, rpc := Writing msg\<rparr>)"
| write_ok: "rpc s = Writing msg \<Longrightarrow>
    run_step s (s\<lparr>rpc := Draining, conns := butlast (conns s) @ [last (conns s) @ payload msg],
      delivered := butlast (delivered s) @ [last (delivered s) @ [msg]]\<rparr>)"
| write_failed: "rpc s = Writing msg \<Longrightarrow> n < length (payload msg) \<Longrightarrow>
    run_step s (s\<lparr>rpc := LoopTop, conns := butlast (conns s) @ [last (conns s) @ take n (payload msg)],
      lost := Suc (lost s)\<rparr>)"

inductive fwd_step :: "fwd_sys \<Rightarrow> fwd_sys \<Rightarrow> bool" where
  fwd_send: "fwd_step s (s\<lparr>fwd := Send asset data (fwd s),
    accepted := accepted s @ drop (length (fw_ch (fwd s))) (fw_ch (Send asset data (fwd s)))\<rparr>)"
| fwd_close: "fwd_step s (s\<lparr>fwd := Close (fwd s)\<rparr>)"
| fwd_run: "run_step s s' \<Longrightarrow> fwd_step s s'"

definition NewForwarder :: "string \<Rightarrow> fwd_sys" where
  "NewForwarder addr =
     \<lparr>fwd = new_forwarder addr, rpc = (if addr = [] then NotStarted else LoopTop),
      backoff = initialBackoff, conns = [], delivered = [], accepted = [], lost = 0\<rparr>"

inductive fwd_reach :: "string \<Rightarrow> fwd_sys \<Rightarrow> bool" for addr where
  fwd_start: "fwd_reach addr (NewForwarder addr)"
| fwd_next: "fwd_reach addr s \<Longrightarrow> fwd_step s s' \<Longrightarrow> fwd_reach addr s'"

inductive_cases run_stepE: "run_step s s'"

section \<open>The queue\<close>

lemma Send_cases:
  obtains (noop) "fw_addr f = []" "Send asset data f = f"
  | (queued) "fw_addr f \<noteq> []" "length (fw_ch f) < forwarderChanCapacity"
      "Send asset data f = f\<lparr>fw_ch := fw_ch f @ [\<lparr>msg_asset = asset, msg_data = data\<rparr>]\<rparr>"
  | (dropped) "fw_addr f \<noteq> []" "forwarderChanCapacity \<le> length (fw_ch f)" "Send asset data f = f"
  by (cases "fw_addr f = []"; cases "length (fw_ch f) < forwarderChanCapacity")
    (simp_all add: Send_def)

definition in_flight :: "run_pc \<Rightarrow> forwardMsg list" where
  "in_flight p = (case p of Writing msg \<Rightarrow> [msg] | _ \<Rightarrow> [])"

lemma in_flight_simps [simp]:
  "in_flight (Writing m) = [m]" "in_flight NotStarted = []" "in_flight LoopTop = []"
  "in_flight Dialing = []" "in_flight BackingOff = []" "in_flight Draining = []" "in_flight Exited = []"
  by (simp_all add: in_flight_def)

text \<open>A connection's bytes: whole lines, then possibly the start of one that failed.\<close>

definition conn_bytes :: "forwardMsg list \<Rightarrow> bytes \<Rightarrow> bool" where
  "conn_bytes ms bs \<longleftrightarrow>
     (\<exists>msg n. n < length (payload msg) \<and> bs = concat (map payload ms) @ take n (payload msg))"

definition connected :: "run_pc \<Rightarrow> bool" where
  "connected p \<longleftrightarrow> p = Draining \<or> (\<exists>msg. p = Writing msg)"

lemma connected_simps [simp]:
  "connected Draining" "connected (Writing m)" "\<not> connected LoopTop" "\<not> connected Dialing"
  "\<not> connected BackingOff" "\<not> connected Exited" "\<not> connected NotStarted"
  by (simp_all add: connected_def)

definition fwd_inv :: "string \<Rightarrow> fwd_sys \<Rightarrow> bool" where
  "fwd_inv addr s \<longleftrightarrow> fw_addr (fwd s) = addr \<and> length (fw_ch (fwd s)) \<le> forwarderChanCapacity \<and>
     (rpc s = NotStarted \<longleftrightarrow> addr = []) \<and>
     subseq (concat (delivered s) @ in_flight (rpc s) @ fw_ch (fwd s)) (accepted s) \<and>
     length (accepted s) =
       length (concat (delivered s)) + length (in_flight (rpc s)) + length (fw_ch (fwd s)) + lost s \<and>
     lost s + (if connected (rpc s) then 1 else 0) \<le> length (conns s) \<and>
     list_all2 conn_bytes (delivered s) (conns s) \<and>
     (connected (rpc s) \<longrightarrow> conns s \<noteq> [] \<and> last (conns s) = concat (map payload (last (delivered s))))"

lemma payload_nonempty [simp]: "payload m \<noteq> []" "0 < length (payload m)"
  by (simp_all add: payload_def)

lemma conn_bytes_whole: "conn_bytes ms (concat (map payload ms))"
  by (auto simp: conn_bytes_def intro!: exI[of _ zero_msg] exI[of _ 0])

lemma list_all2_butlast_last:
  assumes "list_all2 P xs ys" "ys \<noteq> []" "P x y"
  shows "list_all2 P (butlast xs @ [x]) (butlast ys @ [y])"
proof -
  have "length (butlast xs) = length (butlast ys)" using assms(1) by (simp add: list_all2_lengthD)
  moreover have "list_all2 P (butlast xs) (butlast ys)"
    using assms(1) by (auto simp: list_all2_conv_all_nth nth_butlast)
  ultimately show ?thesis using assms(3) by (simp add: list_all2_append)
qed

lemma concat_butlast_last: "xs \<noteq> [] \<Longrightarrow> concat (butlast xs) @ last xs @ ys = concat xs @ ys"
  by (metis append.assoc append_butlast_last_id concat.simps(1,2) concat_append append_Nil2)

lemma sum_butlast_last:
  "xs \<noteq> [] \<Longrightarrow> length (concat (butlast xs)) + length (last xs) = length (concat xs)"
  using arg_cong[OF concat_butlast_last[of xs "[]"], of length] by simp

lemma subseq_drop_middle: "subseq (a @ b @ c) d \<Longrightarrow> subseq (a @ c) d"
  using subseq_order.trans[OF list_emb_append_mono[OF subseq_order.refl
      list_emb_append2[OF subseq_order.refl]]] by blast

lemma NewForwarder_inv [inv_intros]: "fwd_inv addr (NewForwarder addr)"
  by (simp add: fwd_inv_def NewForwarder_def new_forwarder_def)

lemma run_step_inv [inv_intros]:
  assumes "run_step s s'" "fwd_inv addr s"
  shows "fwd_inv addr s'"
  using assms(1)
proof cases
  case dialed
  then show ?thesis
    using assms(2) conn_bytes_whole[of "[]"] by (simp add: fwd_inv_def list_all2_appendI)
next
  case (write_ok msg)
  then have ne: "conns s \<noteq> []" "delivered s \<noteq> []"
    and l: "last (conns s) = concat (map payload (last (delivered s)))"
    using assms(2) by (auto simp: fwd_inv_def)
  have "list_all2 conn_bytes (butlast (delivered s) @ [last (delivered s) @ [msg]])
      (butlast (conns s) @ [last (conns s) @ payload msg])"
    using assms(2) ne l conn_bytes_whole[of "last (delivered s) @ [msg]"]
    by (intro list_all2_butlast_last) (simp_all add: fwd_inv_def)
  moreover have "length (butlast (conns s) @ [last (conns s) @ payload msg]) = length (conns s)"
    using ne by simp
  ultimately show ?thesis
    using assms(2) write_ok ne l by (simp add: fwd_inv_def concat_butlast_last sum_butlast_last del: length_concat)
next
  case (write_failed msg n)
  then have ne: "conns s \<noteq> []" "delivered s \<noteq> []"
    and l: "last (conns s) = concat (map payload (last (delivered s)))"
    using assms(2) by (auto simp: fwd_inv_def)
  have "conn_bytes (last (delivered s)) (last (conns s) @ take n (payload msg))"
    using write_failed l by (auto simp: conn_bytes_def)
  then have "list_all2 conn_bytes (butlast (delivered s) @ [last (delivered s)])
      (butlast (conns s) @ [last (conns s) @ take n (payload msg)])"
    using assms(2) ne by (intro list_all2_butlast_last) (simp_all add: fwd_inv_def)
  moreover have "subseq (concat (delivered s) @ fw_ch (fwd s)) (accepted s)"
    using assms(2) write_failed subseq_drop_middle[of _ "[msg]"] by (auto simp: fwd_inv_def)
  moreover have "length (butlast (conns s) @ [last (conns s) @ take n (payload msg)]) = length (conns s)"
    using ne by simp
  ultimately show ?thesis using assms(2) write_failed ne by (simp add: fwd_inv_def)
qed (use assms(2) in \<open>auto simp: fwd_inv_def\<close>)

lemma fwd_step_inv [inv_intros]:
  assumes "fwd_step s s'" "fwd_inv addr s"
  shows "fwd_inv addr s'"
  using assms(1)
proof cases
  case (fwd_send asset data)
  show ?thesis
  proof (cases rule: Send_cases[of "fwd s" asset data])
    case queued
    have "subseq ((concat (delivered s) @ in_flight (rpc s) @ fw_ch (fwd s)) @ [m]) (accepted s @ [m])" for m
      using assms(2) by (intro list_emb_append_mono) (simp_all add: fwd_inv_def)
    with queued assms(2) show ?thesis unfolding fwd_send fwd_inv_def by simp
  qed (use assms(2) fwd_send in \<open>simp_all add: fwd_inv_def\<close>)
next
  case fwd_close
  then show ?thesis using assms(2) by (simp add: fwd_inv_def Close_def)
next
  case fwd_run
  then show ?thesis using assms(2) run_step_inv by blast
qed

lemma fwd_reach_inv: "fwd_reach addr s \<Longrightarrow> fwd_inv addr s"
  by (induction rule: fwd_reach.induct) (auto intro: NewForwarder_inv fwd_step_inv)

text \<open>A first session: one message queued, the first connection takes it.\<close>

definition sess1 :: fwd_sys where
  "sess1 = (NewForwarder ''g:1'')\<lparr>fwd := Send ''vm'' ''x'' (new_forwarder ''g:1''),
     accepted := [\<lparr>msg_asset = ''vm'', msg_data = ''x''\<rparr>]\<rparr>"

definition sess2 :: fwd_sys where
  "sess2 = sess1\<lparr>rpc := Draining, conns := [[]], delivered := [[]]\<rparr>"

definition sess3 :: fwd_sys where
  "sess3 = sess2\<lparr>fwd := new_forwarder ''g:1'', rpc := Draining,
     conns := [payload \<lparr>msg_asset = ''vm'', msg_data = ''x''\<rparr>],
     delivered := [[\<lparr>msg_asset = ''vm'', msg_data = ''x''\<rparr>]]\<rparr>"

lemmas sess_defs = sess1_def sess2_def sess3_def NewForwarder_def new_forwarder_def Send_def
  forwarderChanCapacity_def initialBackoff_def

lemma run_reach: "fwd_reach addr s \<Longrightarrow> run_step s s' \<Longrightarrow> fwd_reach addr s'"
  by (blast intro: fwd_next fwd_run)

lemma sess_reach: "fwd_reach ''g:1'' sess1" "fwd_reach ''g:1'' sess2" "fwd_reach ''g:1'' sess3"
proof -
  show 1: "fwd_reach ''g:1'' sess1"
    using fwd_next[OF fwd_start fwd_send[of "NewForwarder ''g:1''" "''vm''" "''x''"]]
    by (simp add: sess_defs)
  have "fwd_reach ''g:1'' (sess1\<lparr>rpc := Dialing\<rparr>)"
    by (rule run_reach[OF 1 run_dial]) (simp_all add: sess_defs)
  from run_reach[OF this dialed] show 2: "fwd_reach ''g:1'' sess2"
    by (simp add: sess_defs)
  let ?m = "\<lparr>msg_asset = ''vm'', msg_data = ''x''\<rparr>"
  have "fwd_reach ''g:1'' (sess2\<lparr>fwd := (fwd sess2)\<lparr>fw_ch := []\<rparr>, rpc := Writing ?m\<rparr>)"
    by (rule run_reach[OF 2 drain_take]) (simp_all add: sess_defs)
  from run_reach[OF this write_ok[of _ ?m]] show "fwd_reach ''g:1'' sess3"
    by (simp add: sess_defs)
qed

text \<open>
  C22: However dials and writes fail and reconnect, the messages that reach the grader's
  connections in full are a subsequence of those \<open>Send\<close> queued: in order, none twice. Everything
  queued is delivered, being written, still queued or lost, and at most one message is lost per
  connection. Each connection carries whole lines only, up to a last one cut short. The queue
  never exceeds its capacity.
\<close>
theorem forwarder_in_order:
  assumes "fwd_reach addr s"
  shows "subseq (concat (delivered s)) (accepted s) \<and>
    length (accepted s) =
      length (concat (delivered s)) + length (in_flight (rpc s)) + length (fw_ch (fwd s)) + lost s \<and>
    lost s \<le> length (conns s) \<and> list_all2 conn_bytes (delivered s) (conns s) \<and>
    length (fw_ch (fwd s)) \<le> forwarderChanCapacity"
proof -
  have inv: "fwd_inv addr s" using assms by (rule fwd_reach_inv)
  then have "subseq (concat (delivered s)) (accepted s)"
    using subseq_drop_middle[of "concat (delivered s)" "in_flight (rpc s) @ fw_ch (fwd s)" "[]"]
    by (simp add: fwd_inv_def)
  with inv show ?thesis by (auto simp: fwd_inv_def split: if_splits)
qed

theorem forwarder_in_order_witness:
  "subseq [\<lparr>msg_asset = ''vm'', msg_data = ''x''\<rparr>] (accepted sess3) \<and>
     list_all2 conn_bytes (delivered sess3) (conns sess3)"
  using forwarder_in_order[OF sess_reach(3)] by (simp add: sess3_def)

section \<open>The retry delay\<close>

definition backoff_values :: "nat list" where
  "backoff_values = [500, 1000, 2000, 4000, 8000, 16000]"

lemma backoff_reach_inv: "fwd_reach addr s \<Longrightarrow> backoff s \<in> set backoff_values"
proof (induction rule: fwd_reach.induct)
  case fwd_start
  show ?case by (simp add: NewForwarder_def backoff_values_def initialBackoff_def)
next
  case (fwd_next s s')
  show ?case
    using fwd_next(2)
  proof cases
    case fwd_run
    then show ?thesis
      using fwd_next.IH by cases (auto simp: backoff_values_def initialBackoff_def maxBackoff_def)
  qed (use fwd_next.IH in simp_all)
qed

lemma backoff_round:
  assumes "fwd_reach addr s" "rpc s = LoopTop" "\<not> fw_done (fwd s)"
  shows "fwd_reach addr (s\<lparr>rpc := BackingOff\<rparr>)"
    "fwd_reach addr (s\<lparr>rpc := LoopTop, backoff := (if backoff s < maxBackoff then backoff s * 2 else backoff s)\<rparr>)"
proof -
  have 1: "fwd_reach addr (s\<lparr>rpc := Dialing\<rparr>)"
    using assms by (intro run_reach[OF assms(1) run_dial])
  from run_reach[OF 1 dial_failed] show 2: "fwd_reach addr (s\<lparr>rpc := BackingOff\<rparr>)" by simp
  from run_reach[OF 2 backoff_over]
  show "fwd_reach addr (s\<lparr>rpc := LoopTop, backoff := (if backoff s < maxBackoff then backoff s * 2 else backoff s)\<rparr>)"
    by (cases "backoff s < maxBackoff") simp_all
qed

lemma backoff_reached:
  assumes "addr \<noteq> []" "v \<in> set backoff_values"
  shows "\<exists>s. fwd_reach addr s \<and> rpc s = LoopTop \<and> \<not> fw_done (fwd s) \<and> backoff s = v"
proof -
  define R where "R v \<longleftrightarrow> (\<exists>s. fwd_reach addr s \<and> rpc s = LoopTop \<and> \<not> fw_done (fwd s) \<and> backoff s = v)" for v
  have next_delay: "R (v * 2)" if R: "R v" "v < maxBackoff" for v
  proof -
    obtain s where s: "fwd_reach addr s" "rpc s = LoopTop" "\<not> fw_done (fwd s)" "backoff s = v"
      using R(1) unfolding R_def by blast
    with backoff_round(2)[OF s(1-3)] R(2) show ?thesis
      unfolding R_def by (intro exI[of _ "s\<lparr>rpc := LoopTop, backoff := v * 2\<rparr>"]) simp
  qed
  have "R 500"
    unfolding R_def using assms(1)
    by (intro exI[of _ "NewForwarder addr"])
      (simp add: fwd_start, simp add: NewForwarder_def new_forwarder_def initialBackoff_def)
  moreover then have "R 1000" using next_delay[of 500] by (simp add: maxBackoff_def)
  moreover then have "R 2000" using next_delay[of 1000] by (simp add: maxBackoff_def)
  moreover then have "R 4000" using next_delay[of 2000] by (simp add: maxBackoff_def)
  moreover then have "R 8000" using next_delay[of 4000] by (simp add: maxBackoff_def)
  moreover then have "R 16000" using next_delay[of 8000] by (simp add: maxBackoff_def)
  ultimately show ?thesis using assms(2) by (auto simp: backoff_values_def R_def)
qed

text \<open>
  The delays between dials are exactly the powers of two times half a second up to sixteen
  seconds: doubling stops only once the delay has passed the ten-second maximum, so the longest
  delay exceeds \<open>maxBackoff\<close>.
\<close>
theorem backoff_delays:
  assumes "addr \<noteq> []"
  shows "{backoff s | s. fwd_reach addr s \<and> rpc s = BackingOff} = {500, 1000, 2000, 4000, 8000, 16000} \<and>
    maxBackoff < 16000"
proof -
  have "v \<in> {backoff s | s. fwd_reach addr s \<and> rpc s = BackingOff}" if V: "v \<in> set backoff_values" for v
  proof -
    obtain s where s: "fwd_reach addr s" "rpc s = LoopTop" "\<not> fw_done (fwd s)" "backoff s = v"
      using backoff_reached[OF assms V] by auto
    then show ?thesis using backoff_round(1)[OF s(1-3)] by (intro CollectI exI[of _ "s\<lparr>rpc := BackingOff\<rparr>"]) simp
  qed
  then have "{backoff s | s. fwd_reach addr s \<and> rpc s = BackingOff} = set backoff_values"
    using backoff_reach_inv by blast
  then show ?thesis by (simp add: backoff_values_def maxBackoff_def)
qed

theorem backoff_delays_witness:
  "16000 \<in> {backoff s | s. fwd_reach ''grader:8081'' s \<and> rpc s = BackingOff}"
  using backoff_delays[of "''grader:8081''"] by simp

section \<open>Closing\<close>

text \<open>What is left for the goroutine once \<open>done\<close> is closed and no one sends any more.\<close>

fun pc_rank :: "run_pc \<Rightarrow> nat" where
  "pc_rank NotStarted = 0"
| "pc_rank Exited = 0"
| "pc_rank LoopTop = 1"
| "pc_rank BackingOff = 2"
| "pc_rank Draining = 2"
| "pc_rank (Writing m) = 3"
| "pc_rank Dialing = 3"

definition steps_left :: "fwd_sys \<Rightarrow> nat" where
  "steps_left s = 2 * length (fw_ch (fwd s)) + pc_rank (rpc s)"

lemma run_step_down:
  assumes "run_step s s'" "fw_done (fwd s)"
  shows "steps_left s' < steps_left s \<and> fw_done (fwd s')"
  using assms(1) by cases (use assms(2) in \<open>simp_all add: steps_left_def\<close>)

lemma run_steps_down:
  "(run_step ^^ n) s s' \<Longrightarrow> fw_done (fwd s) \<Longrightarrow> steps_left s' + n \<le> steps_left s"
proof (induction n arbitrary: s)
  case (Suc n)
  from Suc.prems(1) obtain t where t: "run_step s t" "(run_step ^^ n) t s'"
    by (metis relpowp_Suc_E2)
  with run_step_down[OF t(1) Suc.prems(2)] Suc.IH[OF t(2)] show ?case by linarith
qed simp

lemma run_progress:
  assumes "fw_done (fwd s)" "rpc s \<noteq> Exited" "rpc s \<noteq> NotStarted"
  shows "\<exists>s'. run_step s s'"
  using assms by (cases "rpc s") (blast intro: run_step.intros)+

text \<open>
  After \<open>Close\<close>, and with no further \<open>Send\<close>, the background goroutine can take at most
  \<open>2 * queued + 3\<close> more steps, whatever the network does and whichever ready case each
  \<open>select\<close> takes, and it never gets stuck before it has exited; so the wait in \<open>Close\<close> ends.
\<close>
theorem close_terminates:
  assumes "fw_done (fwd s)" "(run_step ^^ n) s s'"
  shows "n \<le> 2 * length (fw_ch (fwd s)) + 3 \<and>
    (rpc s' = Exited \<or> rpc s' = NotStarted \<or> (\<exists>s''. run_step s' s''))"
proof -
  have "fw_done (fwd s')" using assms(2,1)
  proof (induction n arbitrary: s)
    case (Suc n)
    from Suc.prems(1) obtain t where "run_step s t" "(run_step ^^ n) t s'"
      by (metis relpowp_Suc_E2)
    then show ?case using Suc.IH run_step_down Suc.prems(2) by blast
  qed simp
  moreover have "pc_rank (rpc s) \<le> 3" by (cases "rpc s") simp_all
  then have "n \<le> 2 * length (fw_ch (fwd s)) + 3"
    using run_steps_down[OF assms(2,1)] by (simp add: steps_left_def)
  ultimately show ?thesis using run_progress[of s'] by blast
qed

theorem close_terminates_witness:
  "\<exists>s''. run_step (sess2\<lparr>fwd := Close (fwd sess2)\<rparr>) s''"
  using close_terminates[of "sess2\<lparr>fwd := Close (fwd sess2)\<rparr>" 0]
  by (simp add: Close_def sess2_def)

end
