(* ===== verification/Http.thy ===== *)
theory Http
  imports JsonStruct GoStrings
begin

text \<open>
  The part of \<open>net/http\<close> and \<open>net/url\<close> the services use. What a server answers is the argument
  \<open>do\<close> of the clients; whether \<open>http.NewRequest\<close> accepts a URL (it parses it) is the argument
  \<open>url_ok\<close>. A response body is what can be read of it.
\<close>

record http_request =
  Method :: string
  URL :: string
  ReqHeader :: "(string \<times> string) list"
  ReqBody :: bytes

record http_response =
  StatusCode :: int
  Body :: bytes

text \<open>The errors the clients return, without their texts.\<close>

datatype 'e client_error =
    BadRequestURL
  | TransportError 'e
  | UnexpectedStatus int
  | MalformedBody
  | EmptyResult
  | NotFoundError
  | ReauthFailed "'e client_error"

type_synonym ('w, 'e) transport = "http_request \<Rightarrow> ('w, 'e, http_response) call"

text \<open>\<open>http.NewRequest\<close> followed by \<open>httpClient.Do\<close>.\<close>

definition send_request ::
  "(string \<Rightarrow> bool) \<Rightarrow> ('w, 'e) transport \<Rightarrow> http_request \<Rightarrow> ('w, 'e client_error, http_response) call" where
  "send_request url_ok do req w =
     (if \<not> url_ok (URL req) then (Inl BadRequestURL, w)
      else (case do req w of (Inl e, w1) \<Rightarrow> (Inl (TransportError e), w1) | (Inr resp, w1) \<Rightarrow> (Inr resp, w1)))"

definition StatusOK :: int where "StatusOK = 200"
definition StatusNoContent :: int where "StatusNoContent = 204"
definition StatusBadRequest :: int where "StatusBadRequest = 400"
definition StatusUnauthorized :: int where "StatusUnauthorized = 401"
definition StatusForbidden :: int where "StatusForbidden = 403"
definition StatusNotFound :: int where "StatusNotFound = 404"
definition StatusServiceUnavailable :: int where "StatusServiceUnavailable = 503"

lemmas status_defs = StatusOK_def StatusNoContent_def StatusBadRequest_def StatusUnauthorized_def
  StatusForbidden_def StatusNotFound_def StatusServiceUnavailable_def

section \<open>Escaping\<close>

definition hex_upper :: "nat \<Rightarrow> char" where
  "hex_upper n = ''0123456789ABCDEF'' ! n"

definition percent :: "char \<Rightarrow> string" where
  "percent c = [CHR ''%'', hex_upper (byte c div 16), hex_upper (byte c mod 16)]"

definition url_unreserved :: "char \<Rightarrow> bool" where
  "url_unreserved c \<longleftrightarrow> (48 \<le> byte c \<and> byte c \<le> 57) \<or> (65 \<le> byte c \<and> byte c \<le> 90) \<or>
     (97 \<le> byte c \<and> byte c \<le> 122) \<or> c \<in> set ''-_.~''"

text \<open>\<open>url.QueryEscape\<close>, \<open>url.Values.Encode\<close> (the keys given in byte order) and \<open>url.PathEscape\<close>.\<close>

definition query_escape :: "string \<Rightarrow> string" where
  "query_escape s = concat (map (\<lambda>c.
     if url_unreserved c then [c] else if c = CHR '' '' then ''+'' else percent c) s)"

definition encode_values :: "(string \<times> string) list \<Rightarrow> string" where
  "encode_values kvs = join ''&'' (map (\<lambda>(k, v). query_escape k @ ''='' @ query_escape v) kvs)"

definition path_escape :: "string \<Rightarrow> string" where
  "path_escape s = concat (map (\<lambda>c.
     if url_unreserved c \<or> c \<in> set ''$+=:@'' \<or> c = CHR 0x26 then [c] else percent c) s)"

lemma path_escape_Nil [simp]: "path_escape [] = []"
  by (simp add: path_escape_def)

lemma path_escape_Cons:
  "path_escape (c # s) =
     (if url_unreserved c \<or> c \<in> set ''$+=:@'' \<or> c = CHR 0x26 then [c] else percent c) @ path_escape s"
  by (simp add: path_escape_def)

lemma hex_upper_plain: "n < 16 \<Longrightarrow> hex_upper n \<notin> set ''/?#''"
proof -
  have "\<forall>n \<in> set [0..<16]. hex_upper n \<notin> set ''/?#''" by (simp add: upt_rec hex_upper_def)
  then show "n < 16 \<Longrightarrow> ?thesis" by simp
qed

text \<open>An escaped segment cannot leave its place in the path: no slash, no query, no fragment.\<close>

lemma path_escape_segment: "set (path_escape s) \<inter> set ''/?#'' = {}"
proof (induction s)
  case (Cons c s)
  have "byte c div 16 < 16" "byte c mod 16 < 16" using byte_less[of c] by (simp_all del: byte_less)
  then have "hex_upper (byte c div 16) \<notin> set ''/?#''" "hex_upper (byte c mod 16) \<notin> set ''/?#''"
    by (simp_all only: hex_upper_plain not_False_eq_True)
  then have "set (percent c) \<inter> set ''/?#'' = {}" by (simp add: percent_def)
  with Cons show ?case
    by (auto simp: path_escape_Cons url_unreserved_def byte_def)
qed simp

lemma path_escape_id:
  "\<forall>c \<in> set s. url_unreserved c \<Longrightarrow> path_escape s = s"
  by (induction s) (simp_all add: path_escape_Cons)

end
