(* ===== verification/Urls.thy ===== *)
theory Urls
  imports Http
begin

text \<open>
  What the services use of \<open>net/url\<close> and of the routing of \<open>net/http\<close>: unescaping, the part of
  \<open>url.Parse\<close> after the authority, and \<open>http.ServeMux\<close> for patterns without method and host.
\<close>

section \<open>Unescaping and parsing\<close>

fun path_unescape :: "string \<Rightarrow> string option" where
  "path_unescape [] = Some []"
| "path_unescape (c # s) =
     (if c = CHR ''%''
      then (case s of
          a # b # r \<Rightarrow>
            (case (hex_val a, hex_val b) of
               (Some x, Some y) \<Rightarrow> map_option (Cons (char_of (16 * x + y))) (path_unescape r)
             | _ \<Rightarrow> None)
        | _ \<Rightarrow> None)
      else map_option (Cons c) (path_unescape s))"

definition control_byte :: "char \<Rightarrow> bool" where
  "control_byte c \<longleftrightarrow> byte c < 32 \<or> byte c = 127"

text \<open>
  \<open>url.Parse\<close> of a text that starts with a scheme and an authority it accepts: \<open>s\<close> is the rest, from
  the slash on, and the result the decoded path. A control byte or a percent sign without two
  hexadecimal digits is an error, then the result is a nil URL.
\<close>

definition parse_after_host :: "string \<Rightarrow> string option" where
  "parse_after_host s =
     (let (u, frag) = (case cut CHR ''#'' s of None \<Rightarrow> (s, []) | Some uf \<Rightarrow> uf);
          p = (case cut CHR ''?'' u of None \<Rightarrow> u | Some pq \<Rightarrow> fst pq)
      in if list_ex control_byte u \<or> path_unescape frag = None then None else path_unescape p)"

text \<open>A text that stands for itself in a URL and is one path segment.\<close>

definition plain_segment :: "string \<Rightarrow> bool" where
  "plain_segment s \<longleftrightarrow> s \<noteq> [] \<and> s \<noteq> ''.'' \<and> s \<noteq> ''..'' \<and>
     list_all (\<lambda>c. \<not> control_byte c \<and> c \<notin> {CHR ''/'', CHR ''%'', CHR ''?'', CHR ''#''}) s"

lemma path_unescape_append:
  "CHR ''%'' \<notin> set a \<Longrightarrow> path_unescape (a @ b) = map_option ((@) a) (path_unescape b)"
  by (induction a) (auto simp: option.map_comp comp_def option.map_ident id_def[symmetric] option.map_id cong: option.map_cong)

lemma path_unescape_id: "CHR ''%'' \<notin> set a \<Longrightarrow> path_unescape a = Some a"
  using path_unescape_append[of a "[]"] by simp

lemma plain_segmentD:
  assumes "plain_segment s"
  shows "s \<noteq> []" "CHR ''/'' \<notin> set s" "CHR ''%'' \<notin> set s" "CHR ''?'' \<notin> set s" "CHR ''#'' \<notin> set s"
    "path_unescape s = Some s" "\<not> list_ex control_byte s"
  using assms by (auto simp: plain_segment_def list_all_iff list_ex_iff intro: path_unescape_id)

lemma parse_after_host_plain:
  assumes "\<not> list_ex control_byte s" "CHR ''%'' \<notin> set s" "CHR ''?'' \<notin> set s" "CHR ''#'' \<notin> set s"
  shows "parse_after_host s = Some s"
  using assms by (simp add: parse_after_host_def path_unescape_id)

section \<open>\<open>http.ServeMux\<close>\<close>

text \<open>
  A pattern that ends in a slash, as its segments; it matches every path below them. \<open>Wild\<close> is a named
  wildcard.
\<close>

datatype segment = Lit string | Wild string

text \<open>The first segment of a path that starts with a slash, unescaped if it can be, and the rest.\<close>

definition first_segment :: "string \<Rightarrow> string \<times> string" where
  "first_segment path =
     (if path = ''/'' then (''/'', [])
      else (let raw = takeWhile (\<lambda>c. c \<noteq> CHR ''/'') (tl path)
            in (case path_unescape raw of None \<Rightarrow> raw | Some s \<Rightarrow> s, dropWhile (\<lambda>c. c \<noteq> CHR ''/'') (tl path))))"

fun match_path :: "segment list \<Rightarrow> string \<Rightarrow> (string \<times> string) list option" where
  "match_path [] path = (if path = [] then None else Some [])"
| "match_path (p # ps) path =
     (if path = [] then None
      else (case first_segment path of (seg, rest) \<Rightarrow>
        (case p of
           Lit l \<Rightarrow> if seg = l then match_path ps rest else None
         | Wild n \<Rightarrow> if seg \<noteq> ''/'' then map_option (Cons (n, seg)) (match_path ps rest) else None)))"

text \<open>A match of the pattern itself, with its final slash and nothing after it.\<close>

definition exact_match :: "segment list \<Rightarrow> string \<Rightarrow> bool" where
  "exact_match ps path \<longleftrightarrow> match_path ps path \<noteq> None \<and> last path = CHR ''/'' \<and>
     Suc (length ps) = length (filter (\<lambda>c. c = CHR ''/'') path)"

text \<open>A pattern of one literal segment, without a final slash.\<close>

definition fixed_route :: "string list \<Rightarrow> string \<Rightarrow> string option" where
  "fixed_route names path =
     (if path = [] then None
      else (case first_segment path of (seg, rest) \<Rightarrow> if rest = [] \<and> seg \<in> set names then Some seg else None))"

text \<open>
  A mux with fixed routes and at most one pattern below which everything matches. \<open>clean\<close> is the
  mux's \<open>cleanPath\<close>. What can happen: the pattern's handler with its path values, another handler, a
  redirect, or 404.
\<close>

datatype routed = Routed "(string \<times> string) list" | RoutedTo string | Redirected | NotRouted

definition serve_mux :: "(string \<Rightarrow> string) \<Rightarrow> string list \<Rightarrow> segment list option \<Rightarrow> string \<Rightarrow> routed" where
  "serve_mux clean names pat escaped =
     (let path = clean escaped in
      case fixed_route names path of
        Some n \<Rightarrow> if path \<noteq> escaped then Redirected else RoutedTo n
      | None \<Rightarrow>
         (case pat of
            None \<Rightarrow> if path \<noteq> escaped then Redirected else NotRouted
          | Some ps \<Rightarrow>
              if last path \<noteq> CHR ''/'' \<and> exact_match ps (path @ ''/'') then Redirected
              else if path \<noteq> escaped then Redirected
              else (case match_path ps path of None \<Rightarrow> NotRouted | Some vs \<Rightarrow> Routed vs)))"

text \<open>A path of plain segments, as a pattern sees it.\<close>

definition path_of :: "string list \<Rightarrow> string" where
  "path_of segs = concat (map (Cons CHR ''/'') segs) @ ''/''"

lemma path_of_simps [simp]: "path_of [] = ''/''" "path_of (s # ss) = CHR ''/'' # s @ path_of ss"
  by (simp_all add: path_of_def)

lemma path_of_Cons: "\<exists>rest. path_of ss = CHR ''/'' # rest"
  by (cases ss) auto

lemma first_segment_until:
  assumes "CHR ''/'' \<notin> set s" "s \<noteq> []"
  shows "first_segment (CHR ''/'' # s @ path_of ss) =
    ((case path_unescape s of None \<Rightarrow> s | Some u \<Rightarrow> u), path_of ss)"
proof -
  obtain rest where r: "path_of ss = CHR ''/'' # rest" using path_of_Cons by blast
  have "takeWhile (\<lambda>c. c \<noteq> CHR ''/'') (s @ CHR ''/'' # rest) = s"
    "dropWhile (\<lambda>c. c \<noteq> CHR ''/'') (s @ CHR ''/'' # rest) = CHR ''/'' # rest"
    using assms(1) by (induction s) auto
  then show ?thesis using assms(2) by (simp add: first_segment_def r)
qed

lemma fixed_route_path_of:
  assumes "CHR ''/'' \<notin> set s" "s \<noteq> []"
  shows "fixed_route names (path_of (s # ss)) = None"
  using first_segment_until[OF assms] path_of_Cons[of ss] by (auto simp: fixed_route_def)

lemma match_path_Lit:
  "plain_segment l \<Longrightarrow> match_path (Lit l # ps) (path_of (l # ss)) = match_path ps (path_of ss)"
  using first_segment_until[of l ss] plain_segmentD[of l] by simp

lemma match_path_Wild:
  assumes "CHR ''/'' \<notin> set s" "s \<noteq> []" "path_unescape s = Some u" "u \<noteq> ''/''"
  shows "match_path (Wild n # ps) (path_of (s # ss)) = map_option (Cons (n, u)) (match_path ps (path_of ss))"
  using first_segment_until[OF assms(1,2)] assms(3,4) by simp

end
