(* ===== verification/ExecBackend.thy ===== *)
theory ExecBackend
  imports Forwarder Urls "HOL-Library.Word"
begin

text \<open>
  \<open>services/relay/exec/backend.go\<close> and the pure parts of \<open>kube.go\<close>: the terminal session. The
  two pump loops of \<open>Serve\<close> are functions of what their reads return; the WebSocket and the
  exec stream's stdin are the arguments \<open>write\<close> and \<open>write_stdin\<close>.
\<close>

section \<open>Output: exec stream to WebSocket and forwarder\<close>

definition read_buffer :: nat where "read_buffer = 32 * 1024"

text \<open>What the reads of an \<open>io.Pipe\<close> return: each write is handed over in pieces of the buffer's size.\<close>

function pipe_reads :: "bytes \<Rightarrow> bytes list" where
  "pipe_reads d = (if d = [] then [] else take read_buffer d # pipe_reads (drop read_buffer d))"
  by pat_completeness auto
termination
  by (relation "measure length") (auto simp: read_buffer_def)

declare pipe_reads.simps [simp del]

text \<open>
  The loop over \<open>stdoutR.Read\<close>, for the chunks the reads return before the end of the stream.
  \<open>send\<close> is \<open>b.Forwarder\<close>, absent when grading is off; \<open>f\<close> is the forwarder's state.
\<close>

fun stdout_loop ::
  "(bytes \<Rightarrow> ('w, 'e, unit) call) \<Rightarrow> (string \<Rightarrow> bytes \<Rightarrow> 'f \<Rightarrow> 'f) option \<Rightarrow> string \<Rightarrow> bytes list \<Rightarrow>
     'w \<Rightarrow> 'f \<Rightarrow> 'w \<times> 'f" where
  "stdout_loop write send assetName [] w f = (w, f)"
| "stdout_loop write send assetName (buf # reads) w f =
     (if buf = [] then stdout_loop write send assetName reads w f
      else (case write buf w of
        (Inl e, w1) \<Rightarrow> (w1, f)
      | (Inr u, w1) \<Rightarrow>
          stdout_loop write send assetName reads w1
            (case send of None \<Rightarrow> f | Some snd_fn \<Rightarrow> snd_fn assetName buf f)))"

lemma concat_pipe_reads: "concat (pipe_reads d) = d"
proof (induction d rule: pipe_reads.induct)
  case (1 d)
  then show ?case by (subst pipe_reads.simps) simp
qed

lemma pipe_reads_bounds: "c \<in> set (pipe_reads d) \<Longrightarrow> c \<noteq> [] \<and> length c \<le> read_buffer"
proof (induction d rule: pipe_reads.induct)
  case (1 d)
  show ?case
  proof (cases "d = []")
    case True
    with 1(2) show ?thesis by (subst (asm) pipe_reads.simps) simp
  next
    case False
    with 1(2) have "c = take read_buffer d \<or> c \<in> set (pipe_reads (drop read_buffer d))"
      by (subst (asm) pipe_reads.simps) simp
    with 1(1)[OF False] False show ?thesis by (auto simp: read_buffer_def)
  qed
qed

text \<open>
  The interface \<open>forwarder\<close> as the session relies on it: a call hands the chunk over or drops it,
  and does nothing else that can be seen.
\<close>

locale output_sink =
  fixes send :: "string \<Rightarrow> bytes \<Rightarrow> 'f \<Rightarrow> 'f"
    and seen :: "'f \<Rightarrow> (string \<times> bytes) list"
    and room :: "'f \<Rightarrow> bool"
  assumes seen_send: "seen (send a d f) = seen f @ (if room f then [(a, d)] else [])"
begin

lemma forwarded_subseq:
  "\<exists>new. seen (snd (stdout_loop write (Some send) a reads w f)) = seen f @ new \<and>
     subseq new (map (Pair a) (filter (\<lambda>b. b \<noteq> []) reads))"
proof (induction reads arbitrary: w f)
  case (Cons buf reads)
  show ?case
  proof (cases "buf = []")
    case True
    with Cons show ?thesis by simp
  next
    case False
    show ?thesis
    proof (cases "write buf w")
      case (Pair r w1)
      show ?thesis
      proof (cases r)
        case (Inl e)
        with Pair False show ?thesis by simp
      next
        case (Inr u)
        obtain new where "seen (snd (stdout_loop write (Some send) a reads w1 (send a buf f))) =
            seen (send a buf f) @ new" "subseq new (map (Pair a) (filter (\<lambda>b. b \<noteq> []) reads))"
          using Cons by blast
        with Pair False Inr show ?thesis
          by (cases "room f") (auto simp: seen_send)
      qed
    qed
  qed
qed simp

end

text \<open>The forwarder's \<open>Send\<close> on its state in a running relay.\<close>

definition send_op :: "string \<Rightarrow> bytes \<Rightarrow> fwd_sys \<Rightarrow> fwd_sys" where
  "send_op asset data s = s\<lparr>fwd := Send asset data (fwd s),
     accepted := accepted s @ drop (length (fw_ch (fwd s))) (fw_ch (Send asset data (fwd s)))\<rparr>"

definition accepted_pairs :: "fwd_sys \<Rightarrow> (string \<times> bytes) list" where
  "accepted_pairs s = map (\<lambda>m. (msg_asset m, msg_data m)) (accepted s)"

definition has_room :: "fwd_sys \<Rightarrow> bool" where
  "has_room s \<longleftrightarrow> fw_addr (fwd s) \<noteq> [] \<and> length (fw_ch (fwd s)) < forwarderChanCapacity"

lemma send_op_step: "fwd_step s (send_op asset data s)"
  unfolding send_op_def by (rule fwd_send)

interpretation fsink: output_sink send_op accepted_pairs has_room
proof unfold_locales
  fix a d f
  show "accepted_pairs (send_op a d f) = accepted_pairs f @ (if has_room f then [(a, d)] else [])"
    by (simp add: accepted_pairs_def send_op_def has_room_def Send_def)
qed

section \<open>Input: WebSocket to stdin and resizes\<close>

definition uint16_le :: "char \<Rightarrow> char \<Rightarrow> 16 word" where
  "uint16_le a b = word_of_nat (byte a) + word_of_nat (byte b) * 256"

text \<open>\<open>\x01\<close>, columns, rows: a message that is taken for a resize and not for input.\<close>

fun resize_frame :: "bytes \<Rightarrow> (16 word \<times> 16 word) option" where
  "resize_frame [t, c0, c1, r0, r1] =
     (if t = CHR 0x01 then Some (uint16_le c0 c1, uint16_le r0 r1) else None)"
| "resize_frame _ = None"

text \<open>
  The goroutine's events: the next message of the client, or the executor taking the size that
  waits in the channel of capacity one. A failing read or write ends the loop.
\<close>

datatype input_event = Message bytes | SizeTaken

record input_state =
  resizeCh :: "(16 word \<times> 16 word) option"
  sizes :: "(16 word \<times> 16 word) list"

fun stdin_loop ::
  "(bytes \<Rightarrow> ('w, 'e, unit) call) \<Rightarrow> input_event list \<Rightarrow> input_state \<Rightarrow> 'w \<Rightarrow> input_state \<times> 'w" where
  "stdin_loop write_stdin [] s w = (s, w)"
| "stdin_loop write_stdin (SizeTaken # evs) s w =
     (case resizeCh s of
        None \<Rightarrow> stdin_loop write_stdin evs s w
      | Some sz \<Rightarrow> stdin_loop write_stdin evs (s\<lparr>resizeCh := None, sizes := sizes s @ [sz]\<rparr>) w)"
| "stdin_loop write_stdin (Message data # evs) s w =
     (case resize_frame data of
        Some sz \<Rightarrow>
          stdin_loop write_stdin evs (if resizeCh s = None then s\<lparr>resizeCh := Some sz\<rparr> else s) w
      | None \<Rightarrow>
          (case write_stdin data w of
             (Inl e, w1) \<Rightarrow> (s, w1)
           | (Inr u, w1) \<Rightarrow> stdin_loop write_stdin evs s w1))"

text \<open>\<open>chanSizeQueue.Next\<close>: \<open>None\<close> while it blocks, the inner \<open>None\<close> once the channel is closed.\<close>

definition next_size :: "(16 word \<times> 16 word) option \<Rightarrow> bool \<Rightarrow> (16 word \<times> 16 word) option option" where
  "next_size ch closed =
     (case ch of Some sz \<Rightarrow> Some (Some sz) | None \<Rightarrow> if closed then Some None else None)"

text \<open>The frame a client sends for a size.\<close>

definition le_bytes :: "16 word \<Rightarrow> bytes" where
  "le_bytes x = [char_of (unat x), char_of (unat x div 256)]"

definition resize_message :: "16 word \<Rightarrow> 16 word \<Rightarrow> bytes" where
  "resize_message cols rows = CHR 0x01 # le_bytes cols @ le_bytes rows"

lemma uint16_le_bytes: "uint16_le (char_of (unat x)) (char_of (unat x div 256)) = x"
proof -
  have "unat x < 65536" using unsigned_less[of x] by simp
  then have "unat x div 256 < 256" by (simp add: less_mult_imp_div_less)
  then have "uint16_le (char_of (unat x)) (char_of (unat x div 256)) =
      word_of_nat (unat x mod 256 + unat x div 256 * 256)"
    by (simp only: uint16_le_def byte_def of_char_of of_nat_add of_nat_mult of_nat_numeral mod_less
        of_nat_id)
  also have "unat x mod 256 + unat x div 256 * 256 = unat x" by simp
  finally show ?thesis by simp
qed

lemma resize_frame_message: "resize_frame (resize_message cols rows) = Some (cols, rows)"
  by (simp add: resize_message_def le_bytes_def uint16_le_bytes)

text \<open>
  Every terminal size survives the resize frame: the frame a client builds from two 16-bit
  numbers, little-endian, is recognised and gives back the same columns and rows.
\<close>
theorem resize_roundtrip: "resize_frame (resize_message cols rows) = Some (cols, rows)"
  by (rule resize_frame_message)

lemma resize_frame_iff:
  "resize_frame d \<noteq> None \<longleftrightarrow> length d = 5 \<and> hd d = CHR 0x01"
proof (cases "length d = 5")
  case True
  then obtain t a b c e where "d = [t, a, b, c, e]"
    by (auto simp: numeral_eq_Suc length_Suc_conv)
  then show ?thesis by simp
next
  case False
  have "resize_frame d = None" using False by (induction d rule: resize_frame.induct) simp_all
  with False show ?thesis by simp
qed

text \<open>A stdin that never fails and keeps what it is given.\<close>

definition stdin_log :: "bytes \<Rightarrow> (bytes, unit, unit) call" where
  "stdin_log data w = (Inr (), w @ data)"

fun messages :: "input_event list \<Rightarrow> bytes list" where
  "messages [] = []"
| "messages (SizeTaken # evs) = messages evs"
| "messages (Message d # evs) = d # messages evs"

lemma stdin_loop_writes:
  "snd (stdin_loop stdin_log evs s w) = w @ concat (filter (\<lambda>d. resize_frame d = None) (messages evs))"
proof (induction evs arbitrary: s w rule: messages.induct)
  case (2 evs)
  then show ?case by (cases "resizeCh s") simp_all
next
  case (3 d evs)
  then show ?case by (cases "resize_frame d") (simp_all add: stdin_log_def)
qed simp

definition offered_sizes :: "input_event list \<Rightarrow> (16 word \<times> 16 word) set" where
  "offered_sizes evs = {sz. Some sz \<in> resize_frame ` set (messages evs)}"

lemma offered_sizes_Cons:
  "offered_sizes (Message d # evs) = set_option (resize_frame d) \<union> offered_sizes evs"
  "offered_sizes (SizeTaken # evs) = offered_sizes evs" "offered_sizes [] = {}"
  by (auto simp: offered_sizes_def)

lemma stdin_loop_sizes:
  "set (sizes (fst (stdin_loop stdin_log evs s w))) \<subseteq>
     set (sizes s) \<union> set_option (resizeCh s) \<union> offered_sizes evs"
proof (induction evs arbitrary: s w rule: messages.induct)
  case (2 evs)
  show ?case
  proof (cases "resizeCh s")
    case (Some sz)
    then show ?thesis
      using 2[of "s\<lparr>resizeCh := None, sizes := sizes s @ [sz]\<rparr>" w] by (simp add: offered_sizes_Cons)
  qed (use 2[of s w] in \<open>simp add: offered_sizes_Cons\<close>)
next
  case (3 d evs)
  show ?case
  proof (cases "resize_frame d")
    case None
    then show ?thesis using 3[of s "w @ d"] by (simp add: stdin_log_def offered_sizes_Cons)
  next
    case (Some sz)
    have "set (sizes (fst (stdin_loop stdin_log evs (s\<lparr>resizeCh := Some sz\<rparr>) w))) \<subseteq>
        set (sizes s) \<union> insert sz (offered_sizes evs)"
      using 3[of "s\<lparr>resizeCh := Some sz\<rparr>" w] by simp
    with Some 3[of s w] show ?thesis by (cases "resizeCh s") (auto simp: offered_sizes_Cons)
  qed
qed (simp add: offered_sizes_Cons)

text \<open>
  While stdin accepts writes, the program in the terminal reads exactly the client's messages
  that are no resize frames, whole and in order, whatever the interleaving with the executor;
  and the sizes it is given are sizes the client sent.
\<close>
theorem stdin_gets_input:
  "snd (stdin_loop stdin_log evs \<lparr>resizeCh = None, sizes = []\<rparr> w) =
     w @ concat (filter (\<lambda>d. resize_frame d = None) (messages evs)) \<and>
   set (sizes (fst (stdin_loop stdin_log evs \<lparr>resizeCh = None, sizes = []\<rparr> w))) \<subseteq>
     {sz. Some sz \<in> resize_frame ` set (messages evs)}"
  using stdin_loop_sizes[of evs "\<lparr>resizeCh = None, sizes = []\<rparr>" w]
  by (simp add: stdin_loop_writes offered_sizes_def)

text \<open>
  In a burst of resizes that the executor does not interrupt it is the first size that
  reaches the terminal, not the last: a frame that finds the channel full is dropped.
\<close>
theorem burst_first_resize_wins:
  "sizes (fst (stdin_loop write_stdin
      (map (\<lambda>(c, r). Message (resize_message c r)) (sz # szs) @ [SizeTaken, SizeTaken])
      \<lparr>resizeCh = None, sizes = []\<rparr> w)) = [sz]"
proof -
  have full: "stdin_loop write_stdin (map (\<lambda>(c, r). Message (resize_message c r)) szs @ evs) s w =
      stdin_loop write_stdin evs s w" if "resizeCh s = Some sz" for szs evs s
    using that by (induction szs) (auto simp: resize_frame_message)
  show ?thesis by (cases sz) (simp add: resize_frame_message full)
qed

text \<open>
  Every chunk of terminal output handed to the grader's forwarder was written to the user's
  WebSocket first, and the queue receives them in the order of the terminal: the chunks it
  accepts are a subsequence of the non-empty reads, each at most one read buffer long.
\<close>
theorem grader_sees_terminal:
  "\<exists>new. accepted_pairs (snd (stdout_loop write (Some send_op) asset (concat (map pipe_reads ds)) w f)) =
      accepted_pairs f @ new \<and>
    subseq new (map (Pair asset) (concat (map pipe_reads ds))) \<and>
    list_all (\<lambda>m. length (snd m) \<le> read_buffer) new"
proof -
  let ?reads = "concat (map pipe_reads ds)"
  obtain new where new: "accepted_pairs (snd (stdout_loop write (Some send_op) asset ?reads w f)) =
      accepted_pairs f @ new" "subseq new (map (Pair asset) (filter (\<lambda>b. b \<noteq> []) ?reads))"
    using fsink.forwarded_subseq[of "write" asset ?reads w f] by blast
  have "filter (\<lambda>b. b \<noteq> []) ?reads = ?reads"
    using pipe_reads_bounds by (auto simp: filter_id_conv)
  then have sub: "subseq new (map (Pair asset) ?reads)" using new(2) by (simp only:)
  then have "set new \<subseteq> set (map (Pair asset) ?reads)"
    by (auto elim!: list_emb_set)
  moreover have "length (snd m) \<le> read_buffer" if "m \<in> set (map (Pair asset) ?reads)" for m
    using that by (auto dest: pipe_reads_bounds)
  ultimately have "list_all (\<lambda>m. length (snd m) \<le> read_buffer) new"
    by (meson list_all_iff subsetD)
  with new(1) sub show ?thesis by blast
qed

text \<open>Without a forwarder, or with one that drops everything, the user sees the same.\<close>

text \<open>
  The terminal does not depend on the grader: what the user's WebSocket receives is the same
  whether grading is disabled or a forwarder in any state takes the chunks.
\<close>
theorem terminal_ignores_grader:
  "fst (stdout_loop write (Some send_op) asset reads w f) =
     fst (stdout_loop write (None :: (string \<Rightarrow> bytes \<Rightarrow> fwd_sys \<Rightarrow> fwd_sys) option) asset reads w f')"
proof (induction reads arbitrary: w f f')
  case (Cons buf reads)
  then show ?case by (cases "write buf w"; cases "fst (write buf w)") auto
qed simp

section \<open>The exec URL\<close>

text \<open>
  The URL as its host, decoded path and query. The code drops the error of \<open>url.Parse\<close> and sets a field
  of its result: \<open>None\<close> is the panic on a nil URL.
\<close>

type_synonym exec_url = "string \<times> string \<times> string"

definition podExecURL :: "string \<Rightarrow> string \<Rightarrow> string \<Rightarrow> exec_url option" where
  "podExecURL host namespace podName =
     (let h = trim_right_char CHR ''/'' host in
      case parse_after_host (''/api/v1/namespaces/'' @ namespace @ ''/pods/'' @ podName @ ''/exec'') of
        None \<Rightarrow> None
      | Some path \<Rightarrow> Some (h, path,
          encode_values [(''command'', ''/bin/sh''), (''stderr'', ''true''), (''stdin'', ''true''),
            (''stdout'', ''true''), (''tty'', ''true'')]))"

lemma exec_query:
  "encode_values [(''command'', ''/bin/sh''), (''stderr'', ''true''), (''stdin'', ''true''),
     (''stdout'', ''true''), (''tty'', ''true'')] = ''command=%2Fbin%2Fsh&stderr=true&stdin=true&stdout=true&tty=true''"
  by code_simp

text \<open>For a namespace and a pod with plain names it is the pod's \<open>exec\<close>.\<close>

lemma podExecURL_plain:
  assumes "plain_segment namespace" "plain_segment podName"
  shows "podExecURL host namespace podName =
    Some (trim_right_char CHR ''/'' host, ''/api/v1/namespaces/'' @ namespace @ ''/pods/'' @ podName @ ''/exec'',
      ''command=%2Fbin%2Fsh&stderr=true&stdin=true&stdout=true&tty=true'')"
proof -
  have "parse_after_host (''/api/v1/namespaces/'' @ namespace @ ''/pods/'' @ podName @ ''/exec'') =
      Some (''/api/v1/namespaces/'' @ namespace @ ''/pods/'' @ podName @ ''/exec'')"
    using plain_segmentD[OF assms(1)] plain_segmentD[OF assms(2)]
    by (intro parse_after_host_plain) (auto simp: control_byte_def byte_def)
  then show ?thesis by (simp add: podExecURL_def Let_def exec_query)
qed

section \<open>The executor\<close>

text \<open>
  \<open>NewKubeExecer\<close> and \<open>KubeExecer.Exec\<close>: client-go's \<open>rest.InClusterConfig\<close>, \<open>spdy.RoundTripperFor\<close>,
  \<open>NewSPDYExecutorForTransports\<close> and \<open>StreamWithContext\<close> are arguments; of the stream's options the
  pipes are those of the session, and \<open>True\<close> is \<open>Tty\<close>. \<open>Exec\<close> runs in a goroutine of its own, so a panic
  in it ends the process.
\<close>

record 't kube_execer =
  execHost :: string
  execTransport :: 't

datatype 'e exec_failure = ProcessPanics | ExecFails 'e

definition NewKubeExecer :: "'e + 'cfg \<Rightarrow> ('cfg \<Rightarrow> 'e + 't) \<Rightarrow> ('cfg \<Rightarrow> string) \<Rightarrow> 'e + 't kube_execer" where
  "NewKubeExecer in_cluster_config round_tripper_for host_of =
     (case in_cluster_config of
        Inl e \<Rightarrow> Inl e
      | Inr cfg \<Rightarrow>
         (case round_tripper_for cfg of
            Inl e \<Rightarrow> Inl e
          | Inr t \<Rightarrow> Inr \<lparr>execHost = host_of cfg, execTransport = t\<rparr>))"

definition newExecutor ::
  "('t \<Rightarrow> string \<Rightarrow> exec_url \<Rightarrow> 'e + 'x) \<Rightarrow> 't kube_execer \<Rightarrow> exec_url \<Rightarrow> 'e + 'x" where
  "newExecutor spdy_executor k u = spdy_executor (execTransport k) ''POST'' u"

definition Exec ::
  "('t \<Rightarrow> string \<Rightarrow> exec_url \<Rightarrow> 'e + 'x) \<Rightarrow> ('x \<Rightarrow> bool \<Rightarrow> ('w, 'e, unit) call) \<Rightarrow> 't kube_execer \<Rightarrow>
     string \<Rightarrow> string \<Rightarrow> ('w, 'e exec_failure, unit) call" where
  "Exec spdy_executor stream k namespace podName w =
     (case podExecURL (execHost k) namespace podName of
        None \<Rightarrow> (Inl ProcessPanics, w)
      | Some u \<Rightarrow>
         (case newExecutor spdy_executor k u of
            Inl e \<Rightarrow> (Inl (ExecFails e), w)
          | Inr x \<Rightarrow> (case stream x True w of (Inl e, w1) \<Rightarrow> (Inl (ExecFails e), w1) | (Inr r, w1) \<Rightarrow> (Inr r, w1))))"

lemma Exec_panics_iff: "fst (Exec spdy_executor stream k namespace podName w) = Inl ProcessPanics \<longleftrightarrow>
    podExecURL (execHost k) namespace podName = None"
  by (auto simp: Exec_def split: option.splits sum.splits prod.splits)

end
