(* ===== verification/Runs.thy ===== *)
theory Runs
  imports Prelude
begin

text \<open>
  Concurrent parts of the programs as machines: a function gives the state after an event, or
  \<open>None\<close> where the event cannot happen. A schedule is a list of events, so that every interleaving
  of goroutines, peers and timers is a run; the two locales hold what invariants and measures of
  single steps say of runs.
\<close>

fun run_steps :: "('e \<Rightarrow> 's \<Rightarrow> 's option) \<Rightarrow> 'e list \<Rightarrow> 's \<Rightarrow> 's option" where
  "run_steps step [] s = Some s"
| "run_steps step (e # es) s = (case step e s of None \<Rightarrow> None | Some s1 \<Rightarrow> run_steps step es s1)"

fun_cases run_ConsE: "run_steps step (e # es) s = Some s1"

lemma run_append:
  "run_steps step (es @ fs) s = (case run_steps step es s of None \<Rightarrow> None | Some s1 \<Rightarrow> run_steps step fs s1)"
  by (induction es arbitrary: s) (simp_all split: option.split)

lemma run_appendE:
  assumes "run_steps step (es @ fs) s = Some s2"
  obtains s1 where "run_steps step es s = Some s1" "run_steps step fs s1 = Some s2"
  using assms by (auto simp: run_append split: option.splits)

text \<open>A step with a guard.\<close>

definition guarded :: "bool \<Rightarrow> 's \<Rightarrow> 's option" where
  "guarded b s = (if b then Some s else None)"

lemma guarded_Some [simp]: "guarded b s = Some s1 \<longleftrightarrow> b \<and> s1 = s" "guarded b s = None \<longleftrightarrow> \<not> b"
  by (auto simp: guarded_def)

lemma guarded_bool [simp]: "guarded True s = Some s" "guarded False s = None"
  by (simp_all add: guarded_def)

locale step_invariant =
  fixes step :: "'e \<Rightarrow> 's \<Rightarrow> 's option"
    and inv :: "'s \<Rightarrow> bool"
  assumes inv_step: "step e s = Some s1 \<Longrightarrow> inv s \<Longrightarrow> inv s1"
begin

lemma inv_run: "run_steps step es s = Some s1 \<Longrightarrow> inv s \<Longrightarrow> inv s1"
  by (induction es arbitrary: s) (auto elim!: run_ConsE dest: inv_step split: option.splits)

end

text \<open>
  A measure that, in a live state, the events \<open>own\<close> decrease and the other \<open>allowed\<close> ones do not increase, and a goal
  such that one of the \<open>own\<close> events can happen until it is reached.
\<close>

locale bounded_progress = step_invariant +
  fixes allowed own :: "'e \<Rightarrow> bool"
    and m :: "'s \<Rightarrow> nat"
    and live goal :: "'s \<Rightarrow> bool"
  assumes measure_step: "step e s = Some s1 \<Longrightarrow> inv s \<Longrightarrow> live s \<Longrightarrow> allowed e \<Longrightarrow>
      m s1 + (if own e then 1 else 0) \<le> m s"
    and live_step: "step e s = Some s1 \<Longrightarrow> inv s \<Longrightarrow> live s \<Longrightarrow> allowed e \<Longrightarrow> live s1"
    and progress: "inv s \<Longrightarrow> live s \<Longrightarrow> \<not> goal s \<Longrightarrow> \<exists>e. own e \<and> step e s \<noteq> None"
begin

lemma own_bounded:
  "run_steps step es s = Some s1 \<Longrightarrow> inv s \<Longrightarrow> live s \<Longrightarrow> list_all allowed es \<Longrightarrow>
     m s1 + length (filter own es) \<le> m s"
proof (induction es arbitrary: s)
  case (Cons e es)
  obtain s' where s': "step e s = Some s'" "run_steps step es s' = Some s1"
    using Cons.prems(1) by (auto split: option.splits)
  have "allowed e" "list_all allowed es" using Cons.prems(4) by simp_all
  with Cons.IH[OF s'(2) inv_step[OF s'(1) Cons.prems(2)] live_step[OF s'(1) Cons.prems(2,3)]]
    measure_step[OF s'(1) Cons.prems(2,3)]
  show ?case by (auto split: if_splits)
qed simp

lemma live_run:
  "run_steps step es s = Some s1 \<Longrightarrow> inv s \<Longrightarrow> live s \<Longrightarrow> list_all allowed es \<Longrightarrow> live s1"
proof (induction es arbitrary: s)
  case (Cons e es)
  obtain s' where s': "step e s = Some s'" "run_steps step es s' = Some s1"
    using Cons.prems(1) by (auto split: option.splits)
  show ?case
    by (rule Cons.IH[OF s'(2) inv_step[OF s'(1) Cons.prems(2)] live_step[OF s'(1) Cons.prems(2,3)]])
      (use Cons.prems(4) in simp_all)
qed simp

text \<open>However a run from a live state is scheduled, it takes at most \<open>m s\<close> own steps, and short of the goal another is possible.\<close>

lemma reaches_goal:
  assumes "run_steps step es s = Some s1" "inv s" "live s" "list_all allowed es"
  shows "length (filter own es) \<le> m s \<and> (goal s1 \<or> (\<exists>e. own e \<and> step e s1 \<noteq> None))"
  using own_bounded[OF assms] progress[OF inv_run[OF assms(1,2)] live_run[OF assms]] by auto

end

end
