(* ===== verification/ExecSession.thy ===== *)
theory ExecSession
  imports ExecBackend Runs
begin

text \<open>
  \<open>Backend.Serve\<close> of \<open>services/relay/exec/backend.go\<close> as the machine of its goroutines: the one
  that runs \<open>Exec\<close>, the two pumps, and \<open>Serve\<close> itself, with the pipes, channels and the context
  that join them. The executor and the client are the environment: the executor may at any time
  write output, read input, take a size or return, and the client may send, stop reading or leave.
  A step is a piece of code between two operations that can block.
\<close>

section \<open>State\<close>

text \<open>The goroutine around \<open>Exec\<close>; \<open>'r\<close> is the error \<open>Exec\<close> returns, or its absence.\<close>

datatype 'r exec_pc = Executing | ExecReturned 'r | ResultSent 'r | StdoutClosed 'r

datatype out_pc = OutReading | OutWriting bytes | OutSending bytes | OutDone

text \<open>The last three before \<open>InDone\<close> are the deferred calls, which run in the reverse of their order.\<close>

datatype in_pc = InReading | InWriting bytes | ClosingResize | ClosingStdin | Cancelling | InDone

datatype 'r serve_main = AwaitExec | AwaitStdout 'r | Returned 'r

text \<open>
  \<open>stdoutPipe\<close> is the rest of a write in progress on \<open>stdoutW\<close>; that of a write on \<open>stdinW\<close> is in
  \<open>InWriting\<close>. The fields from \<open>written\<close> on only record what happened: what the executor wrote,
  what the WebSocket took and \<open>Forwarder.Send\<close> was called with, the messages read from the client,
  what the executor read and the sizes it took; and whether a write to the client failed, or a write
  of the executor was cut off by the closing of the pipe.
\<close>

record 'r session =
  hasForwarder :: bool
  ctxDone :: bool
  clientGone :: bool
  execPC :: "'r exec_pc"
  execDone :: "'r option"
  stdoutPipe :: "bytes option"
  outPC :: out_pc
  inPC :: in_pc
  resizeChan :: "(16 word \<times> 16 word) option"
  resizeClosed :: bool
  stdinClosed :: bool
  mainPC :: "'r serve_main"
  written :: "bytes list"
  shown :: "bytes list"
  graded :: "bytes list"
  typed :: "bytes list"
  stdinRead :: bytes
  sizesTaken :: "(16 word \<times> 16 word) list"
  outFailed :: bool
  cutOff :: bool

definition start_session :: "bool \<Rightarrow> 'r session" where
  "start_session grading =
     \<lparr>hasForwarder = grading, ctxDone = False, clientGone = False, execPC = Executing, execDone = None,
      stdoutPipe = None, outPC = OutReading, inPC = InReading, resizeChan = None, resizeClosed = False,
      stdinClosed = False, mainPC = AwaitExec, written = [], shown = [], graded = [], typed = [],
      stdinRead = [], sizesTaken = [], outFailed = False, cutOff = False\<rparr>"

section \<open>Steps\<close>

text \<open>The environment's events, then those of the goroutines.\<close>

datatype 'r session_event =
    ExecWrites bytes | WriteCutOff | ExecReads nat | ExecClosesStdin | ExecTakesSize | ExecReturns 'r
  | ClientSends bytes | ClientLeaves | RequestCancelled
  | SendResult | CloseStdout
  | OutReads | OutEOF | OutWrites | OutWriteFails | OutSends
  | InReadFails | InDefers
  | MainGetsResult | MainReturns

definition stdout_closed :: "'r exec_pc \<Rightarrow> bool" where
  "stdout_closed p = (case p of StdoutClosed r \<Rightarrow> True | _ \<Rightarrow> False)"

text \<open>\<open>stdoutR.Read\<close> takes at most a buffer; the write returns once it is all taken.\<close>

definition rest_of_write :: "bytes \<Rightarrow> bytes option" where
  "rest_of_write d = (if length d \<le> read_buffer then None else Some (drop read_buffer d))"

text \<open>One turn of the input loop: a message of the client is a resize or becomes a write on \<open>stdinW\<close>.\<close>

definition receive :: "bytes \<Rightarrow> 'r session \<Rightarrow> 'r session" where
  "receive data s =
     (case resize_frame data of
        Some sz \<Rightarrow> if resizeChan s = None then s\<lparr>resizeChan := Some sz\<rparr> else s
      | None \<Rightarrow> s\<lparr>inPC := InWriting data\<rparr>)\<lparr>typed := typed s @ [data]\<rparr>"

definition client_lost :: "'r session \<Rightarrow> bool" where
  "client_lost s \<longleftrightarrow> clientGone s \<or> ctxDone s"

fun session_step :: "'r session_event \<Rightarrow> 'r session \<Rightarrow> 'r session option" where
  "session_step (ExecWrites d) s =
     guarded (stdoutPipe s = None \<and> \<not> stdout_closed (execPC s))
       (s\<lparr>stdoutPipe := Some d, written := written s @ [d]\<rparr>)"
| "session_step WriteCutOff s =
     guarded (stdoutPipe s \<noteq> None \<and> stdout_closed (execPC s)) (s\<lparr>stdoutPipe := None, cutOff := True\<rparr>)"
| "session_step (ExecReads n) s =
     (case inPC s of
        InWriting d \<Rightarrow> Some (s\<lparr>stdinRead := stdinRead s @ take n d,
          inPC := (if length d \<le> n then InReading else InWriting (drop n d))\<rparr>)
      | _ \<Rightarrow> None)"
| "session_step ExecClosesStdin s =
     (case inPC s of InWriting d \<Rightarrow> Some (s\<lparr>inPC := ClosingResize\<rparr>) | _ \<Rightarrow> None)"
| "session_step ExecTakesSize s =
     (case resizeChan s of
        None \<Rightarrow> None
      | Some sz \<Rightarrow> Some (s\<lparr>resizeChan := None, sizesTaken := sizesTaken s @ [sz]\<rparr>))"
| "session_step (ExecReturns r) s = guarded (execPC s = Executing) (s\<lparr>execPC := ExecReturned r\<rparr>)"
| "session_step (ClientSends data) s = guarded (inPC s = InReading \<and> \<not> clientGone s) (receive data s)"
| "session_step ClientLeaves s = Some (s\<lparr>clientGone := True\<rparr>)"
| "session_step RequestCancelled s = Some (s\<lparr>ctxDone := True\<rparr>)"
| "session_step SendResult s =
     (case execPC s of
        ExecReturned r \<Rightarrow> Some (s\<lparr>execPC := ResultSent r, execDone := Some r\<rparr>) | _ \<Rightarrow> None)"
| "session_step CloseStdout s =
     (case execPC s of ResultSent r \<Rightarrow> Some (s\<lparr>execPC := StdoutClosed r\<rparr>) | _ \<Rightarrow> None)"
| "session_step OutReads s =
     (case stdoutPipe s of
        None \<Rightarrow> None
      | Some d \<Rightarrow> guarded (outPC s = OutReading)
          (s\<lparr>stdoutPipe := rest_of_write d,
             outPC := (if d = [] then OutReading else OutWriting (take read_buffer d))\<rparr>))"
| "session_step OutEOF s =
     guarded (outPC s = OutReading \<and> stdout_closed (execPC s)) (s\<lparr>outPC := OutDone\<rparr>)"
| "session_step OutWrites s =
     (case outPC s of
        OutWriting b \<Rightarrow> Some (s\<lparr>shown := shown s @ [b],
          outPC := (if hasForwarder s then OutSending b else OutReading)\<rparr>)
      | _ \<Rightarrow> None)"
| "session_step OutWriteFails s =
     (case outPC s of
        OutWriting b \<Rightarrow> guarded (client_lost s) (s\<lparr>outPC := OutDone, outFailed := True\<rparr>) | _ \<Rightarrow> None)"
| "session_step OutSends s =
     (case outPC s of
        OutSending b \<Rightarrow> Some (s\<lparr>graded := graded s @ [b], outPC := OutReading\<rparr>) | _ \<Rightarrow> None)"
| "session_step InReadFails s =
     guarded (inPC s = InReading \<and> client_lost s) (s\<lparr>inPC := ClosingResize\<rparr>)"
| "session_step InDefers s =
     (case inPC s of
        ClosingResize \<Rightarrow> Some (s\<lparr>resizeClosed := True, inPC := ClosingStdin\<rparr>)
      | ClosingStdin \<Rightarrow> Some (s\<lparr>stdinClosed := True, inPC := Cancelling\<rparr>)
      | Cancelling \<Rightarrow> Some (s\<lparr>ctxDone := True, inPC := InDone\<rparr>)
      | _ \<Rightarrow> None)"
| "session_step MainGetsResult s =
     (case execDone s of
        Some r \<Rightarrow> guarded (mainPC s = AwaitExec) (s\<lparr>execDone := None, mainPC := AwaitStdout r\<rparr>)
      | None \<Rightarrow> None)"
| "session_step MainReturns s =
     (case mainPC s of
        AwaitStdout r \<Rightarrow> guarded (outPC s = OutDone) (s\<lparr>mainPC := Returned r, ctxDone := True\<rparr>)
      | _ \<Rightarrow> None)"

text \<open>A schedule of a session from its start.\<close>

definition Serve :: "bool \<Rightarrow> 'r session_event list \<Rightarrow> 'r session option" where
  "Serve grading es = run_steps session_step es (start_session grading)"

section \<open>Invariant\<close>

definition exec_result :: "'r exec_pc \<Rightarrow> 'r option" where
  "exec_result p = (case p of Executing \<Rightarrow> None | ExecReturned r \<Rightarrow> Some r | ResultSent r \<Rightarrow> Some r | StdoutClosed r \<Rightarrow> Some r)"

definition result_out :: "'r exec_pc \<Rightarrow> 'r option" where
  "result_out p = (case p of ResultSent r \<Rightarrow> Some r | StdoutClosed r \<Rightarrow> Some r | _ \<Rightarrow> None)"

definition main_result :: "'r serve_main \<Rightarrow> 'r option" where
  "main_result p = (case p of AwaitExec \<Rightarrow> None | AwaitStdout r \<Rightarrow> Some r | Returned r \<Rightarrow> Some r)"

definition being_shown :: "out_pc \<Rightarrow> bytes list" where
  "being_shown p = (case p of OutWriting b \<Rightarrow> [b] | _ \<Rightarrow> [])"

definition being_graded :: "out_pc \<Rightarrow> bytes list" where
  "being_graded p = (case p of OutSending b \<Rightarrow> [b] | _ \<Rightarrow> [])"

definition in_pipe :: "bytes option \<Rightarrow> bytes" where
  "in_pipe p = (case p of None \<Rightarrow> [] | Some d \<Rightarrow> d)"

definition being_typed :: "in_pc \<Rightarrow> bytes" where
  "being_typed p = (case p of InWriting d \<Rightarrow> d | _ \<Rightarrow> [])"

definition input_open :: "in_pc \<Rightarrow> bool" where
  "input_open p = (case p of InReading \<Rightarrow> True | InWriting d \<Rightarrow> True | _ \<Rightarrow> False)"

text \<open>What the client's messages amount to: input for the terminal, and sizes.\<close>

definition input_of :: "bytes list \<Rightarrow> bytes" where
  "input_of ms = concat (filter (\<lambda>d. resize_frame d = None) ms)"

definition sizes_of :: "bytes list \<Rightarrow> (16 word \<times> 16 word) list" where
  "sizes_of ms = concat (map (\<lambda>d. case resize_frame d of None \<Rightarrow> [] | Some sz \<Rightarrow> [sz]) ms)"

lemma session_pc_simps [simp]:
  "exec_result Executing = None" "exec_result (ExecReturned r) = Some r"
  "exec_result (ResultSent r) = Some r" "exec_result (StdoutClosed r) = Some r"
  "result_out Executing = None" "result_out (ExecReturned r) = None"
  "result_out (ResultSent r) = Some r" "result_out (StdoutClosed r) = Some r"
  "main_result AwaitExec = None" "main_result (AwaitStdout r) = Some r" "main_result (Returned r) = Some r"
  "\<not> stdout_closed Executing" "\<not> stdout_closed (ExecReturned r)"
  "\<not> stdout_closed (ResultSent r)" "stdout_closed (StdoutClosed r)"
  by (simp_all add: exec_result_def result_out_def main_result_def stdout_closed_def)

lemma session_pump_simps [simp]:
  "being_shown OutReading = []" "being_shown (OutWriting b) = [b]"
  "being_shown (OutSending b) = []" "being_shown OutDone = []"
  "being_graded OutReading = []" "being_graded (OutWriting b) = []"
  "being_graded (OutSending b) = [b]" "being_graded OutDone = []"
  "in_pipe None = []" "in_pipe (Some d) = d"
  "being_typed InReading = []" "being_typed (InWriting d) = d" "being_typed ClosingResize = []"
  "being_typed ClosingStdin = []" "being_typed Cancelling = []" "being_typed InDone = []"
  "input_open InReading" "input_open (InWriting d)" "\<not> input_open ClosingResize"
  "\<not> input_open ClosingStdin" "\<not> input_open Cancelling" "\<not> input_open InDone"
  by (simp_all add: being_shown_def being_graded_def in_pipe_def being_typed_def input_open_def)

text \<open>The steps whose first condition is on a program counter, solved for the state before.\<close>

lemma session_step_iff:
  "session_step (ExecReads n) s = Some s1 \<longleftrightarrow> (\<exists>d. inPC s = InWriting d \<and>
     s1 = s\<lparr>stdinRead := stdinRead s @ take n d, inPC := (if length d \<le> n then InReading else InWriting (drop n d))\<rparr>)"
  "session_step ExecClosesStdin s = Some s1 \<longleftrightarrow> (\<exists>d. inPC s = InWriting d \<and> s1 = s\<lparr>inPC := ClosingResize\<rparr>)"
  "session_step ExecTakesSize s = Some s1 \<longleftrightarrow> (\<exists>sz. resizeChan s = Some sz \<and>
     s1 = s\<lparr>resizeChan := None, sizesTaken := sizesTaken s @ [sz]\<rparr>)"
  "session_step SendResult s = Some s1 \<longleftrightarrow> (\<exists>r. execPC s = ExecReturned r \<and>
     s1 = s\<lparr>execPC := ResultSent r, execDone := Some r\<rparr>)"
  "session_step CloseStdout s = Some s1 \<longleftrightarrow> (\<exists>r. execPC s = ResultSent r \<and> s1 = s\<lparr>execPC := StdoutClosed r\<rparr>)"
  "session_step OutReads s = Some s1 \<longleftrightarrow> (\<exists>d. stdoutPipe s = Some d \<and> outPC s = OutReading \<and>
     s1 = s\<lparr>stdoutPipe := rest_of_write d, outPC := (if d = [] then OutReading else OutWriting (take read_buffer d))\<rparr>)"
  "session_step OutWrites s = Some s1 \<longleftrightarrow> (\<exists>b. outPC s = OutWriting b \<and>
     s1 = s\<lparr>shown := shown s @ [b], outPC := (if hasForwarder s then OutSending b else OutReading)\<rparr>)"
  "session_step OutWriteFails s = Some s1 \<longleftrightarrow> (\<exists>b. outPC s = OutWriting b \<and> client_lost s \<and>
     s1 = s\<lparr>outPC := OutDone, outFailed := True\<rparr>)"
  "session_step OutSends s = Some s1 \<longleftrightarrow> (\<exists>b. outPC s = OutSending b \<and>
     s1 = s\<lparr>graded := graded s @ [b], outPC := OutReading\<rparr>)"
  "session_step InDefers s = Some s1 \<longleftrightarrow>
     inPC s = ClosingResize \<and> s1 = s\<lparr>resizeClosed := True, inPC := ClosingStdin\<rparr> \<or>
     inPC s = ClosingStdin \<and> s1 = s\<lparr>stdinClosed := True, inPC := Cancelling\<rparr> \<or>
     inPC s = Cancelling \<and> s1 = s\<lparr>ctxDone := True, inPC := InDone\<rparr>"
  "session_step MainGetsResult s = Some s1 \<longleftrightarrow> (\<exists>r. execDone s = Some r \<and> mainPC s = AwaitExec \<and>
     s1 = s\<lparr>execDone := None, mainPC := AwaitStdout r\<rparr>)"
  "session_step MainReturns s = Some s1 \<longleftrightarrow> (\<exists>r. mainPC s = AwaitStdout r \<and> outPC s = OutDone \<and>
     s1 = s\<lparr>mainPC := Returned r, ctxDone := True\<rparr>)"
  by (auto split: option.splits in_pc.splits exec_pc.splits out_pc.splits serve_main.splits)

lemmas session_stepE = session_step_iff [THEN iffD1, elim_format]

definition output_inv :: "'r session \<Rightarrow> bool" where
  "output_inv s \<longleftrightarrow>
     prefix (shown s @ being_shown (outPC s)) (concat (map pipe_reads (written s))) \<and>
     (\<not> outFailed s \<and> \<not> cutOff s \<longrightarrow>
        shown s @ being_shown (outPC s) @ pipe_reads (in_pipe (stdoutPipe s)) =
          concat (map pipe_reads (written s))) \<and>
     (cutOff s \<longrightarrow> stdoutPipe s = None \<and> stdout_closed (execPC s)) \<and>
     (outFailed s \<longrightarrow> outPC s = OutDone) \<and>
     (outPC s = OutDone \<longrightarrow> outFailed s \<or> stdout_closed (execPC s)) \<and>
     graded s @ being_graded (outPC s) = (if hasForwarder s then shown s else [])"

definition input_inv :: "'r session \<Rightarrow> bool" where
  "input_inv s \<longleftrightarrow>
     prefix (stdinRead s @ being_typed (inPC s)) (input_of (typed s)) \<and>
     (input_open (inPC s) \<longrightarrow> stdinRead s @ being_typed (inPC s) = input_of (typed s)) \<and>
     subseq (sizesTaken s @ (case resizeChan s of None \<Rightarrow> [] | Some sz \<Rightarrow> [sz])) (sizes_of (typed s)) \<and>
     (inPC s = InDone \<longrightarrow> ctxDone s)"

definition control_inv :: "'r session \<Rightarrow> bool" where
  "control_inv s \<longleftrightarrow>
     (case mainPC s of
        AwaitExec \<Rightarrow> execDone s = result_out (execPC s)
      | AwaitStdout r \<Rightarrow> execDone s = None \<and> result_out (execPC s) = Some r
      | Returned r \<Rightarrow> execDone s = None \<and> result_out (execPC s) = Some r \<and> outPC s = OutDone \<and> ctxDone s)"

lemma pipe_reads_Nil [simp]: "pipe_reads [] = []"
  by (simp add: pipe_reads.simps)

lemma pipe_reads_rest:
  "d \<noteq> [] \<Longrightarrow> pipe_reads d = take read_buffer d # pipe_reads (in_pipe (rest_of_write d))"
  by (subst pipe_reads.simps) (simp add: rest_of_write_def in_pipe_def)

lemma input_of_snoc: "input_of (ms @ [d]) = input_of ms @ (if resize_frame d = None then d else [])"
  by (simp add: input_of_def)

lemma sizes_of_snoc: "sizes_of (ms @ [d]) = sizes_of ms @ (case resize_frame d of None \<Rightarrow> [] | Some sz \<Rightarrow> [sz])"
  by (simp add: sizes_of_def)

declare session_step.simps [simp del]

lemmas session_steps = session_step_iff session_step.simps(1,2,6-9,13,17)

lemma output_step:
  assumes "session_step e s = Some s1" "output_inv s"
  shows "output_inv s1"
proof (cases e)
  case OutReads
  then obtain d where "stdoutPipe s = Some d" "outPC s = OutReading"
    "s1 = s\<lparr>stdoutPipe := rest_of_write d, outPC := (if d = [] then OutReading else OutWriting (take read_buffer d))\<rparr>"
    using assms(1) by (auto simp: session_steps)
  note s = this
  show ?thesis
  proof (cases "d = []")
    case True
    with s assms(2) show ?thesis by (simp add: output_inv_def rest_of_write_def)
  next
    case False
    have open_out: "\<not> outFailed s" "\<not> cutOff s" using s assms(2) by (auto simp: output_inv_def)
    with s assms(2) have "shown s @ pipe_reads d = concat (map pipe_reads (written s))"
      by (simp add: output_inv_def)
    then have eq: "concat (map pipe_reads (written s)) =
        (shown s @ [take read_buffer d]) @ pipe_reads (in_pipe (rest_of_write d))"
      by (simp add: pipe_reads_rest[OF False])
    then have "prefix (shown s @ [take read_buffer d]) (concat (map pipe_reads (written s)))"
      by (rule prefixI)
    with s False open_out eq assms(2) show ?thesis by (simp add: output_inv_def)
  qed
next
  case (ClientSends data)
  then show ?thesis
    using assms by (auto simp: session_steps output_inv_def receive_def split: option.splits)
next
  case OutWriteFails
  with assms show ?thesis
    by (clarsimp simp: session_steps output_inv_def) (rule append_prefixD)
next
  case InDefers
  show ?thesis
    using assms(1)[unfolded InDefers session_steps] assms(2)
    by (elim disjE conjE) (simp_all add: output_inv_def)
qed ((use assms in \<open>clarsimp simp: session_steps output_inv_def\<close>)+)

lemma subseq_extend: "subseq xs ys \<Longrightarrow> subseq xs (ys @ zs)"
  by (metis append_Nil2 list_emb_Nil list_emb_append_mono)

lemma input_step:
  assumes "session_step e s = Some s1" "input_inv s"
  shows "input_inv s1"
proof (cases e)
  case (ClientSends data)
  then have "inPC s = InReading" "s1 = receive data s" using assms(1) by (simp_all add: session_steps)
  then show ?thesis
    using assms(2)
    by (cases "resize_frame data"; cases "resizeChan s")
      (simp_all add: input_inv_def receive_def input_of_snoc sizes_of_snoc subseq_extend)
next
  case InDefers
  then show ?thesis using assms by (auto simp: session_steps input_inv_def)
next
  case (ExecReads n)
  then obtain d where d: "inPC s = InWriting d" "s1 = s\<lparr>stdinRead := stdinRead s @ take n d,
      inPC := (if length d \<le> n then InReading else InWriting (drop n d))\<rparr>"
    using assms(1) by (auto simp: session_steps)
  with assms(2) show ?thesis by (cases "length d \<le> n") (simp_all add: input_inv_def)
next
  case ExecClosesStdin
  with assms show ?thesis
    by (clarsimp simp: session_steps input_inv_def) (metis prefixI)
next
  case OutWrites
  with assms show ?thesis by (clarsimp simp: session_steps input_inv_def)
qed ((use assms in \<open>clarsimp simp: session_steps input_inv_def\<close>)+)

lemma control_step:
  assumes "session_step e s = Some s1" "control_inv s"
  shows "control_inv s1"
proof (cases e)
  case (ClientSends data)
  then show ?thesis
    using assms by (auto simp: session_steps control_inv_def receive_def split: option.splits serve_main.splits)
qed (use assms in \<open>auto simp: session_steps control_inv_def split: serve_main.splits\<close>)

definition session_inv :: "'r session \<Rightarrow> bool" where
  "session_inv s \<longleftrightarrow> output_inv s \<and> input_inv s \<and> control_inv s"

interpretation ses: step_invariant session_step session_inv
  by unfold_locales (auto simp: session_inv_def intro: output_step input_step control_step)

lemma start_session_inv: "session_inv (start_session grading)"
  by (simp add: session_inv_def output_inv_def input_inv_def control_inv_def start_session_def
      input_of_def sizes_of_def)

lemma Serve_inv: "Serve grading es = Some s \<Longrightarrow> session_inv s"
  unfolding Serve_def by (rule ses.inv_run[OF _ start_session_inv])

lemma hasForwarder_step: "session_step e s = Some s1 \<Longrightarrow> hasForwarder s1 = hasForwarder s"
  by (cases e) (auto simp: session_steps receive_def split: option.splits)

lemma hasForwarder_run: "run_steps session_step es s = Some s1 \<Longrightarrow> hasForwarder s1 = hasForwarder s"
  by (induction es arbitrary: s) (auto dest: hasForwarder_step split: option.splits)

lemma Serve_hasForwarder: "Serve grading es = Some s \<Longrightarrow> hasForwarder s = grading"
  unfolding Serve_def by (drule hasForwarder_run) (simp add: start_session_def)

lemma subseq_shrink: "subseq (xs @ ys) zs \<Longrightarrow> subseq xs zs"
  using subseq_order.trans[OF subseq_extend[OF subseq_order.order_refl]] .

section \<open>What a session shows\<close>

lemma chunks_bounds: "b \<in> set (concat (map pipe_reads ds)) \<Longrightarrow> b \<noteq> [] \<and> length b \<le> read_buffer"
  by (auto dest: pipe_reads_bounds)

text \<open>
  C6: A terminal session adds and reorders nothing, however its goroutines, the program in the lab
  and the client are scheduled and wherever it stands: the client has been shown a prefix of the
  program's output, cut into the non-empty pieces of at most 32 KiB in which it was read; the
  grader's forwarder was given the pieces already shown, all of them or all but the last; the
  program has read a prefix of the client's input messages; and it was given sizes the client sent,
  in their order.
\<close>
theorem session_transparent:
  assumes "Serve grading es = Some s"
  shows "prefix (shown s) (concat (map pipe_reads (written s))) \<and>
    prefix (concat (shown s)) (concat (written s)) \<and>
    list_all (\<lambda>b. b \<noteq> [] \<and> length b \<le> read_buffer) (shown s) \<and>
    (if grading then graded s = shown s \<or> graded s = butlast (shown s) else graded s = []) \<and>
    prefix (stdinRead s) (input_of (typed s)) \<and>
    subseq (sizesTaken s) (sizes_of (typed s))"
proof -
  have inv: "output_inv s" "input_inv s" using Serve_inv[OF assms] by (simp_all add: session_inv_def)
  have p: "prefix (shown s) (concat (map pipe_reads (written s)))"
    using inv(1) by (auto simp: output_inv_def intro: append_prefixD)
  moreover have "prefix (concat (shown s)) (concat (written s))"
  proof -
    obtain zs where "concat (map pipe_reads (written s)) = shown s @ zs" using p by (rule prefixE)
    then have "concat (concat (map pipe_reads (written s))) = concat (shown s) @ concat zs" by simp
    moreover have "concat (concat (map pipe_reads ds)) = concat ds" for ds
      by (induction ds) (simp_all add: concat_pipe_reads)
    ultimately show ?thesis by (metis prefixI)
  qed
  moreover have "list_all (\<lambda>b. b \<noteq> [] \<and> length b \<le> read_buffer) (shown s)"
    using p chunks_bounds set_mono_prefix by (fastforce simp: list_all_iff)
  moreover have "if grading then graded s = shown s \<or> graded s = butlast (shown s) else graded s = []"
  proof -
    have "graded s @ being_graded (outPC s) = (if grading then shown s else [])"
      using inv(1) Serve_hasForwarder[OF assms] by (simp add: output_inv_def)
    then show ?thesis by (cases "outPC s") (auto split: if_splits dest: sym[of "graded s @ _"])
  qed
  moreover have "prefix (stdinRead s) (input_of (typed s))" "subseq (sizesTaken s) (sizes_of (typed s))"
    using inv(2) by (auto simp: input_inv_def intro: append_prefixD subseq_shrink)
  ultimately show ?thesis by blast
qed

lemma demo_session:
  "Serve True [ExecWrites ''hi'', OutReads, ClientSends ''ls'', OutWrites, ExecReads 1] =
     Some ((start_session True)\<lparr>written := [''hi''], outPC := OutSending ''hi'', shown := [''hi''],
       typed := [''ls''], inPC := InWriting ''s'', stdinRead := ''l''\<rparr> :: unit session)"
  by (simp add: Serve_def start_session_def session_step.simps receive_def rest_of_write_def read_buffer_def)

theorem session_transparent_witness:
  "\<exists>s :: unit session. Serve True [ExecWrites ''hi'', OutReads, ClientSends ''ls'', OutWrites, ExecReads 1] = Some s \<and>
     prefix (concat (shown s)) ''hi'' \<and> prefix (stdinRead s) ''ls'' \<and> shown s = [''hi''] \<and> graded s = []"
  using session_transparent[OF demo_session] demo_session by (simp add: start_session_def)

section \<open>Returning\<close>

lemma result_out_exec: "result_out p = Some r \<Longrightarrow> exec_result p = Some r"
  by (cases p) simp_all



text \<open>The steps of the goroutines that \<open>Serve\<close> waits for, and a bound on how many are left.\<close>

fun serve_event :: "'r session_event \<Rightarrow> bool" where
  "serve_event SendResult = True"
| "serve_event CloseStdout = True"
| "serve_event OutReads = True"
| "serve_event OutEOF = True"
| "serve_event OutWrites = True"
| "serve_event OutWriteFails = True"
| "serve_event OutSends = True"
| "serve_event MainGetsResult = True"
| "serve_event MainReturns = True"
| "serve_event _ = False"

fun no_output :: "'r session_event \<Rightarrow> bool" where
  "no_output (ExecWrites d) = False"
| "no_output _ = True"

definition pieces_left :: "bytes option \<Rightarrow> nat" where
  "pieces_left p = (case p of None \<Rightarrow> 0 | Some d \<Rightarrow> 1 + length d div read_buffer)"

definition exec_left :: "'r exec_pc \<Rightarrow> nat" where
  "exec_left p = (case p of Executing \<Rightarrow> 3 | ExecReturned r \<Rightarrow> 2 | ResultSent r \<Rightarrow> 1 | StdoutClosed r \<Rightarrow> 0)"

definition out_left :: "out_pc \<Rightarrow> nat" where
  "out_left p = (case p of OutReading \<Rightarrow> 1 | OutWriting b \<Rightarrow> 3 | OutSending b \<Rightarrow> 2 | OutDone \<Rightarrow> 0)"

definition main_left :: "'r serve_main \<Rightarrow> nat" where
  "main_left p = (case p of AwaitExec \<Rightarrow> 2 | AwaitStdout r \<Rightarrow> 1 | Returned r \<Rightarrow> 0)"

definition steps_left :: "'r session \<Rightarrow> nat" where
  "steps_left s = 3 * pieces_left (stdoutPipe s) + exec_left (execPC s) + out_left (outPC s) + main_left (mainPC s)"

lemma left_simps [simp]:
  "pieces_left None = 0" "pieces_left (Some d) = 1 + length d div read_buffer"
  "exec_left Executing = 3" "exec_left (ExecReturned r) = 2" "exec_left (ResultSent r) = 1"
  "exec_left (StdoutClosed r) = 0"
  "out_left OutReading = 1" "out_left (OutWriting b) = 3" "out_left (OutSending b) = 2" "out_left OutDone = 0"
  "main_left AwaitExec = 2" "main_left (AwaitStdout r) = 1" "main_left (Returned r) = 0"
  by (simp_all add: pieces_left_def exec_left_def out_left_def main_left_def)

lemma pieces_left_rest: "pieces_left (rest_of_write d) \<le> length d div read_buffer"
  by (auto simp: rest_of_write_def read_buffer_def le_div_geq)

lemma steps_left_step:
  assumes "session_step e s = Some s1" "no_output e"
  shows "steps_left s1 + (if serve_event e then 1 else 0) \<le> steps_left s"
proof (cases e)
  case OutReads
  with assms(1) show ?thesis
    using pieces_left_rest by (auto simp: session_steps steps_left_def) (simp add: rest_of_write_def)
next
  case InDefers
  with assms(1) show ?thesis by (auto simp: session_steps steps_left_def)
next
  case (ClientSends d)
  with assms(1) show ?thesis by (auto simp: session_steps steps_left_def receive_def split: option.splits)
qed (use assms in \<open>auto simp: session_steps steps_left_def\<close>)

lemma exec_result_step:
  "session_step e s = Some s1 \<Longrightarrow> exec_result (execPC s) = Some r \<Longrightarrow> exec_result (execPC s1) = Some r"
  by (cases e) (auto simp: session_steps receive_def split: option.splits)

lemma serve_progress:
  assumes "session_inv s" "exec_result (execPC s) = Some r" "mainPC s \<noteq> Returned r"
  shows "\<exists>e. serve_event e \<and> session_step e s \<noteq> None"
proof -
  have c: "control_inv s" using assms(1) by (simp add: session_inv_def)
  have "\<exists>e \<in> {SendResult, CloseStdout, MainGetsResult, OutEOF, OutWrites, OutSends, MainReturns}. session_step e s \<noteq> None"
    using c assms(2,3)
    by (cases "execPC s"; cases "mainPC s"; cases "outPC s") (simp_all add: session_step.simps control_inv_def)
  then show ?thesis by force
qed

interpretation returning: bounded_progress session_step session_inv no_output serve_event steps_left
    "\<lambda>s. exec_result (execPC s) = Some r" "\<lambda>s. mainPC s = Returned r" for r
proof unfold_locales
  show "\<exists>e. serve_event e \<and> session_step e s \<noteq> None"
    if "session_inv s" "exec_result (execPC s) = Some r" "mainPC s \<noteq> Returned r" for s
    by (rule serve_progress[OF that])
qed (auto intro: exec_result_step dest: steps_left_step)



section \<open>When the client leaves\<close>

text \<open>The steps of the input goroutine once its read has failed.\<close>

fun input_event_own :: "'r session_event \<Rightarrow> bool" where
  "input_event_own InReadFails = True"
| "input_event_own InDefers = True"
| "input_event_own _ = False"

definition in_left :: "in_pc \<Rightarrow> nat" where
  "in_left p = (case p of InReading \<Rightarrow> 4 | InWriting d \<Rightarrow> 4 | ClosingResize \<Rightarrow> 3 | ClosingStdin \<Rightarrow> 2 | Cancelling \<Rightarrow> 1 | InDone \<Rightarrow> 0)"

lemma in_left_simps [simp]:
  "in_left InReading = 4" "in_left (InWriting d) = 4" "in_left ClosingResize = 3" "in_left ClosingStdin = 2"
  "in_left Cancelling = 1" "in_left InDone = 0"
  by (simp_all add: in_left_def)

definition not_writing :: "in_pc \<Rightarrow> bool" where
  "not_writing p = (case p of InWriting d \<Rightarrow> False | _ \<Rightarrow> True)"

lemma not_writing_simps [simp]:
  "not_writing InReading" "\<not> not_writing (InWriting d)" "not_writing ClosingResize" "not_writing ClosingStdin"
  "not_writing Cancelling" "not_writing InDone"
  by (simp_all add: not_writing_def)

interpretation leaving: bounded_progress session_step session_inv "\<lambda>_. True" input_event_own "\<lambda>s. in_left (inPC s)"
    "\<lambda>s. clientGone s \<and> not_writing (inPC s)" "\<lambda>s. ctxDone s \<and> inPC s = InDone"
proof unfold_locales
  fix e and s s1 :: "'a session"
  assume st: "session_step e s = Some s1" and live: "clientGone s \<and> not_writing (inPC s)"
  then show "in_left (inPC s1) + (if input_event_own e then 1 else 0) \<le> in_left (inPC s)"
    "clientGone s1 \<and> not_writing (inPC s1)"
    by (cases e; auto simp: session_steps)+
next
  fix s :: "'a session"
  assume s: "session_inv s" "clientGone s \<and> not_writing (inPC s)" "\<not> (ctxDone s \<and> inPC s = InDone)"
  have "inPC s \<noteq> InDone" using s by (auto simp: session_inv_def input_inv_def)
  then have "session_step (if inPC s = InReading then InReadFails else InDefers) s \<noteq> None"
    using s(2) by (cases "inPC s") (simp_all add: session_step.simps client_lost_def)
  then show "\<exists>e. input_event_own e \<and> session_step e s \<noteq> None"
    by (intro exI[of _ "if inPC s = InReading then InReadFails else InDefers"]) simp
qed

text \<open>
  C35: A client that leaves while nothing it typed is waiting to be read ends the session: the input
  goroutine takes at most four more steps, in any schedule, and until the executor's context is
  cancelled it can take another one.
\<close>
theorem disconnect_cancels:
  assumes "Serve grading es = Some s" "clientGone s" "not_writing (inPC s)"
    "run_steps session_step fs s = Some s1"
  shows "length (filter input_event_own fs) \<le> 4 \<and>
    (ctxDone s1 \<or> (\<exists>e. input_event_own e \<and> session_step e s1 \<noteq> None))"
proof -
  have "in_left (inPC s) \<le> 4" by (cases "inPC s") simp_all
  moreover have "list_all (\<lambda>_. True) fs" by (simp add: list_all_iff)
  ultimately show ?thesis
    using leaving.reaches_goal[OF assms(4) Serve_inv[OF assms(1)]] assms(2,3) by fastforce
qed

theorem disconnect_cancels_witness:
  "\<exists>s s1 :: unit session. Serve False [ClientLeaves] = Some s \<and>
     run_steps session_step [InReadFails, ExecWrites ''x'', InDefers, InDefers, InDefers] s = Some s1 \<and>
     ctxDone s1 \<and> length (filter input_event_own [InReadFails, ExecWrites ''x'', InDefers, InDefers, InDefers :: unit session_event]) \<le> 4"
proof -
  obtain s :: "unit session" where s: "Serve False [ClientLeaves] = Some s" "clientGone s" "not_writing (inPC s)"
    by (simp add: Serve_def start_session_def session_step.simps)
  obtain s1 where s1: "run_steps session_step [InReadFails, ExecWrites ''x'', InDefers, InDefers, InDefers] s = Some s1" "ctxDone s1"
    using s(1) by (auto simp: Serve_def start_session_def session_step.simps client_lost_def)
  from disconnect_cancels[OF s s1(1)] s(1) s1 show ?thesis by blast
qed

text \<open>What the executor, or the caller's context, can still do for a session.\<close>

fun outside_help :: "'r session_event \<Rightarrow> bool" where
  "outside_help (ExecReads n) = True"
| "outside_help ExecClosesStdin = True"
| "outside_help (ExecReturns r) = True"
| "outside_help RequestCancelled = True"
| "outside_help _ = False"

definition blocked_on_stdin :: "bytes \<Rightarrow> 'r session \<Rightarrow> bool" where
  "blocked_on_stdin d s \<longleftrightarrow> inPC s = InWriting d \<and> execPC s = Executing \<and> mainPC s = AwaitExec \<and>
     execDone s = None \<and> \<not> ctxDone s"

lemma blocked_step:
  assumes "session_step e s = Some s1" "blocked_on_stdin d s" "\<not> outside_help e"
  shows "blocked_on_stdin d s1"
  using assms by (cases e) (auto simp: session_steps blocked_on_stdin_def)

lemma blocked_run:
  "run_steps session_step fs s = Some s1 \<Longrightarrow> blocked_on_stdin d s \<Longrightarrow>
     list_all (\<lambda>e. \<not> outside_help e) fs \<Longrightarrow> blocked_on_stdin d s1"
  by (induction fs arbitrary: s) (auto dest: blocked_step split: option.splits)

text \<open>
  C36: A client that leaves while its input is waiting to be read is not noticed: as long as the
  program reads no input and the executor does not return by itself, \<open>Serve\<close> stays where it is and
  the context is never cancelled, although the client is gone, writes to it fail and the output
  goroutine has ended. The session keeps its connection slot.
\<close>
theorem disconnect_unnoticed:
  assumes "Serve grading es = Some s" "inPC s = InWriting d" "execPC s = Executing" "\<not> ctxDone s"
    "run_steps session_step fs s = Some s1" "list_all (\<lambda>e. \<not> outside_help e) fs"
  shows "mainPC s1 = AwaitExec \<and> \<not> ctxDone s1 \<and> inPC s1 = InWriting d"
proof -
  have "control_inv s" using Serve_inv[OF assms(1)] by (simp add: session_inv_def)
  then have "blocked_on_stdin d s"
    using assms(2-4) by (auto simp: blocked_on_stdin_def control_inv_def split: serve_main.splits)
  from blocked_run[OF assms(5) this assms(6)] show ?thesis by (simp add: blocked_on_stdin_def)
qed

theorem disconnect_unnoticed_witness:
  "\<exists>s1. Serve False ([ClientSends ''q''] @ [ClientLeaves, ExecWrites ''x'', OutReads, OutWriteFails, ExecWrites ''y'']) =
       Some (s1 :: unit session) \<and>
     clientGone s1 \<and> outPC s1 = OutDone \<and> mainPC s1 = AwaitExec \<and> \<not> ctxDone s1"
proof -
  let ?fs = "[ClientLeaves, ExecWrites ''x'', OutReads, OutWriteFails, ExecWrites ''y''] :: unit session_event list"
  obtain s :: "unit session" where s: "Serve False [ClientSends ''q''] = Some s" "inPC s = InWriting ''q''"
    "execPC s = Executing" "\<not> ctxDone s"
    by (simp add: Serve_def start_session_def session_step.simps receive_def)
  obtain s1 where s1: "run_steps session_step ?fs s = Some s1" "clientGone s1" "outPC s1 = OutDone"
    using s(1) by (auto simp: Serve_def start_session_def session_step.simps receive_def client_lost_def
        rest_of_write_def read_buffer_def)
  have "list_all (\<lambda>e. \<not> outside_help e) ?fs" by simp
  from disconnect_unnoticed[OF s s1(1) this] s1 s(1) show ?thesis
    by (auto simp: Serve_def simp del: append.simps simp: run_append)
qed

text \<open>After \<open>Serve\<close> has returned, a write on stdin that nobody reads keeps its goroutine for good.\<close>

lemma stdin_writer_stays:
  "run_steps session_step fs s = Some s1 \<Longrightarrow> inPC s = InWriting d \<Longrightarrow>
     list_all (\<lambda>e. \<not> outside_help e) fs \<Longrightarrow> inPC s1 = InWriting d"
proof (induction fs arbitrary: s)
  case (Cons e fs)
  obtain s' where s': "session_step e s = Some s'" "run_steps session_step fs s' = Some s1"
    using Cons.prems(1) by (auto split: option.splits)
  have "inPC s' = InWriting d" using s'(1) Cons.prems(2,3) by (cases e) (auto simp: session_steps)
  with Cons.IH[OF s'(2)] Cons.prems(3) show ?case by simp
qed simp

end
