(* ===== verification/RelayServe.thy ===== *)
theory RelayServe
  imports Runs
begin

text \<open>
  The serving and the shutdown of the programs with an HTTP server: \<open>main\<close> of
  \<open>services/relay/cmd/relay-exec/main.go\<close>, \<open>services/relay/cmd/relay-grader/main.go\<close> and
  \<open>services/relay-authenticator/cmd/main.go\<close>, from the start of the server on. Each request is at
  one of the stages \<open>net/http\<close> and \<open>relaybase.Handler\<close> distinguish: \<open>Shutdown\<close> waits for requests
  in flight but, as documented, not for upgraded ones, and the wait group counts sessions.
\<close>

section \<open>State\<close>

datatype stage = InFlight | Upgraded | InSession | Ended

text \<open>How a program ends: the log message of the last \<open>select\<close>, the end of \<open>main\<close> without one,
  \<open>os.Exit(1)\<close>, or the signal itself once \<open>stop()\<close> has given it back its default effect.\<close>

datatype exit_kind = Drained | ShutdownTimeout | MainEnds | ExitFailure | Killed

datatype server_pc = ServingHTTP | ShuttingDown | AwaitSessions | Exited exit_kind

text \<open>The listener of relay-grader for terminal output; the other programs have none.\<close>

datatype internal_listener = NoListener | NotYetOpen | Open | ClosedListener

record server =
  waitsForSessions :: bool
  signalled :: bool
  serverPC :: server_pc
  expired :: bool
  waitDone :: bool
  internalLn :: internal_listener
  requests :: "stage list"
  waitGroup :: int

definition exec_server :: server where
  "exec_server = \<lparr>waitsForSessions = True, signalled = False, serverPC = ServingHTTP, expired = False,
     waitDone = False, internalLn = NoListener, requests = [], waitGroup = 0\<rparr>"

definition grader_server :: server where
  "grader_server = exec_server\<lparr>internalLn := NotYetOpen\<rparr>"

definition authenticator_server :: server where
  "authenticator_server = exec_server\<lparr>waitsForSessions := False\<rparr>"

section \<open>Steps\<close>

text \<open>
  Requests arrive while the server listens, which it does until \<open>Shutdown\<close> is called. Only the
  relays' handler upgrades. \<open>TimerFires\<close>: the timeout of \<open>shutdownCtx\<close>, 30 or 10 seconds.
\<close>

datatype server_event =
    Arrives | Answered nat | Upgrades nat | Refused nat | SessionStarts nat | SessionEnds nat
  | ServeFails | InternalOpens | InternalFails | InternalCloses
  | SignalArrives | SignalKills | MainWakes | ShutdownReturns | ShutdownExpires | TimerFires
  | WaitReturns | SelectDone | SelectTimeout

definition at_stage :: "nat \<Rightarrow> stage \<Rightarrow> server \<Rightarrow> bool" where
  "at_stage i st s \<longleftrightarrow> i < length (requests s) \<and> requests s ! i = st"

definition set_stage :: "nat \<Rightarrow> stage \<Rightarrow> server \<Rightarrow> server" where
  "set_stage i st s = s\<lparr>requests := (requests s)[i := st]\<rparr>"

definition exited :: "server_pc \<Rightarrow> bool" where
  "exited p = (case p of Exited k \<Rightarrow> True | _ \<Rightarrow> False)"

text \<open>The step of \<open>main\<close> after \<open>srv.Shutdown\<close>: the relays wait for their sessions, the authenticator ends.\<close>

definition after_shutdown :: "server \<Rightarrow> server" where
  "after_shutdown s = s\<lparr>serverPC := (if waitsForSessions s then AwaitSessions else Exited MainEnds)\<rparr>"

fun live_step :: "server_event \<Rightarrow> server \<Rightarrow> server option" where
  "live_step Arrives s = guarded (serverPC s = ServingHTTP) (s\<lparr>requests := requests s @ [InFlight]\<rparr>)"
| "live_step (Answered i) s = guarded (at_stage i InFlight s) (set_stage i Ended s)"
| "live_step (Upgrades i) s = guarded (waitsForSessions s \<and> at_stage i InFlight s) (set_stage i Upgraded s)"
| "live_step (Refused i) s = guarded (at_stage i Upgraded s) (set_stage i Ended s)"
| "live_step (SessionStarts i) s =
     guarded (at_stage i Upgraded s) ((set_stage i InSession s)\<lparr>waitGroup := waitGroup s + 1\<rparr>)"
| "live_step (SessionEnds i) s =
     guarded (at_stage i InSession s) ((set_stage i Ended s)\<lparr>waitGroup := waitGroup s - 1\<rparr>)"
| "live_step ServeFails s = guarded (serverPC s = ServingHTTP) (s\<lparr>serverPC := Exited ExitFailure\<rparr>)"
| "live_step InternalOpens s = guarded (internalLn s = NotYetOpen) (s\<lparr>internalLn := Open\<rparr>)"
| "live_step InternalFails s = guarded (internalLn s = NotYetOpen) (s\<lparr>serverPC := Exited ExitFailure\<rparr>)"
| "live_step InternalCloses s = guarded (internalLn s = Open \<and> signalled s) (s\<lparr>internalLn := ClosedListener\<rparr>)"
| "live_step SignalArrives s = Some (s\<lparr>signalled := True\<rparr>)"
| "live_step SignalKills s =
     guarded (waitsForSessions s \<and> (serverPC s = ShuttingDown \<or> serverPC s = AwaitSessions)) (s\<lparr>serverPC := Exited Killed\<rparr>)"
| "live_step MainWakes s =
     guarded (serverPC s = ServingHTTP \<and> signalled s \<and> internalLn s \<noteq> NotYetOpen) (s\<lparr>serverPC := ShuttingDown\<rparr>)"
| "live_step ShutdownReturns s =
     guarded (serverPC s = ShuttingDown \<and> InFlight \<notin> set (requests s)) (after_shutdown s)"
| "live_step ShutdownExpires s = guarded (serverPC s = ShuttingDown \<and> expired s) (after_shutdown s)"
| "live_step TimerFires s =
     guarded ((serverPC s = ShuttingDown \<or> serverPC s = AwaitSessions) \<and> \<not> expired s) (s\<lparr>expired := True\<rparr>)"
| "live_step WaitReturns s =
     guarded (serverPC s = AwaitSessions \<and> waitGroup s = 0 \<and> \<not> waitDone s) (s\<lparr>waitDone := True\<rparr>)"
| "live_step SelectDone s = guarded (serverPC s = AwaitSessions \<and> waitDone s) (s\<lparr>serverPC := Exited Drained\<rparr>)"
| "live_step SelectTimeout s =
     guarded (serverPC s = AwaitSessions \<and> expired s) (s\<lparr>serverPC := Exited ShutdownTimeout\<rparr>)"

text \<open>With \<open>main\<close> the process ends and with it every goroutine.\<close>

definition server_step :: "server_event \<Rightarrow> server \<Rightarrow> server option" where
  "server_step e s = (if exited (serverPC s) then None else live_step e s)"

lemma exited_simps [simp]:
  "exited (Exited k)" "\<not> exited ServingHTTP" "\<not> exited ShuttingDown" "\<not> exited AwaitSessions"
  by (simp_all add: exited_def)

lemma server_step_Some: "server_step e s = Some s1 \<longleftrightarrow> \<not> exited (serverPC s) \<and> live_step e s = Some s1"
  by (simp add: server_step_def)

section \<open>Sessions and the wait group\<close>

definition sessions :: "server \<Rightarrow> nat" where
  "sessions s = length (filter (\<lambda>st. st = InSession) (requests s))"

lemma filter_update:
  "i < length xs \<Longrightarrow> length (filter P (xs[i := y])) + (if P (xs ! i) then 1 else 0) =
     length (filter P xs) + (if P y then 1 else 0)"
proof (induction xs arbitrary: i)
  case (Cons x xs)
  then show ?case by (cases i) fastforce+
qed simp

definition server_inv :: "server \<Rightarrow> bool" where
  "server_inv s \<longleftrightarrow> waitGroup s = int (sessions s) \<and>
     (serverPC s = AwaitSessions \<longrightarrow> waitsForSessions s) \<and> (serverPC s = Exited Drained \<longrightarrow> waitDone s) \<and>
     (serverPC s = Exited ShutdownTimeout \<longrightarrow> expired s) \<and>
     (serverPC s \<in> {ShuttingDown, AwaitSessions, Exited Drained, Exited ShutdownTimeout, Exited MainEnds} \<longrightarrow> signalled s)"

lemma sessions_set_stage:
  "at_stage i st s \<Longrightarrow> sessions (set_stage i st' s) + (if st = InSession then 1 else 0) =
     sessions s + (if st' = InSession then 1 else 0)"
  using filter_update[of i "requests s" "\<lambda>st. st = InSession" st']
  by (simp add: at_stage_def sessions_def set_stage_def)

lemma set_stage_fields [simp]:
  "waitGroup (set_stage i st s) = waitGroup s" "serverPC (set_stage i st s) = serverPC s"
  "waitsForSessions (set_stage i st s) = waitsForSessions s" "waitDone (set_stage i st s) = waitDone s"
  "expired (set_stage i st s) = expired s" "signalled (set_stage i st s) = signalled s"
  "internalLn (set_stage i st s) = internalLn s"
  "requests (set_stage i st s) = (requests s)[i := st]"
  by (simp_all add: set_stage_def)

lemma sessions_update [simp]:
  "sessions (s\<lparr>waitGroup := n\<rparr>) = sessions s" "sessions (s\<lparr>serverPC := p\<rparr>) = sessions s"
  "sessions (s\<lparr>expired := b\<rparr>) = sessions s" "sessions (s\<lparr>waitDone := b\<rparr>) = sessions s"
  "sessions (s\<lparr>signalled := b\<rparr>) = sessions s" "sessions (s\<lparr>internalLn := l\<rparr>) = sessions s"
  "sessions (s\<lparr>requests := requests s @ [InFlight]\<rparr>) = sessions s"
  by (simp_all add: sessions_def)

lemma session_counts:
  "at_stage i InFlight s \<Longrightarrow> sessions (set_stage i Ended s) = sessions s"
  "at_stage i InFlight s \<Longrightarrow> sessions (set_stage i Upgraded s) = sessions s"
  "at_stage i Upgraded s \<Longrightarrow> sessions (set_stage i Ended s) = sessions s"
  "at_stage i Upgraded s \<Longrightarrow> sessions (set_stage i InSession s) = Suc (sessions s)"
  "at_stage i InSession s \<Longrightarrow> int (sessions (set_stage i Ended s)) = int (sessions s) - 1"
  using sessions_set_stage[of i InFlight s Ended] sessions_set_stage[of i InFlight s Upgraded]
    sessions_set_stage[of i Upgraded s Ended] sessions_set_stage[of i Upgraded s InSession]
    sessions_set_stage[of i InSession s Ended]
  by simp_all

lemma at_stage_set: "at_stage i st s \<Longrightarrow> st \<in> set (requests s)"
  by (auto simp: at_stage_def)

lemma set_update_subset: "set xs \<subseteq> A \<Longrightarrow> y \<in> A \<Longrightarrow> set (xs[i := y]) \<subseteq> A"
  using set_update_subset_insert[of xs i y] by blast

lemma server_step_inv: "server_step e s = Some s1 \<Longrightarrow> server_inv s \<Longrightarrow> server_inv s1"
  by (cases e) (clarsimp simp: server_step_Some server_inv_def after_shutdown_def session_counts split: if_splits)+

interpretation srv: step_invariant server_step server_inv
  by unfold_locales (rule server_step_inv)

definition program :: "server \<Rightarrow> bool" where
  "program s \<longleftrightarrow> s \<in> {exec_server, grader_server, authenticator_server}"

lemma program_inv: "program s \<Longrightarrow> server_inv s"
  by (auto simp: program_def server_inv_def exec_server_def grader_server_def authenticator_server_def sessions_def)

lemma program_run_inv: "program p \<Longrightarrow> run_steps server_step es p = Some s \<Longrightarrow> server_inv s"
  using srv.inv_run[OF _ program_inv] by blast

section \<open>Requests only advance\<close>

text \<open>The stages in the order in which a request goes through them.\<close>

fun stage_rank :: "stage \<Rightarrow> nat" where
  "stage_rank InFlight = 0"
| "stage_rank Upgraded = 1"
| "stage_rank InSession = 2"
| "stage_rank Ended = 3"

lemma stage_rank_inj: "stage_rank a = stage_rank b \<Longrightarrow> a = b"
  by (cases a; cases b) simp_all

instantiation stage :: linorder
begin

definition less_eq_stage :: "stage \<Rightarrow> stage \<Rightarrow> bool" where
  "less_eq_stage a b \<longleftrightarrow> stage_rank a \<le> stage_rank b"

definition less_stage :: "stage \<Rightarrow> stage \<Rightarrow> bool" where
  "less_stage a b \<longleftrightarrow> stage_rank a < stage_rank b"

instance
  by standard (auto simp: less_eq_stage_def less_stage_def intro: stage_rank_inj)

end

definition advanced :: "server \<Rightarrow> server \<Rightarrow> bool" where
  "advanced s s1 \<longleftrightarrow> length (requests s) \<le> length (requests s1) \<and>
     (\<forall>i < length (requests s). requests s ! i \<le> requests s1 ! i)"

lemma advanced_refl: "requests s1 = requests s \<Longrightarrow> advanced s s1"
  by (simp add: advanced_def)

lemma advanced_trans: "advanced s s1 \<Longrightarrow> advanced s1 s2 \<Longrightarrow> advanced s s2"
  unfolding advanced_def by (meson less_le_trans order_trans)

lemma advanced_stage:
  "at_stage i st s \<Longrightarrow> st \<le> st1 \<Longrightarrow> requests s1 = (requests s)[i := st1] \<Longrightarrow> advanced s s1"
  by (auto simp: advanced_def at_stage_def nth_list_update)

lemma server_step_advances: "server_step e s = Some s1 \<Longrightarrow> advanced s s1"
proof (cases e)
  case Arrives
  then show "server_step e s = Some s1 \<Longrightarrow> ?thesis" by (auto simp: server_step_Some advanced_def nth_append)
next
  case (Answered i)
  then show "server_step e s = Some s1 \<Longrightarrow> ?thesis"
    by (auto simp: server_step_Some less_eq_stage_def intro: advanced_stage[of i InFlight s Ended])
next
  case (Upgrades i)
  then show "server_step e s = Some s1 \<Longrightarrow> ?thesis"
    by (auto simp: server_step_Some less_eq_stage_def intro: advanced_stage[of i InFlight s Upgraded])
next
  case (Refused i)
  then show "server_step e s = Some s1 \<Longrightarrow> ?thesis"
    by (auto simp: server_step_Some less_eq_stage_def intro: advanced_stage[of i Upgraded s Ended])
next
  case (SessionStarts i)
  then show "server_step e s = Some s1 \<Longrightarrow> ?thesis"
    by (auto simp: server_step_Some less_eq_stage_def intro: advanced_stage[of i Upgraded s InSession])
next
  case (SessionEnds i)
  then show "server_step e s = Some s1 \<Longrightarrow> ?thesis"
    by (auto simp: server_step_Some less_eq_stage_def intro: advanced_stage[of i InSession s Ended])
qed (auto simp: server_step_Some after_shutdown_def intro: advanced_refl)

lemma run_advances: "run_steps server_step es s = Some s1 \<Longrightarrow> advanced s s1"
proof (induction es arbitrary: s)
  case (Cons e es)
  then show ?case
    by (auto elim!: run_ConsE dest!: server_step_advances intro: advanced_trans split: option.splits)
qed (simp add: advanced_refl)

text \<open>An ended request stays ended.\<close>

lemma ended_stays:
  assumes "run_steps server_step es s = Some s1" "at_stage i Ended s"
  shows "at_stage i Ended s1"
proof -
  have "Ended \<le> requests s1 ! i" "i < length (requests s1)"
    using run_advances[OF assms(1)] assms(2) by (auto simp: advanced_def at_stage_def)
  moreover have "st \<le> Ended" for st by (cases st) (simp_all add: less_eq_stage_def)
  ultimately show ?thesis by (auto simp: at_stage_def intro: antisym)
qed

section \<open>Draining\<close>

definition draining :: "server \<Rightarrow> bool" where
  "draining s \<longleftrightarrow> server_inv s \<and> set (requests s) \<subseteq> {InSession, Ended} \<and>
     serverPC s \<notin> {ServingHTTP, ShuttingDown} \<and> (waitDone s \<longrightarrow> sessions s = 0)"

lemma sessions_0: "sessions s = 0 \<longleftrightarrow> InSession \<notin> set (requests s)"
  by (auto simp: sessions_def filter_empty_conv)

lemma draining_step:
  assumes "server_step e s = Some s1" "draining s"
  shows "draining s1"
proof -
  have "server_inv s1" using assms server_step_inv by (auto simp: draining_def)
  moreover have "set (requests s1) \<subseteq> {InSession, Ended} \<and> serverPC s1 \<notin> {ServingHTTP, ShuttingDown} \<and>
      (waitDone s1 \<longrightarrow> sessions s1 = 0)"
    using assms
    by (cases e) (clarsimp simp: server_step_Some draining_def server_inv_def sessions_0
        set_update_subset dest!: at_stage_set; blast?)+
  ultimately show ?thesis by (simp add: draining_def)
qed

interpretation drain: step_invariant server_step draining
  by unfold_locales (rule draining_step)

text \<open>
  C26: A relay that reports all sessions drained has drained them: when the program comes to wait for
  its sessions with no request still in its handshake, it ends that way only after every session has
  ended. No other way of ending is reported so.
\<close>
theorem shutdown_drains:
  assumes "program p" "run_steps server_step es p = Some s" "serverPC s = AwaitSessions"
    "\<not> waitDone s" "set (requests s) \<subseteq> {InSession, Ended}"
    "run_steps server_step fs s = Some s1" "serverPC s1 = Exited Drained"
  shows "set (requests s1) \<subseteq> {Ended} \<and> waitGroup s1 = 0"
proof -
  have "draining s" using program_run_inv[OF assms(1,2)] assms(3-5) by (simp add: draining_def)
  with assms(6) have d: "draining s1" by (rule drain.inv_run)
  moreover have "waitDone s1" "waitGroup s1 = int (sessions s1)"
    using d assms(7) by (auto simp: draining_def server_inv_def)
  ultimately show ?thesis by (auto simp: draining_def sessions_0)
qed

theorem shutdown_drains_witness:
  "\<exists>s s1. run_steps server_step [Arrives, Upgrades 0, SessionStarts 0, SignalArrives, MainWakes, ShutdownReturns]
      exec_server = Some s \<and>
    run_steps server_step [SessionEnds 0, WaitReturns, SelectDone] s = Some s1 \<and>
    requests s = [InSession] \<and> set (requests s1) \<subseteq> {Ended}"
proof -
  let ?es = "[Arrives, Upgrades 0, SessionStarts 0, SignalArrives, MainWakes, ShutdownReturns]"
  obtain s where s: "run_steps server_step ?es exec_server = Some s" "requests s = [InSession]"
    "serverPC s = AwaitSessions" "\<not> waitDone s"
    by (simp add: server_step_def exec_server_def at_stage_def set_stage_def after_shutdown_def)
  obtain s1 where s1: "run_steps server_step [SessionEnds 0, WaitReturns, SelectDone] s = Some s1"
    "serverPC s1 = Exited Drained"
    using s(1) by (auto simp: server_step_def exec_server_def at_stage_def set_stage_def after_shutdown_def)
  have "program exec_server" by (simp add: program_def)
  from shutdown_drains[OF this s(1,3,4) _ s1] s(2) s(1) s1(1) show ?thesis by auto
qed

text \<open>
  C37: A request in its handshake is missed by the shutdown: the connection is upgraded, so
  \<open>Shutdown\<close> does not wait for it, and it is not yet in the wait group. If no session is running,
  the program can report that all sessions are drained and end while this one has begun.
\<close>
theorem shutdown_misses_handshake:
  assumes "program p" "run_steps server_step es p = Some s" "serverPC s = AwaitSessions"
    "\<not> waitDone s" "InSession \<notin> set (requests s)" "at_stage i Upgraded s"
  shows "\<exists>s1. run_steps server_step [WaitReturns, SessionStarts i, SelectDone] s = Some s1 \<and>
    serverPC s1 = Exited Drained \<and> at_stage i InSession s1"
proof -
  have "waitGroup s = 0" using program_run_inv[OF assms(1,2)] assms(5) by (simp add: server_inv_def sessions_0)
  then show ?thesis
    using assms(3,4,6) by (simp add: server_step_def at_stage_def)
qed

theorem shutdown_misses_handshake_witness:
  "\<exists>s. run_steps server_step ([Arrives, Upgrades 0, SignalArrives, MainWakes, ShutdownReturns] @
      [WaitReturns, SessionStarts 0, SelectDone]) exec_server = Some s \<and>
    serverPC s = Exited Drained \<and> requests s ! 0 = InSession"
proof -
  let ?es = "[Arrives, Upgrades 0, SignalArrives, MainWakes, ShutdownReturns]"
  obtain s where s: "run_steps server_step ?es exec_server = Some s" "requests s = [Upgraded]"
    "serverPC s = AwaitSessions" "\<not> waitDone s"
    by (simp add: server_step_def exec_server_def at_stage_def set_stage_def after_shutdown_def)
  have "program exec_server" by (simp add: program_def)
  from shutdown_misses_handshake[OF this s(1,3,4), of 0] s(2)
  show ?thesis unfolding run_append s(1) by (auto simp: at_stage_def)
qed

text \<open>An authenticator that ends before its timeout has answered every request it took.\<close>

definition answers_inv :: "server \<Rightarrow> bool" where
  "answers_inv s \<longleftrightarrow> \<not> waitsForSessions s \<and> set (requests s) \<subseteq> {InFlight, Ended} \<and>
     (serverPC s = Exited MainEnds \<longrightarrow> expired s \<or> set (requests s) \<subseteq> {Ended})"

lemma answers_step: "server_step e s = Some s1 \<Longrightarrow> answers_inv s \<Longrightarrow> answers_inv s1"
  by (cases e) (clarsimp simp: server_step_Some answers_inv_def after_shutdown_def exited_def set_update_subset
      dest!: at_stage_set split: server_pc.splits; blast?)+

interpretation answers: step_invariant server_step answers_inv
  by unfold_locales (rule answers_step)

lemma authenticator_answers:
  assumes "run_steps server_step es authenticator_server = Some s" "serverPC s = Exited MainEnds" "\<not> expired s"
  shows "set (requests s) \<subseteq> {Ended}"
  using answers.inv_run[OF assms(1)] assms(2,3)
  by (simp add: answers_inv_def authenticator_server_def exec_server_def)

section \<open>Ending\<close>

fun main_event :: "server_event \<Rightarrow> bool" where
  "main_event InternalOpens = True"
| "main_event MainWakes = True"
| "main_event ShutdownReturns = True"
| "main_event ShutdownExpires = True"
| "main_event TimerFires = True"
| "main_event WaitReturns = True"
| "main_event SelectDone = True"
| "main_event SelectTimeout = True"
| "main_event _ = False"

definition pc_left :: "server_pc \<Rightarrow> nat" where
  "pc_left p = (case p of ServingHTTP \<Rightarrow> 3 | ShuttingDown \<Rightarrow> 2 | AwaitSessions \<Rightarrow> 1 | Exited k \<Rightarrow> 0)"

lemma pc_left_simps [simp]:
  "pc_left ServingHTTP = 3" "pc_left ShuttingDown = 2" "pc_left AwaitSessions = 1" "pc_left (Exited k) = 0"
  by (simp_all add: pc_left_def)

definition shutdown_left :: "server \<Rightarrow> nat" where
  "shutdown_left s = pc_left (serverPC s) + (if expired s then 0 else 1) + (if waitDone s then 0 else 1) +
     (if internalLn s = NotYetOpen then 1 else 0)"

lemma shutdown_progress:
  assumes "signalled s" "\<not> exited (serverPC s)"
  shows "\<exists>e. main_event e \<and> server_step e s \<noteq> None"
proof -
  consider "serverPC s = ServingHTTP" "internalLn s = NotYetOpen"
    | "serverPC s = ServingHTTP" "internalLn s \<noteq> NotYetOpen"
    | "serverPC s = ShuttingDown" "expired s" | "serverPC s = AwaitSessions" "expired s"
    | "serverPC s \<in> {ShuttingDown, AwaitSessions}" "\<not> expired s"
    using assms(2) by (cases "serverPC s") auto
  then show ?thesis
  proof cases
    case 1
    then show ?thesis by (intro exI[of _ InternalOpens]) (simp add: server_step_def)
  next
    case 2
    then show ?thesis using assms(1) by (intro exI[of _ MainWakes]) (simp add: server_step_def)
  next
    case 3
    then show ?thesis by (intro exI[of _ ShutdownExpires]) (simp add: server_step_def)
  next
    case 4
    then show ?thesis by (intro exI[of _ SelectTimeout]) (simp add: server_step_def)
  next
    case 5
    then show ?thesis by (intro exI[of _ TimerFires]) (auto simp: server_step_def)
  qed
qed

lemma shutdown_left_step:
  "server_step e s = Some s1 \<Longrightarrow> shutdown_left s1 + (if main_event e then 1 else 0) \<le> shutdown_left s"
  by (cases e) (clarsimp simp: server_step_Some shutdown_left_def after_shutdown_def; auto)+

interpretation ending: bounded_progress server_step server_inv "\<lambda>_. True" main_event shutdown_left
    signalled "\<lambda>s. exited (serverPC s)"
proof unfold_locales
  fix e s s1
  assume "server_step e s = Some s1" "signalled s"
  then show "signalled s1" by (cases e) (auto simp: server_step_Some after_shutdown_def)
qed (use shutdown_left_step shutdown_progress in auto)

text \<open>
  After a signal every program ends, whatever its requests and sessions do: \<open>main\<close> takes at most
  six more steps in any schedule, the running out of the timeout among them, and until the program
  has ended it can take another.
\<close>
theorem shutdown_ends:
  assumes "program p" "run_steps server_step es p = Some s" "signalled s"
    "run_steps server_step fs s = Some s1"
  shows "length (filter main_event fs) \<le> 6 \<and>
    (exited (serverPC s1) \<or> (\<exists>e. main_event e \<and> server_step e s1 \<noteq> None))"
proof -
  have "shutdown_left s \<le> 6" by (cases "serverPC s") (simp_all add: shutdown_left_def)
  moreover have "list_all (\<lambda>_. True) fs" by (simp add: list_all_iff)
  ultimately show ?thesis
    using ending.reaches_goal[OF assms(4) program_run_inv[OF assms(1,2)] assms(3)] by auto
qed

theorem shutdown_ends_witness:
  "\<exists>s s1. run_steps server_step [InternalOpens, Arrives, Upgrades 0, SessionStarts 0, SignalArrives] grader_server = Some s \<and>
     run_steps server_step [InternalCloses, MainWakes, ShutdownReturns, TimerFires, SelectTimeout] s = Some s1 \<and>
     serverPC s1 = Exited ShutdownTimeout \<and> requests s1 = [InSession] \<and>
     length (filter main_event [InternalCloses, MainWakes, ShutdownReturns, TimerFires, SelectTimeout]) \<le> 6"
proof -
  let ?es = "[InternalOpens, Arrives, Upgrades 0, SessionStarts 0, SignalArrives]"
  let ?fs = "[InternalCloses, MainWakes, ShutdownReturns, TimerFires, SelectTimeout]"
  obtain s where s: "run_steps server_step ?es grader_server = Some s" "signalled s"
    by (simp add: server_step_def grader_server_def exec_server_def at_stage_def set_stage_def)
  obtain s1 where s1: "run_steps server_step ?fs s = Some s1" "serverPC s1 = Exited ShutdownTimeout" "requests s1 = [InSession]"
    using s(1) by (auto simp: server_step_def grader_server_def exec_server_def at_stage_def set_stage_def after_shutdown_def)
  have "program grader_server" by (simp add: program_def)
  from shutdown_ends[OF this s s1(1)] s(1) s1 show ?thesis by blast
qed

end
