(* ===== verification/Decimal.thy ===== *)
theory Decimal
  imports JsonStruct
begin

text \<open>
  Integers as decimal text: what \<open>json.Marshal\<close> and \<open>%d\<close> write for an \<open>int\<close>, and how
  \<open>json.Unmarshal\<close> fills an integer variable of \<open>w\<close> bits: a literal with a fraction or an
  exponent, or out of the variable's range, is a type error.
\<close>

definition digit_char :: "nat \<Rightarrow> char" where
  "digit_char n = char_of (48 + n)"

fun nat_str :: "nat \<Rightarrow> string" where
  "nat_str n = (if n < 10 then [digit_char n] else nat_str (n div 10) @ [digit_char (n mod 10)])"

declare nat_str.simps [simp del]

definition int_str :: "int \<Rightarrow> string" where
  "int_str i = (if i < 0 then CHR ''-'' # nat_str (nat (- i)) else nat_str (nat i))"

definition read_digits :: "string \<Rightarrow> nat" where
  "read_digits s = foldl (\<lambda>a c. 10 * a + (byte c - 48)) 0 s"

definition read_int :: "string \<Rightarrow> int option" where
  "read_int s =
     (case s of
        [] \<Rightarrow> None
      | c # cs \<Rightarrow>
          if c = CHR ''-''
          then (if cs \<noteq> [] \<and> list_all digit cs then Some (- int (read_digits cs)) else None)
          else (if list_all digit s then Some (int (read_digits s)) else None))"

definition dec_int :: "nat \<Rightarrow> int decoder" where
  "dec_int w old j =
     (case j of
        JNum n \<Rightarrow>
          (case read_int n of
             Some i \<Rightarrow> if - (2 ^ (w - 1)) \<le> i \<and> i < 2 ^ (w - 1) then Some i else None
           | None \<Rightarrow> None)
      | JNull \<Rightarrow> Some old
      | _ \<Rightarrow> None)"

lemma byte_digit_char [simp]: "n < 10 \<Longrightarrow> byte (digit_char n) = 48 + n"
  by (simp add: digit_char_def byte_def)

lemma digit_digit_char [simp]: "n < 10 \<Longrightarrow> digit (digit_char n)"
  by (simp add: digit_def)

lemma nat_str_digits: "list_all digit (nat_str n)"
proof (induction n rule: nat_str.induct)
  case (1 n)
  then show ?case by (subst nat_str.simps) simp
qed

lemma nat_str_nonempty [simp]: "nat_str n \<noteq> []"
  by (subst nat_str.simps) simp

lemma read_digits_snoc: "read_digits (s @ [c]) = 10 * read_digits s + (byte c - 48)"
  by (simp add: read_digits_def)

lemma read_digits_nat_str [simp]: "read_digits (nat_str n) = n"
proof (induction n rule: nat_str.induct)
  case (1 n)
  show ?case
  proof (cases "n < 10")
    case True
    then show ?thesis by (subst nat_str.simps) (simp add: read_digits_def)
  next
    case False
    then have "read_digits (nat_str n) = 10 * (n div 10) + n mod 10"
      using 1 by (subst nat_str.simps) (simp add: read_digits_snoc)
    then show ?thesis by simp
  qed
qed

lemma nat_str_head: "nat_str n = CHR ''0'' # r \<Longrightarrow> n = 0 \<and> r = []"
proof (induction n arbitrary: r rule: nat_str.induct)
  case (1 n)
  show ?case
  proof (cases "n < 10")
    case True
    then have "nat_str n = [digit_char n]" by (subst nat_str.simps) simp
    then have d: "digit_char n = CHR ''0''" "r = []" using 1(2) by simp_all
    then have "byte (digit_char n) = 48" by (simp add: byte_def)
    with True d(2) show ?thesis by simp
  next
    case False
    then have s: "nat_str n = nat_str (n div 10) @ [digit_char (n mod 10)]" by (subst nat_str.simps) simp
    then obtain q where "nat_str (n div 10) = CHR ''0'' # q"
      using 1(2) nat_str_nonempty[of "n div 10"] by (cases "nat_str (n div 10)") auto
    with 1(1)[OF False] have "n div 10 = 0" by blast
    with False show ?thesis by simp
  qed
qed

lemma nat_str_no_minus: "nat_str n = c # cs \<Longrightarrow> c \<noteq> CHR ''-''"
  using nat_str_digits[of n] by (auto simp: digit_def byte_def)

lemma read_int_str [simp]: "read_int (int_str i) = Some i"
proof (cases "i < 0")
  case True
  then show ?thesis
    by (simp add: int_str_def read_int_def nat_str_digits)
next
  case False
  obtain c cs where s: "nat_str (nat i) = c # cs" by (meson nat_str_nonempty neq_Nil_conv)
  have "c \<noteq> CHR ''-''" using nat_str_no_minus[OF s] .
  moreover have "list_all digit (c # cs)" using nat_str_digits[of "nat i"] s by simp
  moreover have "read_digits (c # cs) = nat i" using read_digits_nat_str[of "nat i"] s by simp
  ultimately show ?thesis using False by (simp add: int_str_def read_int_def s)
qed

lemma scan_int_nat_str: "scan_int (nat_str n) = Some (nat_str n, [])"
proof -
  obtain c cs where s: "nat_str n = c # cs" by (meson nat_str_nonempty neq_Nil_conv)
  show ?thesis
  proof (cases "c = CHR ''0''")
    case True
    then show ?thesis using nat_str_head[of n cs] s by simp
  next
    case False
    have "takeWhile digit (c # cs) = c # cs" "dropWhile digit (c # cs) = []"
      using nat_str_digits[of n] unfolding s by (simp_all add: list_all_iff)
    then show ?thesis using False by (simp add: s scan_digits_def)
  qed
qed

lemma scan_number_int_str: "scan_number (int_str i) = Some (int_str i, [])"
proof (cases "i < 0")
  case True
  then show ?thesis by (simp add: int_str_def scan_number_def scan_int_nat_str)
next
  case False
  obtain c cs where s: "nat_str (nat i) = c # cs" by (meson nat_str_nonempty neq_Nil_conv)
  then have "c \<noteq> CHR ''-''" using nat_str_no_minus by blast
  then have "take 1 (nat_str (nat i)) \<noteq> ''-''" by (simp add: s)
  then show ?thesis using False by (simp add: int_str_def scan_number_def scan_int_nat_str)
qed

lemma good_number_int [simp]: "good_numbers (JNum (int_str i))"
  by (simp add: scan_number_int_str)

lemma dec_int_str [dec_simps]:
  "dec_int w old (JNum (int_str i)) = (if - (2 ^ (w - 1)) \<le> i \<and> i < 2 ^ (w - 1) then Some i else None)"
  by (simp add: dec_int_def)

end
