(* ===== verification/AttemptTypes.thy ===== *)
theory AttemptTypes
  imports Decimal
begin

text \<open>
  The data of \<open>services/attempt-controller\<close>: the domain types of
  \<open>internal/downstream/reconcile.go\<close>, and the PocketBase record of
  \<open>internal/pocketbase/pbclient.go\<close> with its conversion \<open>ToAttempt\<close>.
\<close>

record asset =
  Name :: string
  Image :: string
  CPU :: string
  Memory :: string
  Disk :: string
  Setup :: string
  RelayProtocols :: "string list"

record environment_spec =
  Duration :: int
  Assets :: "asset list"

record exercise =
  ExID :: string
  ExDescription :: string
  ExType :: string
  ExAsset :: string
  ExTemplate :: string

record attempt =
  ID :: string
  UserID :: string
  UserName :: string
  LabID :: string
  DesiredState :: string
  DecommissionReason :: string
  Environment :: environment_spec
  Exercises :: "exercise list"

definition decommissioned :: string where
  "decommissioned = ''decommissioned''"

definition zero_asset :: asset where
  "zero_asset = \<lparr>Name = [], Image = [], CPU = [], Memory = [], Disk = [], Setup = [], RelayProtocols = []\<rparr>"

definition zero_environment :: environment_spec where
  "zero_environment = \<lparr>Duration = 0, Assets = []\<rparr>"

definition zero_exercise :: exercise where
  "zero_exercise = \<lparr>ExID = [], ExDescription = [], ExType = [], ExAsset = [], ExTemplate = []\<rparr>"

definition zero_attempt :: attempt where
  "zero_attempt = \<lparr>ID = [], UserID = [], UserName = [], LabID = [], DesiredState = [],
     DecommissionReason = [], Environment = zero_environment, Exercises = []\<rparr>"

definition asset_fields :: "asset fields" where
  "asset_fields =
     [(''name'', field Name Name_update dec_string),
      (''image'', field Image Image_update dec_string),
      (''cpu'', field CPU CPU_update dec_string),
      (''memory'', field Memory Memory_update dec_string),
      (''disk'', field Disk Disk_update dec_string),
      (''setup'', field Setup Setup_update dec_string),
      (''protocols'', field RelayProtocols RelayProtocols_update (dec_slice [] dec_string))]"

text \<open>Go's \<open>int\<close> has 64 bits on the platforms the services are built for.\<close>

definition environment_fields :: "environment_spec fields" where
  "environment_fields =
     [(''duration'', field Duration Duration_update (dec_int 64)),
      (''assets'', field Assets Assets_update (dec_slice zero_asset (dec_struct asset_fields)))]"

definition exercise_fields :: "exercise fields" where
  "exercise_fields =
     [(''id'', field ExID ExID_update dec_string),
      (''description'', field ExDescription ExDescription_update dec_string),
      (''type'', field ExType ExType_update dec_string),
      (''asset'', field ExAsset ExAsset_update dec_string),
      (''template'', field ExTemplate ExTemplate_update dec_string)]"

section \<open>The PocketBase record\<close>

record attempt_record =
  RecID :: string
  UserId :: string
  RecUserName :: string
  Lab :: string
  LabName :: string
  CurrentState :: string
  RecDesiredState :: string
  ExpiresAt :: string
  ExpandEnvironment :: "json option"
  ExpandExercises :: "json option"

definition zero_record :: attempt_record where
  "zero_record = \<lparr>RecID = [], UserId = [], RecUserName = [], Lab = [], LabName = [], CurrentState = [],
     RecDesiredState = [], ExpiresAt = [], ExpandEnvironment = None, ExpandExercises = None\<rparr>"

definition expand_lab_fields :: "attempt_record fields" where
  "expand_lab_fields =
     [(''environment'', field ExpandEnvironment ExpandEnvironment_update dec_raw),
      (''exercises'', field ExpandExercises ExpandExercises_update dec_raw)]"

definition expand_fields :: "attempt_record fields" where
  "expand_fields = [(''lab'', dec_struct expand_lab_fields)]"

definition record_fields :: "attempt_record fields" where
  "record_fields =
     [(''id'', field RecID RecID_update dec_string),
      (''user'', field UserId UserId_update dec_string),
      (''userName'', field RecUserName RecUserName_update dec_string),
      (''lab'', field Lab Lab_update dec_string),
      (''lab_name'', field LabName LabName_update dec_string),
      (''current_state'', field CurrentState CurrentState_update dec_string),
      (''desired_state'', field RecDesiredState RecDesiredState_update dec_string),
      (''expires_at'', field ExpiresAt ExpiresAt_update dec_string),
      (''expand'', dec_struct expand_fields)]"

datatype parse_error = ParseEnvironment string | ParseExercises string

definition ToAttempt :: "attempt_record \<Rightarrow> parse_error + attempt" where
  "ToAttempt r =
     (case (case ExpandEnvironment r of None \<Rightarrow> Some zero_environment
            | Some j \<Rightarrow> dec_struct environment_fields zero_environment j) of
        None \<Rightarrow> Inl (ParseEnvironment (RecID r))
      | Some env \<Rightarrow>
         (case (case ExpandExercises r of None \<Rightarrow> Some []
                | Some j \<Rightarrow> dec_slice zero_exercise (dec_struct exercise_fields) [] j) of
            None \<Rightarrow> Inl (ParseExercises (RecID r))
          | Some exercises \<Rightarrow>
              Inr \<lparr>ID = RecID r, UserID = UserId r, UserName = RecUserName r, LabID = Lab r,
                   DesiredState = RecDesiredState r, DecommissionReason = [],
                   Environment = env, Exercises = exercises\<rparr>))"

lemma ToAttempt_Inr:
  "ToAttempt r = Inr a \<Longrightarrow> ID a = RecID r \<and> DesiredState a = RecDesiredState r \<and> UserID a = UserId r \<and>
     DecommissionReason a = []"
  by (auto simp: ToAttempt_def split: option.splits)

lemma ToAttempt_no_expand:
  "ExpandEnvironment r = None \<Longrightarrow> ExpandExercises r = None \<Longrightarrow>
     ToAttempt r = Inr (zero_attempt\<lparr>ID := RecID r, UserID := UserId r, UserName := RecUserName r,
       LabID := Lab r, DesiredState := RecDesiredState r\<rparr>)"
  by (simp add: ToAttempt_def zero_attempt_def)

end
