(* ===== verification/PbClient.thy ===== *)
theory PbClient
  imports AttemptTypes Http "HOL-Library.Char_ord" "HOL-Library.List_Lexorder"
begin

text \<open>
  \<open>services/attempt-controller/internal/pocketbase/pbclient.go\<close>: the controller's PocketBase
  client. Its state is the token, threaded beside the world of the network; a 401 is answered by
  authenticating again and trying once more. \<open>quote_rune\<close> is what \<open>%q\<close> writes for a valid
  character outside ASCII, which depends on the Unicode tables.
\<close>

record client =
  baseURL :: string
  email :: string
  password :: string

type_synonym ('w, 'e, 'a) pb_call = "(string \<times> 'w, 'e client_error, 'a) call"

section \<open>Requests\<close>

text \<open>\<open>%q\<close>: a Go string literal, which is what \<open>reauth\<close> builds its JSON from.\<close>

definition go_escape :: "char \<Rightarrow> string" where
  "go_escape c =
     (if c = quote \<or> c = backslash then [backslash, c]
      else if 32 \<le> byte c \<and> byte c < 127 then [c]
      else if c = CHR 0x07 then [backslash, CHR ''a'']
      else if c = CHR 0x08 then [backslash, CHR ''b'']
      else if c = CHR 0x0C then [backslash, CHR ''f'']
      else if c = CHR 0x0A then [backslash, CHR ''n'']
      else if c = CHR 0x0D then [backslash, CHR ''r'']
      else if c = CHR 0x09 then [backslash, CHR ''t'']
      else if c = CHR 0x0B then [backslash, CHR ''v'']
      else [backslash, CHR ''x'', hex_digit (byte c div 16), hex_digit (byte c mod 16)])"

function go_quote_body :: "(string \<Rightarrow> string) \<Rightarrow> string \<Rightarrow> string" where
  "go_quote_body quote_rune s =
     (case s of
        [] \<Rightarrow> []
      | c # cs \<Rightarrow>
          (if byte c < 128 \<or> utf8_size s = 0 then go_escape c @ go_quote_body quote_rune cs
           else quote_rune (take (utf8_size s) s) @ go_quote_body quote_rune (drop (utf8_size s) s)))"
  by pat_completeness auto
termination
  by (relation "measure (\<lambda>(_, s). length s)") auto

declare go_quote_body.simps [simp del]

definition go_quote :: "(string \<Rightarrow> string) \<Rightarrow> string \<Rightarrow> string" where
  "go_quote quote_rune s = quote # go_quote_body quote_rune s @ [quote]"

definition reauth_body :: "(string \<Rightarrow> string) \<Rightarrow> client \<Rightarrow> bytes" where
  "reauth_body quote_rune c =
     ''{'' @ quote # ''identity'' @ quote # '':'' @ go_quote quote_rune (email c) @ '','' @
     quote # ''password'' @ quote # '':'' @ go_quote quote_rune (password c) @ ''}''"

definition reauth_request :: "(string \<Rightarrow> string) \<Rightarrow> client \<Rightarrow> http_request" where
  "reauth_request quote_rune c =
     \<lparr>Method = ''POST'', URL = baseURL c @ ''/api/collections/users/auth-with-password'',
      ReqHeader = [(''Content-Type'', ''application/json'')], ReqBody = reauth_body quote_rune c\<rparr>"

definition get_request :: "client \<Rightarrow> string \<Rightarrow> string \<Rightarrow> http_request" where
  "get_request c path token =
     \<lparr>Method = ''GET'', URL = baseURL c @ path, ReqHeader = [(''Authorization'', token)], ReqBody = []\<rparr>"

text \<open>\<open>json.Marshal\<close> of a \<open>map[string]any\<close>: the keys in byte order.\<close>

definition patch_body :: "(string \<times> json) list \<Rightarrow> bytes" where
  "patch_body patch = print_json (JObj (sort_key fst patch))"

definition patch_request :: "client \<Rightarrow> string \<Rightarrow> (string \<times> json) list \<Rightarrow> string \<Rightarrow> http_request" where
  "patch_request c path patch token =
     \<lparr>Method = ''PATCH'', URL = baseURL c @ path,
      ReqHeader = [(''Content-Type'', ''application/json''), (''Authorization'', token)],
      ReqBody = patch_body patch\<rparr>"

section \<open>Calls\<close>

text \<open>The network, and the three settings every call of the client shares.\<close>

record ('w, 'e) net =
  do_request :: "('w, 'e) transport"
  url_ok :: "string \<Rightarrow> bool"
  quote_rune :: "string \<Rightarrow> string"

text \<open>A request made with the current token.\<close>

definition with_token ::
  "('w, 'e) net \<Rightarrow> (string \<Rightarrow> http_request) \<Rightarrow> ('w, 'e, http_response) pb_call" where
  "with_token n req = (\<lambda>(token, w).
     let (r, w1) = send_request (url_ok n) (do_request n) (req token) w in (r, token, w1))"

definition token_fields :: "string fields" where
  "token_fields = [(''token'', dec_string)]"

definition reauth :: "('w, 'e) net \<Rightarrow> client \<Rightarrow> ('w, 'e, unit) pb_call" where
  "reauth n c = call_bind (with_token n (\<lambda>_. reauth_request (quote_rune n) c)) (\<lambda>resp.
     if StatusCode resp \<noteq> StatusOK then call_fail (UnexpectedStatus (StatusCode resp))
     else (case decode_body (dec_struct token_fields) [] (Body resp) of
             None \<Rightarrow> call_fail MalformedBody
           | Some t \<Rightarrow> if t = [] then call_fail EmptyResult else (\<lambda>(token, w). (Inr (), t, w))))"

text \<open>
  The pattern \<open>get\<close>, \<open>PatchAttempt\<close> and \<open>subscribeRealtime\<close> share: on a 401, \<open>reauth\<close> and once
  more, with the new token.
\<close>

definition retry_once ::
  "('w, 'e) net \<Rightarrow> client \<Rightarrow> (string \<Rightarrow> http_request) \<Rightarrow> ('w, 'e, http_response) pb_call" where
  "retry_once n c req = call_bind (with_token n req) (\<lambda>resp.
     if StatusCode resp = StatusUnauthorized
     then (\<lambda>s. case reauth n c s of
             (Inl e, s1) \<Rightarrow> (Inl (ReauthFailed e), s1)
           | (Inr u, s1) \<Rightarrow> with_token n req s1)
     else call_return resp)"

definition get :: "('w, 'e) net \<Rightarrow> client \<Rightarrow> string \<Rightarrow> 'a decoder \<Rightarrow> 'a \<Rightarrow> ('w, 'e, 'a) pb_call" where
  "get n c path dec zero = call_bind (retry_once n c (get_request c path)) (\<lambda>resp.
     if StatusCode resp = StatusNotFound then call_fail NotFoundError
     else if StatusCode resp \<noteq> StatusOK then call_fail (UnexpectedStatus (StatusCode resp))
     else (case decode_body dec zero (Body resp) of
             None \<Rightarrow> call_fail MalformedBody
           | Some x \<Rightarrow> call_return x))"

definition NewClient :: "('w, 'e) net \<Rightarrow> string \<Rightarrow> string \<Rightarrow> string \<Rightarrow> 'w \<Rightarrow> ('e client_error + client) \<times> string \<times> 'w" where
  "NewClient n url mail pw w =
     (let c = \<lparr>baseURL = trim_right_char CHR ''/'' url, email = mail, password = pw\<rparr> in
      case reauth n c ([], w) of (Inl e, s) \<Rightarrow> (Inl e, s) | (Inr u, s) \<Rightarrow> (Inr c, s))"

definition items_fields :: "attempt_record list fields" where
  "items_fields = [(''items'', dec_slice zero_record (dec_struct record_fields))]"

definition active_path :: string where
  "active_path = ''/api/collections/attempts/records?filter='' @
     query_escape ''(current_state!=desired_state)'' @ CHR 0x26 # ''expand='' @ query_escape ''lab''"

text \<open>Records that do not convert are skipped.\<close>

fun convert_all :: "attempt_record list \<Rightarrow> attempt list" where
  "convert_all [] = []"
| "convert_all (r # rs) =
     (case ToAttempt r of Inl e \<Rightarrow> convert_all rs | Inr a \<Rightarrow> a # convert_all rs)"

definition ListActiveAttempts :: "('w, 'e) net \<Rightarrow> client \<Rightarrow> ('w, 'e, attempt list) pb_call" where
  "ListActiveAttempts n c =
     call_bind (get n c active_path (dec_struct items_fields) []) (\<lambda>items. call_return (convert_all items))"

definition GetAttempt :: "('w, 'e) net \<Rightarrow> client \<Rightarrow> string \<Rightarrow> ('w, 'e, attempt_record) pb_call" where
  "GetAttempt n c aid =
     get n c (''/api/collections/attempts/records/'' @ aid @ ''?expand='' @ query_escape ''lab'')
       (dec_struct record_fields) zero_record"

definition PatchAttempt :: "('w, 'e) net \<Rightarrow> client \<Rightarrow> string \<Rightarrow> (string \<times> json) list \<Rightarrow> ('w, 'e, unit) pb_call" where
  "PatchAttempt n c aid patch =
     call_bind (retry_once n c (patch_request c (''/api/collections/attempts/records/'' @ aid) patch)) (\<lambda>resp.
       if StatusCode resp \<noteq> StatusOK then call_fail (UnexpectedStatus (StatusCode resp))
       else call_return ())"

section \<open>How often a request is sent\<close>

text \<open>A network that answers from what was sent so far, and keeps it.\<close>

definition logged :: "(http_request list \<Rightarrow> http_request \<Rightarrow> 'e + http_response) \<Rightarrow> (http_request list, 'e) transport" where
  "logged ans req w = (ans w req, w @ [req])"

definition answers :: "(http_request list \<Rightarrow> http_request \<Rightarrow> 'e + http_response) \<Rightarrow> http_request list \<Rightarrow>
    http_request \<Rightarrow> int \<Rightarrow> bool" where
  "answers ans w req code \<longleftrightarrow> (\<exists>resp. ans w req = Inr resp \<and> StatusCode resp = code)"

lemma with_token_logged:
  assumes "do_request n = logged ans"
  shows "with_token n req (t, w) =
    (if \<not> url_ok n (URL (req t)) then (Inl BadRequestURL, t, w)
     else (case ans w (req t) of Inl e \<Rightarrow> (Inl (TransportError e), t, w @ [req t])
           | Inr resp \<Rightarrow> (Inr resp, t, w @ [req t])))"
  by (simp add: with_token_def send_request_def assms logged_def split: sum.split)

lemma reauth_logged:
  assumes "do_request n = logged ans" "reauth n c (t, w) = (r, t', w')"
  shows "(\<exists>e. r = Inl e \<and> t' = t \<and> (w' = w \<or> w' = w @ [reauth_request (quote_rune n) c])) \<or>
    (r = Inr () \<and> t' \<noteq> [] \<and> w' = w @ [reauth_request (quote_rune n) c] \<and>
       answers ans w (reauth_request (quote_rune n) c) StatusOK)"
  using assms(2) unfolding reauth_def
  by (auto simp: call_bind_def with_token_logged[OF assms(1)] call_fail_def answers_def
      split: if_splits sum.splits option.splits)

text \<open>The possible exchanges of \<open>retry_once\<close>, started with token \<open>t\<close> and nothing sent.\<close>

lemma retry_once_logged:
  fixes n :: "(http_request list, 'e) net" and c :: client
  assumes "do_request n = logged ans" "retry_once n c req (t, w) = (r, t', w')"
    "\<And>t1 t2. URL (req t1) = URL (req t2)"
  defines "auth \<equiv> reauth_request (quote_rune n) c"
  shows "(w' = w \<and> t' = t \<and> (\<exists>e. r = Inl e)) \<or>
    (w' = w @ [req t] \<and> t' = t \<and>
       (\<forall>resp. r = Inr resp \<longleftrightarrow> ans w (req t) = Inr resp \<and> StatusCode resp \<noteq> StatusUnauthorized)) \<or>
    (answers ans w (req t) StatusUnauthorized \<and> w' = w @ [req t, auth] \<and> t' = t \<and> (\<exists>e. r = Inl e)) \<or>
    (answers ans w (req t) StatusUnauthorized \<and> answers ans (w @ [req t]) auth StatusOK \<and> t' \<noteq> [] \<and>
       w' = w @ [req t, auth, req t'] \<and> (\<forall>resp. r = Inr resp \<longleftrightarrow> ans (w @ [req t, auth]) (req t') = Inr resp))"
proof (cases "url_ok n (URL (req t))")
  case False
  then show ?thesis
    using assms(2) by (auto simp: retry_once_def call_bind_def with_token_logged[OF assms(1)])
next
  case ok: True
  show ?thesis
  proof (cases "ans w (req t)")
    case (Inl e)
    then show ?thesis
      using assms(2) ok by (auto simp: retry_once_def call_bind_def with_token_logged[OF assms(1)])
  next
    case (Inr resp)
    show ?thesis
    proof (cases "StatusCode resp = StatusUnauthorized")
      case False
      then show ?thesis
        using assms(2) ok Inr
        by (auto simp: retry_once_def call_bind_def call_return_def with_token_logged[OF assms(1)])
    next
      case True
      then have a: "answers ans w (req t) StatusUnauthorized" using Inr by (simp add: answers_def)
      obtain ra ta wa where ra: "reauth n c (t, w @ [req t]) = (ra, ta, wa)" by (metis prod_cases3)
      have r: "(r, t', w') = (case ra of Inl e \<Rightarrow> (Inl (ReauthFailed e), ta, wa)
          | Inr u \<Rightarrow> with_token n req (ta, wa))"
        using assms(2) ok Inr True ra
        by (simp add: retry_once_def call_bind_def with_token_logged[OF assms(1)] split: sum.splits)
      show ?thesis
        using reauth_logged[OF assms(1) ra] a r Inr True ok assms(3)[of ta t]
        by (auto simp: with_token_logged[OF assms(1)] auth_def split: if_splits sum.splits)
    qed
  qed
qed

lemma PatchAttempt_logged:
  fixes n :: "(http_request list, 'e) net" and c :: client
  assumes "do_request n = logged ans" "PatchAttempt n c aid p (t, []) = (r, t', log)"
  defines "req \<equiv> patch_request c (''/api/collections/attempts/records/'' @ aid) p"
    and "auth \<equiv> reauth_request (quote_rune n) c"
  shows "(log = [] \<and> t' = t \<and> r \<noteq> Inr ()) \<or>
    (log = [req t] \<and> t' = t \<and> (r = Inr () \<longleftrightarrow> answers ans [] (req t) StatusOK)) \<or>
    (answers ans [] (req t) StatusUnauthorized \<and> log = [req t, auth] \<and> t' = t \<and> r \<noteq> Inr ()) \<or>
    (answers ans [] (req t) StatusUnauthorized \<and> answers ans [req t] auth StatusOK \<and> t' \<noteq> [] \<and>
       log = [req t, auth, req t'] \<and> (r = Inr () \<longleftrightarrow> answers ans [req t, auth] (req t') StatusOK))"
proof -
  have u: "URL (req t1) = URL (req t2)" for t1 t2 by (simp add: req_def patch_request_def)
  obtain r1 where r1: "retry_once n c req (t, []) = (r1, t', log)"
    and r: "r = (case r1 of Inl e \<Rightarrow> Inl e | Inr resp \<Rightarrow>
        if StatusCode resp \<noteq> StatusOK then Inl (UnexpectedStatus (StatusCode resp)) else Inr ())"
    using assms(2)
    by (auto simp: PatchAttempt_def call_bind_def req_def call_fail_def call_return_def
        split: prod.splits sum.splits if_splits)
  have "r = Inr () \<longleftrightarrow> (\<exists>resp. r1 = Inr resp \<and> StatusCode resp = StatusOK)"
    by (simp add: r split: sum.splits)
  then show ?thesis
    using retry_once_logged[OF assms(1) r1 u] unfolding auth_def
    by (auto simp: answers_def status_defs)
qed


text \<open>A PocketBase whose session has expired: it accepts only the token it issues next.\<close>

definition expired_answer :: "http_request list \<Rightarrow> http_request \<Rightarrow> unit + http_response" where
  "expired_answer sent req =
     (if Method req = ''POST'' then Inr \<lparr>StatusCode = 200, Body = print_json (JObj [(''token'', JStr ''new'')])\<rparr>
      else if map_of (ReqHeader req) ''Authorization'' = Some ''new'' then Inr \<lparr>StatusCode = 200, Body = []\<rparr>
      else Inr \<lparr>StatusCode = 401, Body = []\<rparr>)"

definition demo_net :: "(http_request list, unit) net" where
  "demo_net = \<lparr>do_request = logged expired_answer, url_ok = (\<lambda>_. True), quote_rune = (\<lambda>r. r)\<rparr>"

definition demo_client :: client where
  "demo_client = \<lparr>baseURL = ''http://pb'', email = ''ctl@lab'', password = ''pw''\<rparr>"

lemma demo_token_body:
  "decode_body (dec_struct token_fields) [] (print_json (JObj [(''token'', JStr ''new'')])) = Some ''new''"
proof -
  have c: "json_clean (JObj [(''token'', JStr ''new'')]) = JObj [(''token'', JStr ''new'')]" by code_simp
  have "dec_struct token_fields [] (JObj [(''token'', JStr ''new'')]) = Some ''new''" by code_simp
  then show ?thesis
    using decode_body_print[of "JObj [(''token'', JStr ''new'')]" "[]" "dec_struct token_fields" "[]"] c
    by (simp add: max_nesting_def)
qed

lemma demo_patch:
  "\<exists>log. PatchAttempt demo_net demo_client ''a1'' [] (''old'', []) = (Inr (), ''new'', log) \<and> length log = 3"
  by (simp add: PatchAttempt_def retry_once_def reauth_def call_bind_def with_token_def send_request_def demo_net_def
      logged_def expired_answer_def patch_request_def reauth_request_def status_defs demo_token_body call_return_def
      del: print_json.simps print_members.simps)


section \<open>Credentials\<close>

text \<open>The characters \<open>%q\<close> and JSON write alike up to the choice of escape.\<close>

definition json_safe :: "char \<Rightarrow> bool" where
  "json_safe c \<longleftrightarrow> (32 \<le> byte c \<and> byte c < 127) \<or> c \<in> {CHR 0x08, CHR 0x0C, CHR 0x0A, CHR 0x0D, CHR 0x09}"

lemma unquote_go_escape:
  assumes "json_safe c" shows "unquote_body (go_escape c @ r) = prepend [c] (unquote_body r)"
proof -
  consider "c = quote" | "c = backslash" | "c = CHR 0x08" | "c = CHR 0x0C" | "c = CHR 0x0A" | "c = CHR 0x0D"
    | "c = CHR 0x09" | "c \<noteq> quote" "c \<noteq> backslash" "32 \<le> byte c" "byte c < 127"
    using assms by (auto simp: json_safe_def)
  then show ?thesis
  proof cases
    case 8
    then show ?thesis by (simp add: go_escape_def unquote_ascii)
  qed (simp_all add: go_escape_def quote_def[symmetric] backslash_def[symmetric] byte_def)
qed

lemma json_safe_ascii: "json_safe c \<Longrightarrow> byte c < 128"
  by (auto simp: json_safe_def byte_def)

lemma unquote_go_quote:
  "list_all json_safe s \<Longrightarrow> unquote_body (go_quote_body q s @ quote # r) = Some (s, r)"
proof (induction s)
  case Nil
  show ?case by (subst go_quote_body.simps) simp
next
  case (Cons c cs)
  have "go_quote_body q (c # cs) = go_escape c @ go_quote_body q cs"
    using Cons.prems json_safe_ascii[of c] by (subst go_quote_body.simps) simp
  then show ?case using Cons unquote_go_escape[of c "go_quote_body q cs @ quote # r"] by simp
qed

lemma parse_go_quote:
  "list_all json_safe s \<Longrightarrow> parse_value d (go_quote q s @ r) = Some (JStr s, r)"
  by (simp add: go_quote_def parse_value_quote unquote_go_quote)

lemma starts_go_quote: "starts_value (go_quote q s @ r)"
  by (simp add: go_quote_def starts_value_def quote_def json_space_def)

text \<open>
  An address and a password of printable ASCII, blanks and common control characters reach
  PocketBase unharmed: the body of the authentication request is JSON with exactly these two
  strings, although it is built with \<open>%q\<close> and not by the JSON library.
\<close>
theorem credentials_reach_pocketbase:
  assumes "list_all json_safe (email c)" "list_all json_safe (password c)"
  shows "json_parse (reauth_body q c) = Some (JObj [(''identity'', JStr (email c)), (''password'', JStr (password c))])"
proof -
  have names: "quote # ''identity'' @ [quote] = quote_string ''identity''"
    "quote # ''password'' @ [quote] = quote_string ''password''"
    "sanitize ''identity'' = ''identity''" "sanitize ''password'' = ''password''" by code_simp+
  let ?u = "quote_string ''password'' @ CHR '':'' # go_quote q (password c) @ ''}''"
  let ?t = "go_quote q (email c) @ CHR '','' # ?u"
  have u: "starts_value ?u" by (intro starts_value_append starts_quote_string)
  have "parse_members d ?u = Some ([(''password'', JStr (password c))], [])" for d
    using parse_members_last[OF starts_go_quote[of q "password c" "''}''"]
        parse_go_quote[OF assms(2), of d q "''}''"], of "''password''"] names by simp
  then have m: "parse_members d (quote_string ''identity'' @ CHR '':'' # ?t) =
      Some ([(''identity'', JStr (email c)), (''password'', JStr (password c))], [])" for d
    using parse_members_more[OF starts_go_quote[of q "email c" "CHR '','' # ?u"]
        parse_go_quote[OF assms(1), of d q "CHR '','' # ?u"] u, of "''identity''"] names by simp
  have b: "reauth_body q c = CHR ''{'' # quote_string ''identity'' @ CHR '':'' # ?t"
    unfolding reauth_body_def names(1,2)[symmetric] by simp
  have s: "starts_value (quote_string ''identity'' @ CHR '':'' # ?t)"
    by (intro starts_value_append starts_quote_string)
  obtain d where d: "max_nesting = Suc d" by (metis max_nesting_def not0_implies_Suc zero_neq_numeral)
  have "parse_value (Suc d) (CHR ''{'' # quote_string ''identity'' @ CHR '':'' # ?t) =
      Some (JObj [(''identity'', JStr (email c)), (''password'', JStr (password c))], [])"
    unfolding parse_value_object skip_ws_starts[OF s] m using starts_value_take[OF s] by simp
  then show ?thesis
    unfolding json_parse_def d b by (simp add: skip_ws_def json_space_def)
qed

theorem credentials_reach_pocketbase_witness:
  "json_parse (reauth_body (\<lambda>r. r) demo_client) = Some (JObj [(''identity'', JStr ''ctl@lab''), (''password'', JStr ''pw'')])"
proof -
  have "list_all json_safe (email demo_client)" "list_all json_safe (password demo_client)" by code_simp+
  from credentials_reach_pocketbase[OF this] show ?thesis by (simp add: demo_client_def)
qed

lemma go_quote_body_Nil [simp]: "go_quote_body q [] = []"
  by (subst go_quote_body.simps) simp

lemma go_escape_foreign:
  assumes "x \<in> {CHR 0x07, CHR 0x0B, CHR 0x7F, CHR 0xFF}"
  shows "unquote_body (go_quote_body q [x] @ quote # r) = None"
proof -
  have "byte x < 128 \<or> utf8_size [x] = 0"
    using assms by (auto simp: byte_def utf8_size.simps(2))
  then have g: "go_quote_body q [x] = go_escape x"
    by (subst go_quote_body.simps) simp
  have "\<exists>e cs. go_escape x = backslash # e # cs \<and> e \<in> {CHR ''a'', CHR ''v'', CHR ''x''}"
    using assms by (elim insertE emptyE) (simp_all add: go_escape_def quote_def backslash_def byte_def)
  then obtain e cs where e: "go_escape x = backslash # e # cs" "e \<in> {CHR ''a'', CHR ''v'', CHR ''x''}" by blast
  then have "unescape (e # cs @ quote # r) = None"
    by (auto simp: unescape.simps quote_def backslash_def)
  then show ?thesis by (simp add: g e(1) unquote_escape)
qed

lemma parse_members_bad:
  assumes "starts_value t" "parse_value d t = None"
  shows "parse_members d (quote_string k @ CHR '':'' # t) = None"
  using assms
  by (subst parse_members.simps) (simp add: quote_string_def unquote_quote_body skip_ws_starts)

lemma reauth_body_bad:
  assumes "list_all json_safe (email c)" "\<And>r. unquote_body (go_quote_body q (password c) @ quote # r) = None"
  shows "json_parse (reauth_body q c) = None"
proof -
  have names: "quote # ''identity'' @ [quote] = quote_string ''identity''"
    "quote # ''password'' @ [quote] = quote_string ''password''" by code_simp+
  let ?u = "quote_string ''password'' @ CHR '':'' # go_quote q (password c) @ ''}''"
  let ?t = "go_quote q (email c) @ CHR '','' # ?u"
  have u: "starts_value ?u" by (intro starts_value_append starts_quote_string)
  have "parse_value d (go_quote q (password c) @ ''}'') = None" for d
    using assms(2) by (simp add: go_quote_def parse_value_quote)
  then have "parse_members d ?u = None" for d
    by (rule parse_members_bad[OF starts_go_quote])
  then have m: "parse_members d (quote_string ''identity'' @ CHR '':'' # ?t) = None" for d
    using parse_members_more[OF starts_go_quote[of q "email c" "CHR '','' # ?u"]
        parse_go_quote[OF assms(1), of d q "CHR '','' # ?u"] u, of "''identity''"] by simp
  have b: "reauth_body q c = CHR ''{'' # quote_string ''identity'' @ CHR '':'' # ?t"
    unfolding reauth_body_def names[symmetric] by simp
  have s: "starts_value (quote_string ''identity'' @ CHR '':'' # ?t)"
    by (intro starts_value_append starts_quote_string)
  obtain d where d: "max_nesting = Suc d" by (metis max_nesting_def not0_implies_Suc zero_neq_numeral)
  have "parse_value (Suc d) (CHR ''{'' # quote_string ''identity'' @ CHR '':'' # ?t) = None"
    unfolding parse_value_object skip_ws_starts[OF s] m using starts_value_take[OF s] by simp
  then show ?thesis
    unfolding json_parse_def d b by (simp add: skip_ws_def json_space_def)
qed

text \<open>
  Other passwords cannot log in: \<open>%q\<close> writes some characters with escapes JSON does not
  have, and a password with a bell, a vertical tab, a delete or a byte that is not UTF-8 makes a
  body no JSON reader accepts.
\<close>
theorem some_passwords_never_authenticate:
  "list_all (\<lambda>x. json_parse (reauth_body q (demo_client\<lparr>password := [x]\<rparr>)) = None)
     [CHR 0x07, CHR 0x0B, CHR 0x7F, CHR 0xFF]"
proof -
  have e: "list_all json_safe (email (demo_client\<lparr>password := [x]\<rparr>))" for x by code_simp
  have "json_parse (reauth_body q (demo_client\<lparr>password := [x]\<rparr>)) = None"
    if "x \<in> {CHR 0x07, CHR 0x0B, CHR 0x7F, CHR 0xFF}" for x
    by (rule reauth_body_bad[OF e]) (simp add: go_escape_foreign[OF that])
  then show ?thesis by (simp add: list_all_iff)
qed

end
