(* ===== verification/Realtime.thy ===== *)
theory Realtime
  imports PbClient ForwardWire
begin

text \<open>
  \<open>services/attempt-controller/internal/pocketbase/realtime.go\<close>: the subscription to PocketBase's
  server-sent events. A connection is the text it delivers until it ends, cut into lines by the
  scanner of \<open>ForwardWire\<close>; \<open>handler\<close> and \<open>onConnect\<close> are functions on the state
  \<open>(token, world)\<close> that the client threads.
\<close>

section \<open>Frames\<close>

text \<open>The loop of \<open>readSSEEvent\<close>, with the event name and data lines read so far.\<close>

fun read_frame :: "string \<Rightarrow> string list \<Rightarrow> string list \<Rightarrow> (string \<times> bytes) option \<times> string list" where
  "read_frame event datas [] =
     (if event \<noteq> [] \<or> datas \<noteq> [] then (Some (event, join [newline] datas), []) else (None, []))"
| "read_frame event datas (line # lines) =
     (if line = [] then
        (if event = [] \<and> datas = [] then read_frame event datas lines
         else (Some (event, join [newline] datas), lines))
      else if has_prefix line ''event:'' then read_frame (trim_space (trim_prefix line ''event:'')) datas lines
      else if has_prefix line ''data:''
      then read_frame event (datas @ [trim_prefix (trim_prefix line ''data:'') '' '']) lines
      else read_frame event datas lines)"

definition readSSEEvent :: "string list \<Rightarrow> (string \<times> bytes) option \<times> string list" where
  "readSSEEvent lines = read_frame [] [] lines"

lemma read_frame_shorter:
  "read_frame ev ds lines = (Some f, rest) \<Longrightarrow> ev = [] \<and> ds = [] \<Longrightarrow> length rest < length lines"
proof -
  have weak: "read_frame ev ds lines = (Some f, rest) \<Longrightarrow> length rest \<le> length lines" for ev ds lines
    by (induction ev ds lines rule: read_frame.induct) (auto split: if_splits)
  show "read_frame ev ds lines = (Some f, rest) \<Longrightarrow> ev = [] \<and> ds = [] \<Longrightarrow> length rest < length lines"
  proof (induction ev ds lines rule: read_frame.induct)
    case (2 event datas line lines)
    then show ?case using weak by (auto split: if_splits intro: le_less_trans)
  qed simp
qed

lemma readSSEEvent_shorter:
  "readSSEEvent lines = (Some f, rest) \<Longrightarrow> length rest < length lines"
  unfolding readSSEEvent_def by (rule read_frame_shorter) simp_all

text \<open>All frames of a stream.\<close>

function read_events :: "string list \<Rightarrow> (string \<times> bytes) list" where
  "read_events lines =
     (case readSSEEvent lines of
        (None, rest) \<Rightarrow> []
      | (Some f, rest) \<Rightarrow> f # read_events rest)"
  by pat_completeness auto
termination
  by (relation "measure length") (auto dest: readSSEEvent_shorter[OF sym])

declare read_events.simps [simp del]

section \<open>The subscription\<close>

record realtime_event =
  Action :: string
  Record :: attempt_record

definition zero_event :: realtime_event where
  "zero_event = \<lparr>Action = [], Record = zero_record\<rparr>"

definition event_fields :: "realtime_event fields" where
  "event_fields =
     [(''action'', field Action Action_update dec_string),
      (''record'', field Record Record_update (dec_struct record_fields))]"

definition connect_fields :: "string fields" where
  "connect_fields = [(''clientId'', dec_string)]"

definition attempts_topic :: string where
  "attempts_topic = ''attempts/*?expand=lab''"

definition subscribe_request :: "client \<Rightarrow> string \<Rightarrow> string list \<Rightarrow> string \<Rightarrow> http_request" where
  "subscribe_request c clientID subs token =
     \<lparr>Method = ''POST'', URL = baseURL c @ ''/api/realtime'',
      ReqHeader = [(''Content-Type'', ''application/json''), (''Authorization'', token)],
      ReqBody = print_json (JObj [(''clientId'', JStr clientID), (''subscriptions'', JArr (map JStr subs))])\<rparr>"

definition subscribeRealtime :: "('w, 'e) net \<Rightarrow> client \<Rightarrow> string \<Rightarrow> string list \<Rightarrow> ('w, 'e, unit) pb_call" where
  "subscribeRealtime n c clientID subs =
     call_bind (retry_once n c (subscribe_request c clientID subs)) (\<lambda>resp.
       if StatusCode resp \<noteq> StatusOK \<and> StatusCode resp \<noteq> StatusNoContent
       then call_fail (UnexpectedStatus (StatusCode resp)) else call_return ())"

text \<open>How a subscription ends: the stream ended, an event did not parse, or subscribing failed.\<close>

datatype 'e subscription_end =
    StreamEnded
  | BadConnectEvent
  | BadEvent
  | SubscribeFailed "'e client_error"

text \<open>The body of the loop, for one frame.\<close>

definition handle_event ::
  "('w, 'e) net \<Rightarrow> client \<Rightarrow> (string \<Rightarrow> attempt_record \<Rightarrow> string \<times> 'w \<Rightarrow> string \<times> 'w) \<Rightarrow>
     (string \<times> 'w \<Rightarrow> string \<times> 'w) \<Rightarrow> string \<Rightarrow> bytes \<Rightarrow> string \<times> 'w \<Rightarrow>
     'e subscription_end option \<times> string \<times> 'w" where
  "handle_event n c handler onConnect event data s =
     (if event = ''PB_CONNECT'' then
        (case unmarshal (dec_struct connect_fields) [] data of
           None \<Rightarrow> (Some BadConnectEvent, s)
         | Some clientID \<Rightarrow>
            (case subscribeRealtime n c clientID [attempts_topic] s of
               (Inl e, s1) \<Rightarrow> (Some (SubscribeFailed e), s1)
             | (Inr u, s1) \<Rightarrow> (None, onConnect s1)))
      else if \<not> has_prefix event ''attempts/'' then (None, s)
      else (case unmarshal (dec_struct event_fields) zero_event data of
           None \<Rightarrow> (Some BadEvent, s)
         | Some ev \<Rightarrow> (None, handler (Action ev) (Record ev) s)))"

fun handle_events ::
  "('w, 'e) net \<Rightarrow> client \<Rightarrow> (string \<Rightarrow> attempt_record \<Rightarrow> string \<times> 'w \<Rightarrow> string \<times> 'w) \<Rightarrow>
     (string \<times> 'w \<Rightarrow> string \<times> 'w) \<Rightarrow> (string \<times> bytes) list \<Rightarrow> string \<times> 'w \<Rightarrow>
     'e subscription_end \<times> string \<times> 'w" where
  "handle_events n c handler onConnect [] s = (StreamEnded, s)"
| "handle_events n c handler onConnect ((event, data) # fs) s =
     (case handle_event n c handler onConnect event data s of
        (Some e, s1) \<Rightarrow> (e, s1)
      | (None, s1) \<Rightarrow> handle_events n c handler onConnect fs s1)"

text \<open>\<open>SubscribeAttempts\<close> once the stream is open.\<close>

definition SubscribeAttempts ::
  "('w, 'e) net \<Rightarrow> client \<Rightarrow> (string \<Rightarrow> attempt_record \<Rightarrow> string \<times> 'w \<Rightarrow> string \<times> 'w) \<Rightarrow>
     (string \<times> 'w \<Rightarrow> string \<times> 'w) \<Rightarrow> bytes \<Rightarrow> string \<times> 'w \<Rightarrow> 'e subscription_end \<times> string \<times> 'w" where
  "SubscribeAttempts n c handler onConnect stream s =
     handle_events n c handler onConnect (read_events (scan_lines stream)) s"

text \<open>\<open>RunAttemptSubscription\<close> over the streams of successive connections, until the context ends.\<close>

fun RunAttemptSubscription ::
  "('w, 'e) net \<Rightarrow> client \<Rightarrow> (string \<Rightarrow> attempt_record \<Rightarrow> string \<times> 'w \<Rightarrow> string \<times> 'w) \<Rightarrow>
     (string \<times> 'w \<Rightarrow> string \<times> 'w) \<Rightarrow> bytes list \<Rightarrow> string \<times> 'w \<Rightarrow> string \<times> 'w" where
  "RunAttemptSubscription n c handler onConnect [] s = s"
| "RunAttemptSubscription n c handler onConnect (stream # streams) s =
     RunAttemptSubscription n c handler onConnect streams (snd (SubscribeAttempts n c handler onConnect stream s))"

section \<open>What a server writes is what is read\<close>

text \<open>The frame of an event: a name and data without line breaks, and the blank line.\<close>

definition sse_frame :: "string \<times> bytes \<Rightarrow> bytes" where
  "sse_frame f = ''event:'' @ fst f @ newline # ''data:'' @ snd f @ newline # [newline]"

definition plain_frame :: "string \<times> bytes \<Rightarrow> bool" where
  "plain_frame f \<longleftrightarrow> trim_space (fst f) = fst f \<and> newline \<notin> set (fst f) \<and> carriage_return \<notin> set (fst f) \<and>
     newline \<notin> set (snd f) \<and> carriage_return \<notin> set (snd f) \<and> \<not> has_prefix (snd f) '' '' \<and>
     length (fst f) + 6 < max_token \<and> length (snd f) + 5 < max_token"

lemma drop_cr_absent: "carriage_return \<notin> set l \<Longrightarrow> drop_cr l = l"
  by (auto simp: drop_cr_def dest: last_in_set)

lemma scan_frame:
  assumes "plain_frame f"
  shows "scan_lines (sse_frame f @ r) = (''event:'' @ fst f) # (''data:'' @ snd f) # [] # scan_lines r"
proof -
  have n: "newline \<notin> set (''event:'' @ fst f)" "newline \<notin> set (''data:'' @ snd f)"
    "carriage_return \<notin> set (''event:'' @ fst f)" "carriage_return \<notin> set (''data:'' @ snd f)"
    using assms by (simp_all add: plain_frame_def newline_def carriage_return_def)
  have s: "sse_frame f @ r = (''event:'' @ fst f) @ newline # (''data:'' @ snd f) @ newline # [] @ newline # r"
    by (simp add: sse_frame_def)
  have l: "length (''event:'' @ fst f) < max_token" "length (''data:'' @ snd f) < max_token"
    "length ([] :: string) < max_token"
    using assms by (simp_all add: plain_frame_def max_token_def)
  have nil: "newline \<notin> set ([] :: string)" by simp
  show ?thesis
    unfolding s scan_lines_line[OF n(1) l(1)] scan_lines_line[OF n(2) l(2)] scan_lines_line[OF nil l(3)]
    unfolding drop_cr_absent[OF n(3)] drop_cr_absent[OF n(4)] by (simp add: drop_cr_def)
qed

lemma readSSE_frame:
  assumes "plain_frame f"
  shows "readSSEEvent ((''event:'' @ fst f) # (''data:'' @ snd f) # [] # lines) = (Some f, lines)"
proof -
  have e: "has_prefix (''event:'' @ fst f) ''event:''" "trim_prefix (''event:'' @ fst f) ''event:'' = fst f"
    by (rule has_prefix_append, rule trim_prefix_append)
  have d: "\<not> has_prefix (''data:'' @ snd f) ''event:''" "has_prefix (''data:'' @ snd f) ''data:''"
    "trim_prefix (''data:'' @ snd f) ''data:'' = snd f"
    by (simp add: has_prefix_def, rule has_prefix_append, rule trim_prefix_append)
  have t: "trim_prefix (snd f) '' '' = snd f" using assms by (simp add: plain_frame_def trim_prefix_no)
  have ne: "''event:'' @ fst f \<noteq> []" "''data:'' @ snd f \<noteq> []" by simp_all
  show ?thesis
    unfolding readSSEEvent_def read_frame.simps(2) using e d t ne assms
    by (simp only: if_True if_False plain_frame_def) simp
qed

text \<open>
  Every frame a server writes in the usual form - a name, one line of data, a blank line, within
  the scanner's limit - is read back with its name and data, in order and with none left out,
  whatever follows in the stream.
\<close>
theorem sse_roundtrip:
  assumes "list_all plain_frame fs"
  shows "read_events (scan_lines (concat (map sse_frame fs) @ r)) = fs @ read_events (scan_lines r)"
  using assms
proof (induction fs)
  case (Cons f fs)
  then have f: "plain_frame f" and fs: "list_all plain_frame fs" by simp_all
  have "scan_lines (concat (map sse_frame (f # fs)) @ r) =
      (''event:'' @ fst f) # (''data:'' @ snd f) # [] # scan_lines (concat (map sse_frame fs) @ r)"
    using scan_frame[OF f, of "concat (map sse_frame fs) @ r"] by (simp only: list.map concat.simps append_assoc)
  then have "read_events (scan_lines (concat (map sse_frame (f # fs)) @ r)) =
      f # read_events (scan_lines (concat (map sse_frame fs) @ r))"
    using readSSE_frame[OF f] by (simp only:) (subst read_events.simps, simp only: prod.case option.case)
  then show ?case using Cons.IH[OF fs] by simp
qed simp

theorem sse_roundtrip_witness:
  "read_events (scan_lines (sse_frame (''PB_CONNECT'', ''{}'') @ sse_frame (''attempts/x'', ''1''))) =
     [(''PB_CONNECT'', ''{}''), (''attempts/x'', ''1'')]"
proof -
  have p: "list_all plain_frame [(''PB_CONNECT'', ''{}''), (''attempts/x'', ''1'')]"
    by (simp add: plain_frame_def max_token_def trim_space_graphic graphic_def has_prefix_def
        newline_def carriage_return_def)
  show ?thesis using sse_roundtrip[OF p, of "[]"] by (simp add: read_events.simps readSSEEvent_def)
qed

section \<open>Which events reach the handler\<close>

text \<open>The attempt events of a list of frames up to the first that does not parse.\<close>

fun attempt_events :: "(string \<times> bytes) list \<Rightarrow> realtime_event list" where
  "attempt_events [] = []"
| "attempt_events ((event, data) # fs) =
     (if has_prefix event ''attempts/'' then
        (case unmarshal (dec_struct event_fields) zero_event data of
           None \<Rightarrow> []
         | Some ev \<Rightarrow> ev # attempt_events fs)
      else attempt_events fs)"

lemma connect_no_attempt: "has_prefix event ''attempts/'' \<Longrightarrow> event \<noteq> ''PB_CONNECT''"
  by (auto simp: has_prefix_def)

text \<open>
  After the connection is set up, the handler is called once for each attempt event, in the
  order of the stream and with the decoded action and record, up to the first event that does not
  parse; other topics change nothing; and the first event that does not parse ends the
  subscription, dropping what follows it.
\<close>
theorem events_handled_in_order:
  assumes "list_all (\<lambda>f. fst f \<noteq> ''PB_CONNECT'') fs"
  shows "handle_events n c handler onConnect fs s =
    (if length (attempt_events fs) = length (filter (\<lambda>f. has_prefix (fst f) ''attempts/'') fs)
     then StreamEnded else BadEvent,
     fold (\<lambda>ev. handler (Action ev) (Record ev)) (attempt_events fs) s)"
  using assms
proof (induction fs arbitrary: s)
  case (Cons f fs)
  obtain event data where f: "f = (event, data)" by force
  show ?case
  proof (cases "has_prefix event ''attempts/''")
    case False
    then show ?thesis using Cons f by (simp add: handle_event_def)
  next
    case True
    show ?thesis
    proof (cases "unmarshal (dec_struct event_fields) zero_event data")
      case None
      then show ?thesis using Cons.prems True f by (simp add: handle_event_def)
    next
      case (Some ev)
      then show ?thesis using Cons True f by (simp add: handle_event_def)
    qed
  qed
qed simp

text \<open>A handler that records the actions.\<close>

definition record_action :: "string \<Rightarrow> attempt_record \<Rightarrow> string \<times> string list \<Rightarrow> string \<times> string list" where
  "record_action action r s = (fst s, snd s @ [action])"

definition silent_net :: "('w, unit) net" where
  "silent_net = \<lparr>do_request = (\<lambda>req w. (Inl (), w)), url_ok = (\<lambda>_. True), quote_rune = (\<lambda>s. s)\<rparr>"

theorem events_handled_in_order_witness:
  "snd (handle_events silent_net \<lparr>baseURL = [], email = [], password = []\<rparr> record_action (\<lambda>s. s)
      [(''attempts/x'', ''{}''), (''PING'', []), (''attempts/y'', ''?''), (''attempts/z'', ''{}'')] ([], [])) =
    ([], [[]])"
proof -
  let ?fs = "[(''attempts/x'', ''{}''), (''PING'', []), (''attempts/y'', ''?''), (''attempts/z'', ''{}'')]"
  have "unmarshal (dec_struct event_fields) zero_event (print_json (JObj [])) = Some zero_event"
    by (subst unmarshal_print) (simp_all add: max_nesting_def dec_struct_def)
  then have "unmarshal (dec_struct event_fields) zero_event ''{}'' = Some zero_event" by simp
  moreover have "unmarshal (dec_struct event_fields) zero_event ''?'' = None"
    by (simp add: unmarshal_def) code_simp
  ultimately show ?thesis
    using events_handled_in_order[of ?fs silent_net "\<lparr>baseURL = [], email = [], password = []\<rparr>"
        record_action "\<lambda>s. s" "([], [])"]
    by (simp add: has_prefix_def zero_event_def record_action_def)
qed

end
