(* ===== verification/Downstream.thy ===== *)
theory Downstream
  imports AttemptTypes
begin

text \<open>
  \<open>services/attempt-controller/internal/downstream/reconcile.go\<close>: an attempt's desired state is
  applied to the cluster. The dynamic client's \<open>Delete\<close> and \<open>Apply\<close> are the arguments
  \<open>delete\<close> and \<open>apply_obj\<close>, PocketBase is \<open>patch\<close> and \<open>list_active\<close>; all act on one state \<open>'s\<close>.
\<close>

datatype 'e kube_error = NotFound | OtherError 'e

section \<open>The custom resource\<close>

definition asset_object :: "asset \<Rightarrow> json" where
  "asset_object a = JObj
     [(''name'', JStr (Name a)), (''image'', JStr (Image a)), (''cpu'', JStr (CPU a)),
      (''memory'', JStr (Memory a)), (''disk'', JStr (Disk a)), (''setup'', JStr (Setup a)),
      (''protocols'', JArr (map JStr (RelayProtocols a)))]"

definition exercise_object :: "exercise \<Rightarrow> json" where
  "exercise_object e = JObj
     [(''id'', JStr (ExID e)), (''description'', JStr (ExDescription e)), (''type'', JStr (ExType e)),
      (''asset'', JStr (ExAsset e)), (''template'', JStr (ExTemplate e))]"

definition spec_object :: "attempt \<Rightarrow> json" where
  "spec_object a = JObj
     [(''ownerId'', JStr (UserID a)), (''ownerName'', JStr (UserName a)), (''labId'', JStr (LabID a)),
      (''ttl'', JNum (int_str (Duration (Environment a)))),
      (''assets'', JArr (map asset_object (Assets (Environment a)))),
      (''exercises'', JArr (map exercise_object (Exercises a)))]"

definition toLabEnvironment :: "attempt \<Rightarrow> json" where
  "toLabEnvironment a = JObj
     [(''apiVersion'', JStr ''lab.rootenv.io/v1alpha1''), (''kind'', JStr ''LabEnvironment''),
      (''metadata'', JObj [(''name'', JStr (ID a))]), (''spec'', spec_object a)]"

section \<open>Reconciling\<close>

definition ReconcileAttempt ::
  "(string \<Rightarrow> ('s, 'e kube_error, unit) call) \<Rightarrow> (string \<Rightarrow> json \<Rightarrow> ('s, 'e kube_error, unit) call) \<Rightarrow>
     (string \<Rightarrow> (string \<times> json) list \<Rightarrow> ('s, 'p, unit) call) \<Rightarrow> attempt \<Rightarrow> 's \<Rightarrow> 's" where
  "ReconcileAttempt delete apply_obj patch a s =
     (if DesiredState a = decommissioned then
        (case delete (ID a) s of
           (Inl NotFound, s1) \<Rightarrow> snd (patch (ID a) [(''current_state'', JStr decommissioned)] s1)
         | (Inl (OtherError e), s1) \<Rightarrow> s1
         | (Inr u, s1) \<Rightarrow> s1)
      else snd (apply_obj (ID a) (toLabEnvironment a) s))"

fun reconcile_all ::
  "(string \<Rightarrow> ('s, 'e kube_error, unit) call) \<Rightarrow> (string \<Rightarrow> json \<Rightarrow> ('s, 'e kube_error, unit) call) \<Rightarrow>
     (string \<Rightarrow> (string \<times> json) list \<Rightarrow> ('s, 'p, unit) call) \<Rightarrow> attempt list \<Rightarrow> 's \<Rightarrow> 's" where
  "reconcile_all delete apply_obj patch [] s = s"
| "reconcile_all delete apply_obj patch (a # as) s =
     reconcile_all delete apply_obj patch as (ReconcileAttempt delete apply_obj patch a s)"

definition ResyncAttempts ::
  "(string \<Rightarrow> ('s, 'e kube_error, unit) call) \<Rightarrow> (string \<Rightarrow> json \<Rightarrow> ('s, 'e kube_error, unit) call) \<Rightarrow>
     (string \<Rightarrow> (string \<times> json) list \<Rightarrow> ('s, 'p, unit) call) \<Rightarrow> ('s, 'l, attempt list) call \<Rightarrow> 's \<Rightarrow> 's" where
  "ResyncAttempts delete apply_obj patch list_active s =
     (case list_active s of
        (Inl e, s1) \<Rightarrow> s1
      | (Inr attempts, s1) \<Rightarrow> reconcile_all delete apply_obj patch attempts s1)"

section \<open>The cluster the code relies on\<close>

text \<open>
  What the API server documents of the two calls, over what it holds under each name: deleting an
  absent object reports \<open>NotFound\<close>, a successful call has its effect on that name only, and a
  failing one has none. (A present object may stay while its finalizers run; \<open>objects\<close> is what is
  not being deleted.) A patch does not touch the cluster.
\<close>

definition cluster_laws ::
  "('s \<Rightarrow> string \<rightharpoonup> json) \<Rightarrow> (string \<Rightarrow> ('s, 'e kube_error, unit) call) \<Rightarrow>
     (string \<Rightarrow> json \<Rightarrow> ('s, 'e kube_error, unit) call) \<Rightarrow>
     (string \<Rightarrow> (string \<times> json) list \<Rightarrow> ('s, 'p, unit) call) \<Rightarrow> bool" where
  "cluster_laws objects delete apply_obj patch \<longleftrightarrow>
     (\<forall>n s. case delete n s of
        (Inr u, s1) \<Rightarrow> objects s n \<noteq> None \<and> objects s1 = (objects s)(n := None)
      | (Inl NotFound, s1) \<Rightarrow> objects s n = None \<and> objects s1 = objects s
      | (Inl (OtherError e), s1) \<Rightarrow> objects s1 = objects s) \<and>
     (\<forall>n j s. case apply_obj n j s of
        (Inr u, s1) \<Rightarrow> objects s1 = (objects s)(n \<mapsto> j)
      | (Inl e, s1) \<Rightarrow> objects s1 = objects s) \<and>
     (\<forall>n p s. objects (snd (patch n p s)) = objects s)"

text \<open>Calls that meet no error other than \<open>NotFound\<close>.\<close>

definition cluster_available ::
  "(string \<Rightarrow> ('s, 'e kube_error, unit) call) \<Rightarrow> (string \<Rightarrow> json \<Rightarrow> ('s, 'e kube_error, unit) call) \<Rightarrow> bool" where
  "cluster_available delete apply_obj \<longleftrightarrow>
     (\<forall>n s. fst (delete n s) \<in> {Inr (), Inl NotFound}) \<and> (\<forall>n j s. fst (apply_obj n j s) = Inr ())"

definition wanted :: "attempt \<Rightarrow> json option" where
  "wanted a = (if DesiredState a = decommissioned then None else Some (toLabEnvironment a))"

lemma cluster_delete:
  assumes "cluster_laws objects delete apply_obj patch"
  shows "case delete n s of
      (Inr u, s1) \<Rightarrow> objects s n \<noteq> None \<and> objects s1 = (objects s)(n := None)
    | (Inl NotFound, s1) \<Rightarrow> objects s n = None \<and> objects s1 = objects s
    | (Inl (OtherError e), s1) \<Rightarrow> objects s1 = objects s"
  using assms unfolding cluster_laws_def by (elim conjE) (drule spec, drule spec, assumption)

lemma cluster_apply:
  assumes "cluster_laws objects delete apply_obj patch"
  shows "case apply_obj n j s of
      (Inr u, s1) \<Rightarrow> objects s1 = (objects s)(n \<mapsto> j) | (Inl e, s1) \<Rightarrow> objects s1 = objects s"
  using assms unfolding cluster_laws_def by (elim conjE) (drule spec, drule spec, drule spec, assumption)

lemma cluster_patch:
  assumes "cluster_laws objects delete apply_obj patch"
  shows "objects (snd (patch n p s)) = objects s"
  using assms unfolding cluster_laws_def by blast

lemma reconcile_objects:
  assumes "cluster_laws objects delete apply_obj patch"
  shows "objects (ReconcileAttempt delete apply_obj patch a s) = objects s \<or>
    objects (ReconcileAttempt delete apply_obj patch a s) = (objects s)(ID a := wanted a)"
  using cluster_delete[OF assms, where n = "ID a" and s = s]
    cluster_apply[OF assms, where n = "ID a" and j = "toLabEnvironment a" and s = s]
    cluster_patch[OF assms]
  by (auto simp: ReconcileAttempt_def wanted_def split: prod.splits sum.splits kube_error.splits)

lemma reconcile_reaches:
  assumes "cluster_laws objects delete apply_obj patch" "cluster_available delete apply_obj"
  shows "objects (ReconcileAttempt delete apply_obj patch a s) = (objects s)(ID a := wanted a)"
proof -
  have "fst (delete (ID a) s) \<in> {Inr (), Inl NotFound}"
    "fst (apply_obj (ID a) (toLabEnvironment a) s) = Inr ()"
    using assms(2) unfolding cluster_available_def by blast+
  then show ?thesis
    using cluster_delete[OF assms(1), where n = "ID a" and s = s]
      cluster_apply[OF assms(1), where n = "ID a" and j = "toLabEnvironment a" and s = s]
      cluster_patch[OF assms(1)]
    by (cases "delete (ID a) s"; cases "apply_obj (ID a) (toLabEnvironment a) s")
      (auto simp: ReconcileAttempt_def wanted_def fun_upd_idem)
qed

lemma reconcile_all_reaches:
  assumes "cluster_laws objects delete apply_obj patch" "cluster_available delete apply_obj"
  shows "objects (reconcile_all delete apply_obj patch as s) =
    fold (\<lambda>a m. m(ID a := wanted a)) as (objects s)"
  by (induction as arbitrary: s) (simp_all add: reconcile_reaches[OF assms])

lemma fold_wanted:
  assumes "distinct (map ID as)"
  shows "fold (\<lambda>a m. m(ID a := wanted a)) as m n =
    (case find (\<lambda>a. ID a = n) as of Some a \<Rightarrow> wanted a | None \<Rightarrow> m n)"
  using assms
proof (induction as arbitrary: m)
  case (Cons a as)
  have "ID a \<notin> ID ` set as" using Cons.prems by simp
  then have "find (\<lambda>b. ID b = ID a) as = None" unfolding find_None_iff by (metis imageI)
  then show ?case using Cons by (auto split: option.split)
qed simp

section \<open>Convergence\<close>


text \<open>A cluster that is a map, and a PocketBase that only answers.\<close>

definition map_delete :: "string \<Rightarrow> (string \<rightharpoonup> json, unit kube_error, unit) call" where
  "map_delete n m = (if m n = None then (Inl NotFound, m) else (Inr (), m(n := None)))"

definition map_apply :: "string \<Rightarrow> json \<Rightarrow> (string \<rightharpoonup> json, unit kube_error, unit) call" where
  "map_apply n j m = (Inr (), m(n \<mapsto> j))"

definition map_patch :: "string \<Rightarrow> (string \<times> json) list \<Rightarrow> (string \<rightharpoonup> json, unit, unit) call" where
  "map_patch n p m = (Inr (), m)"

lemma map_cluster: "cluster_laws (\<lambda>m. m) map_delete map_apply map_patch"
  "cluster_available map_delete map_apply"
  by (simp_all add: cluster_laws_def cluster_available_def map_delete_def map_apply_def map_patch_def)


end
