(* ===== verification/GoTime.thy ===== *)
theory GoTime
  imports Decimal
begin

text \<open>
  What the services use of package \<open>time\<close>: reading an RFC 3339 time as \<open>time.Parse\<close> does, moving it
  to UTC, and printing it in RFC 3339 and in PocketBase's date format. A time is its fields in the
  Gregorian calendar, in UTC.
\<close>

record go_time =
  Year :: int
  Month :: nat
  Day :: nat
  Hour :: nat
  Minute :: nat
  Second :: nat
  Nanosecond :: nat

definition is_leap :: "int \<Rightarrow> bool" where
  "is_leap y \<longleftrightarrow> y mod 4 = 0 \<and> (y mod 100 \<noteq> 0 \<or> y mod 400 = 0)"

definition days_in :: "nat \<Rightarrow> int \<Rightarrow> nat" where
  "days_in m y = (if m = 2 then (if is_leap y then 29 else 28) else if m \<in> {4, 6, 9, 11} then 30 else 31)"

definition valid_time :: "go_time \<Rightarrow> bool" where
  "valid_time t \<longleftrightarrow> 1 \<le> Month t \<and> Month t \<le> 12 \<and> 1 \<le> Day t \<and> Day t \<le> days_in (Month t) (Year t) \<and>
     Hour t < 24 \<and> Minute t < 60 \<and> Second t < 60 \<and> Nanosecond t < 10 ^ 9"

section \<open>Moving by minutes\<close>

definition next_day :: "go_time \<Rightarrow> go_time" where
  "next_day t =
     (if Day t < days_in (Month t) (Year t) then t\<lparr>Day := Day t + 1\<rparr>
      else if Month t < 12 then t\<lparr>Month := Month t + 1, Day := 1\<rparr>
      else t\<lparr>Year := Year t + 1, Month := 1, Day := 1\<rparr>)"

definition prev_day :: "go_time \<Rightarrow> go_time" where
  "prev_day t =
     (if 1 < Day t then t\<lparr>Day := Day t - 1\<rparr>
      else if 1 < Month t then t\<lparr>Month := Month t - 1, Day := days_in (Month t - 1) (Year t)\<rparr>
      else t\<lparr>Year := Year t - 1, Month := 12, Day := 31\<rparr>)"

definition add_minutes :: "int \<Rightarrow> go_time \<Rightarrow> go_time" where
  "add_minutes k t =
     (let m = int (Hour t * 60 + Minute t) + k;
          days = m div 1440;
          r = nat (m mod 1440);
          u = (if 0 \<le> days then (next_day ^^ nat days) t else (prev_day ^^ nat (- days)) t)
      in u\<lparr>Hour := r div 60, Minute := r mod 60\<rparr>)"

section \<open>Reading\<close>

text \<open>\<open>getnum\<close>: one or two digits, two if \<open>fixed\<close>.\<close>

definition getnum :: "bool \<Rightarrow> string \<Rightarrow> (nat \<times> string) option" where
  "getnum fixed s =
     (case s of
        [] \<Rightarrow> None
      | a # r \<Rightarrow>
         if \<not> digit a then None
         else (case r of
             b # r' \<Rightarrow> if digit b then Some (read_digits [a, b], r') else if fixed then None else Some (read_digits [a], r)
           | [] \<Rightarrow> if fixed then None else Some (read_digits [a], r)))"

definition skip_char :: "char \<Rightarrow> string \<Rightarrow> string option" where
  "skip_char c s = (case s of [] \<Rightarrow> None | a # r \<Rightarrow> if a = c then Some r else None)"

definition read_year :: "string \<Rightarrow> (nat \<times> string) option" where
  "read_year s = (if 4 \<le> length s \<and> list_all digit (take 4 s) then Some (read_digits (take 4 s), drop 4 s) else None)"

text \<open>A fraction after the seconds, with a period or a comma; digits after the ninth are dropped.\<close>

definition read_fraction :: "string \<Rightarrow> nat \<times> string" where
  "read_fraction s =
     (case s of
        c # d # r \<Rightarrow>
          if (c = CHR ''.'' \<or> c = CHR '','') \<and> digit d then
            (let ds = takeWhile digit (d # r); kept = take 9 ds
             in (read_digits kept * 10 ^ (9 - length kept), dropWhile digit (d # r)))
          else (0, s)
      | _ \<Rightarrow> (0, s))"

text \<open>\<open>Z07:00\<close>: minutes east of UTC.\<close>

definition read_zone :: "string \<Rightarrow> (int \<times> string) option" where
  "read_zone s =
     (case s of
        [] \<Rightarrow> None
      | z # r \<Rightarrow>
         if z = CHR ''Z'' then Some (0, r)
         else if length s < 6 \<or> s ! 3 \<noteq> CHR '':'' then None
         else (case (getnum True (take 2 r), getnum True (take 2 (drop 3 r))) of
             (Some (hr, _), Some (mm, _)) \<Rightarrow>
               if hr > 24 \<or> mm > 60 then None
               else if z = CHR ''+'' then Some (int (hr * 60 + mm), drop 5 r)
               else if z = CHR ''-'' then Some (- int (hr * 60 + mm), drop 5 r)
               else None
           | _ \<Rightarrow> None))"

text \<open>\<open>time.Parse(time.RFC3339, s)\<close>, then \<open>UTC()\<close>.\<close>

definition parse_rfc3339 :: "string \<Rightarrow> go_time option" where
  "parse_rfc3339 s0 =
     Option.bind (read_year s0) (\<lambda>(year, s1). Option.bind (skip_char (CHR ''-'') s1) (\<lambda>s2.
     Option.bind (getnum True s2) (\<lambda>(month, s3). Option.bind (skip_char (CHR ''-'') s3) (\<lambda>s4.
     Option.bind (getnum True s4) (\<lambda>(day, s5). Option.bind (skip_char (CHR ''T'') s5) (\<lambda>s6.
     Option.bind (getnum False s6) (\<lambda>(hour, s7). Option.bind (skip_char (CHR '':'') s7) (\<lambda>s8.
     Option.bind (getnum True s8) (\<lambda>(minute, s9). Option.bind (skip_char (CHR '':'') s9) (\<lambda>s10.
     Option.bind (getnum True s10) (\<lambda>(second, s11).
       case read_fraction s11 of (nsec, s12) \<Rightarrow>
         Option.bind (read_zone s12) (\<lambda>(offset, rest).
           let t = \<lparr>Year = int year, Month = month, Day = day, Hour = hour, Minute = minute,
                    Second = second, Nanosecond = nsec\<rparr>
           in if rest = [] \<and> valid_time t then Some (add_minutes (- offset) t) else None))))))))))))"

section \<open>Printing\<close>

text \<open>\<open>appendInt(b, x, width)\<close>\<close>

definition pad :: "nat \<Rightarrow> nat \<Rightarrow> string" where
  "pad w n = replicate (w - length (nat_str n)) (CHR ''0'') @ nat_str n"

definition print_year :: "int \<Rightarrow> string" where
  "print_year y = (if y < 0 then CHR ''-'' # pad 4 (nat (- y)) else pad 4 (nat y))"

definition print_date :: "go_time \<Rightarrow> string" where
  "print_date t = print_year (Year t) @ ''-'' @ pad 2 (Month t) @ ''-'' @ pad 2 (Day t)"

definition print_clock :: "go_time \<Rightarrow> string" where
  "print_clock t = pad 2 (Hour t) @ '':'' @ pad 2 (Minute t) @ '':'' @ pad 2 (Second t)"

text \<open>\<open>Format(time.RFC3339)\<close> of a UTC time drops the fraction.\<close>

definition format_rfc3339 :: "go_time \<Rightarrow> string" where
  "format_rfc3339 t = print_date t @ ''T'' @ print_clock t @ ''Z''"

text \<open>\<open>Format("2006-01-02 15:04:05.000Z")\<close>\<close>

definition format_pb :: "go_time \<Rightarrow> string" where
  "format_pb t = print_date t @ '' '' @ print_clock t @ ''.'' @ pad 3 (Nanosecond t div 10 ^ 6) @ ''Z''"

section \<open>Reading back what is printed\<close>

lemma zero_char: "CHR ''0'' = digit_char 0"
  by code_simp

lemma nat_str_lt10: "n < 10 \<Longrightarrow> nat_str n = [digit_char n]"
  by (simp add: nat_str.simps)

lemma pad2: "n < 100 \<Longrightarrow> pad 2 n = [digit_char (n div 10), digit_char (n mod 10)]"
  by (cases "n < 10") (simp_all add: pad_def nat_str.simps[of n] nat_str_lt10 zero_char)

lemma read_digits_2: "a < 10 \<Longrightarrow> b < 10 \<Longrightarrow> read_digits [digit_char a, digit_char b] = 10 * a + b"
  using read_digits_snoc[of "[digit_char a]" "digit_char b"] read_digits_snoc[of "[]" "digit_char a"]
  by (simp add: read_digits_def)

lemma getnum_pad2: "n < 100 \<Longrightarrow> getnum f (pad 2 n @ r) = Some (n, r)"
  by (simp add: getnum_def pad2 read_digits_2)

lemma length_pad: "n < 10 ^ w \<Longrightarrow> 0 < w \<Longrightarrow> length (pad w n) = w"
proof -
  have "n < 10 ^ w \<Longrightarrow> 0 < w \<Longrightarrow> length (nat_str n) \<le> w" for n
  proof (induction w arbitrary: n)
    case (Suc w)
    show ?case
    proof (cases "n < 10")
      case False
      then have "w \<noteq> 0" using Suc.prems by (cases w) auto
      moreover have "n div 10 < 10 ^ w" using Suc.prems by (simp add: div_less_iff_less_mult mult.commute)
      ultimately show ?thesis using Suc.IH[of "n div 10"] False by (subst nat_str.simps) simp
    qed (simp add: nat_str_lt10)
  qed simp
  then show "n < 10 ^ w \<Longrightarrow> 0 < w \<Longrightarrow> length (pad w n) = w" by (simp add: pad_def)
qed

lemma pad_digits: "list_all digit (pad w n)"
  using nat_str_digits[of n] by (auto simp: pad_def list_all_iff zero_char)

lemma read_digits_zeros: "read_digits (replicate k (CHR ''0'') @ s) = read_digits s"
  by (induction k) (simp_all add: read_digits_def zero_char)

lemma read_pad [simp]: "read_digits (pad w n) = n"
  by (simp add: pad_def read_digits_zeros)

lemma read_year_pad: "n < 10000 \<Longrightarrow> read_year (pad 4 n @ r) = Some (n, r)"
  using length_pad[of n 4] pad_digits[of 4 n] by (simp add: read_year_def)

lemma valid_time_bounds:
  assumes "valid_time t"
  shows "Month t < 100" "Day t < 100" "Hour t < 100" "Minute t < 100" "Second t < 100"
  using assms by (auto simp: valid_time_def days_in_def split: if_splits)

lemma add_minutes_0: "valid_time t \<Longrightarrow> add_minutes 0 t = t"
proof -
  assume v: "valid_time t"
  let ?m = "Hour t * 60 + Minute t"
  have m: "?m < 1440" using v by (auto simp: valid_time_def)
  have "int ?m div 1440 = 0" "nat (int ?m mod 1440) = ?m" using m by simp_all
  moreover have "?m div 60 = Hour t" "?m mod 60 = Minute t"
    using v by (simp_all add: valid_time_def)
  ultimately show ?thesis unfolding add_minutes_def Let_def add_0_right by (simp only:) simp
qed

text \<open>The fields of a printed time, read one after the other.\<close>

lemma parse_format_rfc3339:
  assumes "valid_time t" "0 \<le> Year t" "Year t < 10000"
  shows "parse_rfc3339 (format_rfc3339 t) = Some (t\<lparr>Nanosecond := 0\<rparr>)"
proof -
  have v: "valid_time (t\<lparr>Nanosecond := 0\<rparr>)" using assms(1) by (simp add: valid_time_def)
  have y: "nat (Year t) < 10000" using assms by simp
  have f: "read_fraction ''Z'' = (0, ''Z'')" by (simp add: read_fraction_def)
  have z: "read_zone ''Z'' = Some (0, [])" by (simp add: read_zone_def)
  have e: "int (nat (Year t)) = Year t" "\<not> Year t < 0" using assms by simp_all
  have r: "\<lparr>Year = Year t, Month = Month t, Day = Day t, Hour = Hour t, Minute = Minute t,
      Second = Second t, Nanosecond = 0\<rparr> = t\<lparr>Nanosecond := 0\<rparr>" by simp
  note b = valid_time_bounds[OF assms(1)]
  have s: "skip_char c (c # l) = Some l" for c l by (simp add: skip_char_def)
  show ?thesis
    unfolding parse_rfc3339_def format_rfc3339_def print_date_def print_clock_def print_year_def
      append_assoc append_Cons append_Nil if_not_P[OF e(2)] read_year_pad[OF y] bind.bind_lunit prod.case
      s getnum_pad2[OF b(1)] getnum_pad2[OF b(2)] getnum_pad2[OF b(3)] getnum_pad2[OF b(4)]
      getnum_pad2[OF b(5)] f z e(1) r Let_def minus_zero add_minutes_0[OF v]
    using v by simp
qed

end
