(* ===== verification/Upstream.thy ===== *)
theory Upstream
  imports AttemptTypes GoTime
begin

text \<open>
  \<open>services/attempt-controller/internal/upstream\<close>: the status of LabEnvironment objects is written
  back to PocketBase attempts (\<open>reconcile.go\<close>), driven by the informer's events (\<open>watcher.go\<close>).
  An unstructured object is its JSON value; \<open>PatchAttempt\<close> is the argument \<open>patch\<close> over a state \<open>'s\<close>.
\<close>

section \<open>Unstructured objects\<close>

text \<open>\<open>NestedString\<close> and \<open>NestedMap\<close> give the zero value where the path or the type is not there.\<close>

fun nested_field :: "string list \<Rightarrow> json \<Rightarrow> json option" where
  "nested_field [] j = Some j"
| "nested_field (k # ks) j =
     (case j of JObj ms \<Rightarrow> Option.bind (map_of ms k) (nested_field ks) | _ \<Rightarrow> None)"

definition as_string :: "json option \<Rightarrow> string" where
  "as_string v = (case v of Some (JStr s) \<Rightarrow> s | _ \<Rightarrow> [])"

definition as_array :: "json option \<Rightarrow> json list" where
  "as_array v = (case v of Some (JArr vs) \<Rightarrow> vs | _ \<Rightarrow> [])"

abbreviation nested_string :: "string list \<Rightarrow> json \<Rightarrow> string" where
  "nested_string ks j \<equiv> as_string (nested_field ks j)"

definition get_name :: "json \<Rightarrow> string" where
  "get_name obj = nested_string [''metadata'', ''name''] obj"

definition get_resource_version :: "json \<Rightarrow> string" where
  "get_resource_version obj = nested_string [''metadata'', ''resourceVersion''] obj"

definition get_phase :: "json \<Rightarrow> string" where
  "get_phase obj = nested_string [''status'', ''phase''] obj"

section \<open>Phases\<close>

definition phaseToState :: "string \<Rightarrow> string" where
  "phaseToState phase =
     (if phase = ''Ready'' then ''provisioned''
      else if phase = ''Terminating'' then ''decommissioned''
      else ''provisioning'')"

definition assetPhaseToState :: "string \<Rightarrow> string" where
  "assetPhaseToState phase =
     (if phase = ''Running'' \<or> phase = ''Succeeded'' then ''provisioned''
      else if phase = ''Pending'' then ''provisioning''
      else if phase = ''Terminating'' then ''decommissioned''
      else ''pending'')"

definition assetPhaseToStatus :: "string \<Rightarrow> string" where
  "assetPhaseToStatus phase = (if phase = ''Running'' then ''poweredon'' else ''poweredoff'')"

text \<open>Go maps are written with their keys in order, as \<open>json.Marshal\<close> does.\<close>

definition string_values :: "json list \<Rightarrow> json list" where
  "string_values vs = filter (\<lambda>v. case v of JStr s \<Rightarrow> True | _ \<Rightarrow> False) vs"

fun build_asset :: "json \<Rightarrow> json option" where
  "build_asset (JObj ms) =
     (let phase = as_string (map_of ms ''phase'')
      in Some (JObj [(''name'', JStr (as_string (map_of ms ''name''))),
                     (''protocols'', JArr (string_values (as_array (map_of ms ''protocols'')))),
                     (''state'', JStr (assetPhaseToState phase)),
                     (''status'', JStr (assetPhaseToStatus phase))]))"
| "build_asset v = None"

definition buildAssets :: "json \<Rightarrow> json list" where
  "buildAssets obj = List.map_filter build_asset (as_array (nested_field [''status'', ''assets''] obj))"

section \<open>The reconciler\<close>

record reconciler =
  lastRV :: "string \<rightharpoonup> string"
  expiresAtWritten :: "string \<rightharpoonup> bool"

definition NewReconciler :: reconciler where
  "NewReconciler = \<lparr>lastRV = Map.empty, expiresAtWritten = Map.empty\<rparr>"

text \<open>Reading a Go map: the zero value where the key is absent.\<close>

definition go_get :: "'b \<Rightarrow> ('a \<rightharpoonup> 'b) \<Rightarrow> 'a \<Rightarrow> 'b" where
  "go_get zero m k = (case m k of None \<Rightarrow> zero | Some v \<Rightarrow> v)"

type_synonym 's patcher = "string \<Rightarrow> (string \<times> json) list \<Rightarrow> 's \<Rightarrow> bool \<times> 's"

definition expires_patch :: "reconciler \<Rightarrow> json \<Rightarrow> (string \<times> json) list" where
  "expires_patch r obj =
     (if go_get False (expiresAtWritten r) (get_name obj) then []
      else (let expiresAt = nested_string [''status'', ''expiresAt''] obj
            in if expiresAt = [] then []
               else (case parse_rfc3339 expiresAt of
                   None \<Rightarrow> []
                 | Some t \<Rightarrow> [(''expires_at'', JStr (format_pb t))])))"

definition status_patch :: "reconciler \<Rightarrow> json \<Rightarrow> (string \<times> json) list" where
  "status_patch r obj =
     (''assets'', JArr (buildAssets obj)) #
     (''current_state'', JStr (phaseToState (get_phase obj))) #
     expires_patch r obj"

definition ReconcileLabEnv :: "'s patcher \<Rightarrow> json \<Rightarrow> reconciler \<times> 's \<Rightarrow> reconciler \<times> 's" where
  "ReconcileLabEnv patch obj rs =
     (case rs of (r, s) \<Rightarrow>
       let aid = get_name obj; rv = get_resource_version obj
       in if go_get [] (lastRV r) aid = rv then (r, s)
          else if get_phase obj = [] then (r, s)
          else (case patch aid (status_patch r obj) s of
              (False, s1) \<Rightarrow> (r, s1)
            | (True, s1) \<Rightarrow>
                (r\<lparr>lastRV := (lastRV r)(aid \<mapsto> rv),
                   expiresAtWritten := (if ''expires_at'' \<in> fst ` set (status_patch r obj)
                                        then (expiresAtWritten r)(aid \<mapsto> True) else expiresAtWritten r)\<rparr>, s1)))"

definition delete_patch :: "(string \<times> json) list" where
  "delete_patch = [(''current_state'', JStr decommissioned), (''desired_state'', JStr decommissioned)]"

definition ReconcileDelete :: "'s patcher \<Rightarrow> json \<Rightarrow> reconciler \<times> 's \<Rightarrow> reconciler \<times> 's" where
  "ReconcileDelete patch obj rs =
     (case rs of (r, s) \<Rightarrow>
       let aid = get_name obj
       in (r\<lparr>lastRV := (lastRV r)(aid := None), expiresAtWritten := (expiresAtWritten r)(aid := None)\<rparr>,
           snd (patch aid delete_patch s)))"

section \<open>The informer's events\<close>

datatype informer_object =
    Unstructured json
  | DeletedFinalStateUnknown informer_object
  | OtherObject

datatype informer_event =
    AddFunc informer_object
  | UpdateFunc informer_object
  | DeleteFunc informer_object

fun informer_handle :: "'s patcher \<Rightarrow> informer_event \<Rightarrow> reconciler \<times> 's \<Rightarrow> reconciler \<times> 's" where
  "informer_handle patch (AddFunc (Unstructured u)) = ReconcileLabEnv patch u"
| "informer_handle patch (UpdateFunc (Unstructured u)) = ReconcileLabEnv patch u"
| "informer_handle patch (DeleteFunc (Unstructured u)) = ReconcileDelete patch u"
| "informer_handle patch (DeleteFunc (DeletedFinalStateUnknown (Unstructured u))) = ReconcileDelete patch u"
| "informer_handle patch _ = (\<lambda>rs. rs)"

definition run_events :: "'s patcher \<Rightarrow> informer_event list \<Rightarrow> 's \<Rightarrow> reconciler \<times> 's" where
  "run_events patch evs s = fold (informer_handle patch) evs (NewReconciler, s)"

section \<open>What PocketBase sees\<close>

text \<open>The patches sent so far, each with its answer; \<open>answer\<close> is any server.\<close>

type_synonym patch_log = "(string \<times> (string \<times> json) list \<times> bool) list"

definition answering :: "(patch_log \<Rightarrow> string \<Rightarrow> (string \<times> json) list \<Rightarrow> bool) \<Rightarrow> patch_log patcher" where
  "answering answer aid p l = (answer l aid p, l @ [(aid, p, answer l aid p)])"

definition has_key :: "string \<Rightarrow> (string \<times> json) list \<Rightarrow> bool" where
  "has_key k p \<longleftrightarrow> k \<in> fst ` set p"

lemma status_patch_keys:
  "status_patch r obj \<noteq> delete_patch"
  "has_key ''expires_at'' (status_patch r obj) \<Longrightarrow> \<not> go_get False (expiresAtWritten r) (get_name obj)"
  "map_of (status_patch r obj) ''current_state'' =
     Some (JStr (phaseToState (get_phase obj)))"
  by (auto simp: status_patch_def delete_patch_def has_key_def expires_patch_def Let_def split: if_splits)

lemma delete_patch_keys:
  "\<not> has_key ''expires_at'' delete_patch"
  "map_of delete_patch ''current_state'' = Some (JStr decommissioned)"
  by (simp_all add: delete_patch_def has_key_def)

text \<open>Every event is one of: nothing happens, a status patch is tried, a delete patch is tried.\<close>

lemma informer_handle_cases:
  obtains (Nothing) "informer_handle patch ev rs = rs"
  | (Status) u r s where "rs = (r, s)" "ev = AddFunc (Unstructured u) \<or> ev = UpdateFunc (Unstructured u)"
      "go_get [] (lastRV r) (get_name u) \<noteq> get_resource_version u"
      "get_phase u \<noteq> []"
      "informer_handle patch ev rs = ReconcileLabEnv patch u (r, s)"
  | (Delete) u r s where "rs = (r, s)"
      "ev = DeleteFunc (Unstructured u) \<or> ev = DeleteFunc (DeletedFinalStateUnknown (Unstructured u))"
      "informer_handle patch ev rs = ReconcileDelete patch u (r, s)"
proof -
  obtain r s where rs: "rs = (r, s)" by force
  have labenv: thesis if "ev = AddFunc (Unstructured u) \<or> ev = UpdateFunc (Unstructured u)" for u
  proof (cases "go_get [] (lastRV r) (get_name u) = get_resource_version u \<or>
      get_phase u = []")
    case True
    then have "informer_handle patch ev rs = rs"
      using that rs by (auto simp: ReconcileLabEnv_def Let_def)
    then show ?thesis by (rule Nothing)
  next
    case False
    then show ?thesis using that rs by (intro Status[of r s u]) auto
  qed
  show ?thesis
    by (cases "(patch, ev)" rule: informer_handle.cases)
      (use labenv Nothing Delete[OF rs] rs in auto)
qed

section \<open>The expiry is written once\<close>

definition written_step :: "string \<times> (string \<times> json) list \<times> bool \<Rightarrow> string set \<Rightarrow> string set" where
  "written_step e W = (case e of (aid, p, ok) \<Rightarrow>
     if p = delete_patch then W - {aid} else if ok \<and> has_key ''expires_at'' p then insert aid W else W)"

text \<open>No patch carries \<open>expires_at\<close> while it is written, \<open>W\<close> the attempts that have it.\<close>

fun expires_at_once :: "string set \<Rightarrow> patch_log \<Rightarrow> bool" where
  "expires_at_once W [] = True"
| "expires_at_once W ((aid, p, ok) # l) =
     ((has_key ''expires_at'' p \<longrightarrow> aid \<notin> W) \<and> expires_at_once (written_step (aid, p, ok) W) l)"

lemma expires_at_once_append:
  "expires_at_once W (l @ [(aid, p, ok)]) \<longleftrightarrow>
     expires_at_once W l \<and> (has_key ''expires_at'' p \<longrightarrow> aid \<notin> fold written_step l W)"
proof (induction l arbitrary: W)
  case (Cons e l)
  then show ?case by (cases e) simp
qed simp

definition expiry_inv :: "reconciler \<times> patch_log \<Rightarrow> bool" where
  "expiry_inv rl = (case rl of (r, l) \<Rightarrow>
     expires_at_once {} l \<and> fold written_step l {} = {aid. go_get False (expiresAtWritten r) aid})"

lemma expiry_inv_step:
  assumes "expiry_inv rl"
  shows "expiry_inv (informer_handle (answering answer) ev rl)"
proof (cases rule: informer_handle_cases[of "answering answer" ev rl])
  case (Status u r l)
  have inv: "expires_at_once {} l" "fold written_step l {} = {aid. go_get False (expiresAtWritten r) aid}"
    using assms Status(1) by (simp_all add: expiry_inv_def)
  show ?thesis
    unfolding Status(5) using Status(3,4) status_patch_keys[of r u] inv
    by (cases "answer l (get_name u) (status_patch r u)")
      (auto simp: ReconcileLabEnv_def Let_def answering_def expiry_inv_def written_step_def
        expires_at_once_append go_get_def has_key_def)
next
  case (Delete u r l)
  have inv: "expires_at_once {} l" "fold written_step l {} = {aid. go_get False (expiresAtWritten r) aid}"
    using assms Delete(1) by (simp_all add: expiry_inv_def)
  show ?thesis
    unfolding Delete(3) using delete_patch_keys(1) inv
    by (auto simp: ReconcileDelete_def Let_def answering_def expiry_inv_def written_step_def
        expires_at_once_append go_get_def)
next
  case Nothing
  then show ?thesis using assms by simp
qed

text \<open>
  C14: Whatever the informer delivers, in any order and with any answers of PocketBase, no patch
  carries \<open>expires_at\<close> for an attempt for which a patch carrying it has already been accepted, until
  the LabEnvironment is deleted.
\<close>
theorem expires_at_written_once:
  "expires_at_once {} (snd (run_events (answering answer) evs []))"
proof -
  have "expiry_inv (fold (informer_handle (answering answer)) evs rl)" if "expiry_inv rl" for rl
    using that by (induction evs arbitrary: rl) (simp_all add: expiry_inv_step)
  moreover have "expiry_inv (NewReconciler, [])"
    by (simp add: expiry_inv_def NewReconciler_def go_get_def)
  ultimately have "expiry_inv (run_events (answering answer) evs [])" by (simp add: run_events_def)
  then show ?thesis by (simp add: expiry_inv_def split: prod.splits)
qed

section \<open>PocketBase follows the cluster\<close>

definition accept_state :: "string \<times> (string \<times> json) list \<times> bool \<Rightarrow> (string \<rightharpoonup> string) \<Rightarrow> (string \<rightharpoonup> string)" where
  "accept_state e m = (case e of (aid, p, ok) \<Rightarrow>
     if ok then m(aid \<mapsto> as_string (map_of p ''current_state'')) else m)"

text \<open>\<open>current_state\<close> of the attempts after the answering patches.\<close>

definition pb_state :: "patch_log \<Rightarrow> string \<rightharpoonup> string" where
  "pb_state l = fold accept_state l Map.empty"

text \<open>The state the events themselves give: the last phase of each object, or its deletion.\<close>

fun event_state :: "informer_event \<Rightarrow> (string \<rightharpoonup> string) \<Rightarrow> (string \<rightharpoonup> string)" where
  "event_state (DeleteFunc (Unstructured u)) m = m(get_name u \<mapsto> decommissioned)"
| "event_state (DeleteFunc (DeletedFinalStateUnknown (Unstructured u))) m = m(get_name u \<mapsto> decommissioned)"
| "event_state (AddFunc (Unstructured u)) m =
     (if get_phase u = [] then m
      else m(get_name u \<mapsto> phaseToState (get_phase u)))"
| "event_state (UpdateFunc (Unstructured u)) m =
     (if get_phase u = [] then m
      else m(get_name u \<mapsto> phaseToState (get_phase u)))"
| "event_state _ m = m"

definition cluster_state :: "informer_event list \<Rightarrow> string \<rightharpoonup> string" where
  "cluster_state evs = fold event_state evs Map.empty"

fun observed :: "informer_event \<Rightarrow> json list" where
  "observed (AddFunc (Unstructured u)) = [u]"
| "observed (UpdateFunc (Unstructured u)) = [u]"
| "observed _ = []"

text \<open>The API server gives every version of an object its own, non-empty resource version.\<close>

definition versions_differ :: "json list \<Rightarrow> bool" where
  "versions_differ us \<longleftrightarrow> list_all (\<lambda>u. get_resource_version u \<noteq> [] \<and>
     list_all (\<lambda>v. get_name u = get_name v \<and> get_resource_version u = get_resource_version v \<longrightarrow>
       get_phase u = get_phase v) us) us"

definition last_answer :: "patch_log \<Rightarrow> string \<Rightarrow> bool option" where
  "last_answer l aid = map_option (\<lambda>e. snd (snd e)) (find (\<lambda>e. fst e = aid) (rev l))"

lemma log_snoc:
  "pb_state (l @ [(aid, p, ok)]) =
     (if ok then (pb_state l)(aid \<mapsto> as_string (map_of p ''current_state'')) else pb_state l)"
  "last_answer (l @ [(aid, p, ok)]) i = (if aid = i then Some ok else last_answer l i)"
  by (simp_all add: pb_state_def accept_state_def last_answer_def)

definition follow_inv :: "json list \<Rightarrow> (string \<rightharpoonup> string) \<Rightarrow> reconciler \<times> patch_log \<Rightarrow> bool" where
  "follow_inv us m rl = (case rl of (r, l) \<Rightarrow>
     (\<forall>aid rv. lastRV r aid = Some rv \<longrightarrow> (\<exists>u \<in> set us. get_name u = aid \<and> get_resource_version u = rv \<and>
        pb_state l aid = Some (phaseToState (get_phase u)))) \<and>
     (\<forall>aid. last_answer l aid \<noteq> Some False \<longrightarrow> pb_state l aid = m aid))"

lemma follow_inv_labenv:
  assumes inv: "follow_inv us m (r, l)" and us: "versions_differ us" "u \<in> set us"
  shows "follow_inv us (if get_phase u = [] then m else m(get_name u \<mapsto> phaseToState (get_phase u)))
    (ReconcileLabEnv (answering answer) u (r, l))"
proof -
  let ?a = "get_name u" and ?st = "phaseToState (get_phase u)" and ?p = "status_patch r u"
  have st: "as_string (map_of ?p ''current_state'') = ?st"
    using status_patch_keys(3)[of r u] by (simp add: as_string_def)
  have rvs: "\<And>aid rv. lastRV r aid = Some rv \<Longrightarrow> \<exists>v \<in> set us. get_name v = aid \<and> get_resource_version v = rv \<and>
      pb_state l aid = Some (phaseToState (get_phase v))"
    and ok: "\<And>aid. last_answer l aid \<noteq> Some False \<Longrightarrow> pb_state l aid = m aid"
    using inv by (simp_all add: follow_inv_def)
  have known: "pb_state l ?a = Some ?st" if "go_get [] (lastRV r) ?a = get_resource_version u"
  proof -
    have "get_resource_version u \<noteq> []" using us by (simp add: versions_differ_def list_all_iff)
    then have "lastRV r ?a = Some (get_resource_version u)"
      using that by (simp add: go_get_def split: option.splits)
    from rvs[OF this] obtain v where v: "v \<in> set us" "get_name v = ?a"
      "get_resource_version v = get_resource_version u" "pb_state l ?a = Some (phaseToState (get_phase v))" by blast
    have "get_phase v = get_phase u" using us v(1,2,3) unfolding versions_differ_def list_all_iff by blast
    then show ?thesis using v(4) by simp
  qed
  consider "get_phase u = []" | "get_phase u \<noteq> []" "go_get [] (lastRV r) ?a = get_resource_version u"
    | "get_phase u \<noteq> []" "go_get [] (lastRV r) ?a \<noteq> get_resource_version u" "answer l ?a ?p"
    | "get_phase u \<noteq> []" "go_get [] (lastRV r) ?a \<noteq> get_resource_version u" "\<not> answer l ?a ?p"
    by blast
  then show ?thesis
  proof cases
    case 1
    then show ?thesis using inv by (simp add: ReconcileLabEnv_def Let_def)
  next
    case 2
    have "pb_state l aid = (m(?a \<mapsto> ?st)) aid" if "last_answer l aid \<noteq> Some False" for aid
      using that known[OF 2(2)] ok[of aid] by (cases "aid = ?a") simp_all
    then show ?thesis
      using 2 rvs unfolding ReconcileLabEnv_def Let_def follow_inv_def prod.case
      by (simp del: fun_upd_apply)
  next
    case 3
    have "\<exists>v \<in> set us. get_name v = aid \<and> get_resource_version v = rv \<and>
        ((pb_state l)(?a \<mapsto> ?st)) aid = Some (phaseToState (get_phase v))"
      if "((lastRV r)(?a \<mapsto> get_resource_version u)) aid = Some rv" for aid rv
      using that rvs[of aid rv] us(2) by (cases "aid = ?a") auto
    moreover have "((pb_state l)(?a \<mapsto> ?st)) aid = (m(?a \<mapsto> ?st)) aid"
      if "(if ?a = aid then Some True else last_answer l aid) \<noteq> Some False" for aid
      using that ok[of aid] by (cases "aid = ?a") auto
    ultimately show ?thesis
      using 3 unfolding ReconcileLabEnv_def Let_def follow_inv_def answering_def prod.case
      by (simp add: log_snoc st del: fun_upd_apply)
  next
    case 4
    then show ?thesis
      using rvs ok by (simp add: ReconcileLabEnv_def Let_def answering_def follow_inv_def log_snoc)
  qed
qed

lemma follow_inv_delete:
  "follow_inv us m (r, l) \<Longrightarrow>
     follow_inv us (m(get_name u \<mapsto> decommissioned)) (ReconcileDelete (answering answer) u (r, l))"
  by (auto simp: ReconcileDelete_def Let_def answering_def follow_inv_def log_snoc delete_patch_keys as_string_def)

lemma follow_inv_step:
  assumes "follow_inv us m rl" "versions_differ us" "set (observed ev) \<subseteq> set us"
  shows "follow_inv us (event_state ev m) (informer_handle (answering answer) ev rl)"
proof -
  obtain r l where rl: "rl = (r, l)" by force
  show ?thesis
    unfolding rl using assms(1,3)
    by (cases "(ev, m)" rule: event_state.cases)
      (auto simp only: prod.inject event_state.simps informer_handle.simps observed.simps
        list.set insert_subset rl intro: follow_inv_labenv[OF _ assms(2)] follow_inv_delete)
qed

text \<open>
  C7: Whatever the informer delivers and PocketBase answers, an attempt whose last patch was accepted
  has the state that the events give: that of the last phase seen of its LabEnvironment, or
  decommissioned if it was deleted since; an attempt never patched has none. Versions skipped as
  already written never make a difference.
\<close>
theorem upstream_follows_cluster:
  assumes "versions_differ (concat (map observed evs))"
    "last_answer (snd (run_events (answering answer) evs [])) aid \<noteq> Some False"
  shows "pb_state (snd (run_events (answering answer) evs [])) aid = cluster_state evs aid"
proof -
  let ?us = "concat (map observed evs)"
  have step: "follow_inv ?us (fold event_state es m) (fold (informer_handle (answering answer)) es rl)"
    if "follow_inv ?us m rl" "set es \<subseteq> set evs" for es m rl
    using that
  proof (induction es arbitrary: m rl)
    case (Cons e es)
    have "set (observed e) \<subseteq> set ?us" using Cons.prems(2) by auto
    then have "follow_inv ?us (event_state e m) (informer_handle (answering answer) e rl)"
      using follow_inv_step[OF Cons.prems(1) assms(1)] by blast
    then show ?case using Cons.IH Cons.prems(2) by simp
  qed simp
  have "follow_inv ?us Map.empty (NewReconciler, [])"
    by (simp add: follow_inv_def NewReconciler_def pb_state_def)
  from step[OF this] have "follow_inv ?us (cluster_state evs) (run_events (answering answer) evs [])"
    by (simp add: cluster_state_def run_events_def)
  then show ?thesis using assms(2) by (simp add: follow_inv_def split: prod.splits)
qed

definition lab_object :: "string \<Rightarrow> string \<Rightarrow> string \<Rightarrow> json" where
  "lab_object n rv phase = JObj
     [(''metadata'', JObj [(''name'', JStr n), (''resourceVersion'', JStr rv)]),
      (''status'', JObj [(''phase'', JStr phase)])]"

lemma lab_object_parts [simp]:
  "get_name (lab_object n rv phase) = n" "get_resource_version (lab_object n rv phase) = rv"
  "get_phase (lab_object n rv phase) = phase"
  by (simp_all add: lab_object_def get_name_def get_resource_version_def get_phase_def as_string_def)

theorem upstream_follows_cluster_witness:
  "pb_state (snd (run_events (answering (\<lambda>_ _ _. True))
     [AddFunc (Unstructured (lab_object ''a1'' ''1'' ''Pending'')),
      UpdateFunc (Unstructured (lab_object ''a1'' ''2'' ''Ready''))] [])) ''a1'' = Some ''provisioned''"
proof -
  let ?evs = "[AddFunc (Unstructured (lab_object ''a1'' ''1'' ''Pending'')),
      UpdateFunc (Unstructured (lab_object ''a1'' ''2'' ''Ready''))]"
  let ?l = "snd (run_events (answering (\<lambda>_ _ _. True)) ?evs [])"
  have "last_answer ?l ''a1'' \<noteq> Some False"
    by (simp add: run_events_def ReconcileLabEnv_def NewReconciler_def go_get_def Let_def answering_def last_answer_def)
  moreover have "versions_differ (concat (map observed ?evs))" by (simp add: versions_differ_def)
  ultimately have "pb_state ?l ''a1'' = cluster_state ?evs ''a1''" by (intro upstream_follows_cluster)
  then show ?thesis by (simp add: cluster_state_def phaseToState_def)
qed

section \<open>A failed patch is retried\<close>

lemma fold_replicate: "fold f (replicate n x) s = (f x ^^ n) s"
  by (induction n arbitrary: s) (simp_all add: funpow_swap1)

lemma funpow_retry:
  assumes fail: "\<And>l. length l < k \<Longrightarrow> h (r, l) = (r, l @ [p])"
    and accept: "\<And>l. k \<le> length l \<Longrightarrow> h (r, l) = (r', l @ [q])"
    and finished: "\<And>l. h (r', l) = (r', l)"
  shows "(h ^^ n) (r, []) = (if n \<le> k then (r, replicate n p) else (r', replicate k p @ [q]))"
proof (induction n)
  case (Suc n)
  consider "n < k" | "n = k" | "k < n" by linarith
  then show ?case
  proof cases
    case 1
    then show ?thesis using Suc fail[of "replicate n p"] by (simp add: replicate_append_same)
  next
    case 2
    then show ?thesis using Suc accept[of "replicate n p"] by simp
  next
    case 3
    then show ?thesis using Suc finished by simp
  qed
qed simp

text \<open>
  A LabEnvironment whose version is not written yet and has a phase is patched again on every
  delivery while PocketBase fails - the informer delivers it at least at every resync - and once
  PocketBase accepts, it is not patched again: after \<open>k\<close> failures and \<open>n\<close> deliveries of the same
  version there are \<open>min n k\<close> refused patches and, if \<open>k < n\<close>, one accepted.
\<close>
theorem failed_patch_retried:
  assumes "get_phase u \<noteq> []" "go_get [] (lastRV r) (get_name u) \<noteq> get_resource_version u"
  shows "map (snd \<circ> snd) (snd (fold (informer_handle (answering (\<lambda>l _ _. k \<le> length l)))
      (replicate n (UpdateFunc (Unstructured u))) (r, []))) =
    replicate (min n k) False @ (if k < n then [True] else [])"
proof -
  let ?h = "ReconcileLabEnv (answering (\<lambda>l _ _. k \<le> length l)) u"
  let ?p = "status_patch r u"
  let ?r = "r\<lparr>lastRV := (lastRV r)(get_name u \<mapsto> get_resource_version u),
    expiresAtWritten := (if ''expires_at'' \<in> fst ` set ?p
      then (expiresAtWritten r)(get_name u \<mapsto> True) else expiresAtWritten r)\<rparr>"
  have fail: "?h (r, l) = (r, l @ [(get_name u, ?p, False)])" if "length l < k" for l
    using assms that unfolding ReconcileLabEnv_def Let_def answering_def by simp
  have accept: "?h (r, l) = (?r, l @ [(get_name u, ?p, True)])" if "k \<le> length l" for l
    using assms that unfolding ReconcileLabEnv_def Let_def answering_def by simp
  have finished: "?h (?r, l) = (?r, l)" for l
    by (simp add: ReconcileLabEnv_def go_get_def Let_def)
  have "(?h ^^ n) (r, []) = (if n \<le> k then (r, replicate n (get_name u, ?p, False))
      else (?r, replicate k (get_name u, ?p, False) @ [(get_name u, ?p, True)]))"
    by (rule funpow_retry) (fact fail, fact accept, fact finished)
  then show ?thesis by (simp add: fold_replicate)
qed

theorem failed_patch_retried_witness:
  "map (snd \<circ> snd) (snd (fold (informer_handle (answering (\<lambda>l _ _. 2 \<le> length l)))
      (replicate 5 (UpdateFunc (Unstructured (lab_object ''a1'' ''7'' ''Ready'')))) (NewReconciler, []))) =
    [False, False, True]"
  using failed_patch_retried[of "lab_object ''a1'' ''7'' ''Ready''" NewReconciler 2 5]
  by (simp add: NewReconciler_def go_get_def numeral_2_eq_2)

end
