(* ===== verification/ControllerMain.thy ===== *)
theory ControllerMain
  imports Realtime Downstream Upstream
begin

text \<open>
  \<open>services/attempt-controller/cmd/main.go\<close> and \<open>internal/config\<close>, \<open>internal/health\<close>: the
  configuration, the handler of realtime events, and how the subscription, the resync timer and the
  informer drive the two reconcilers. The state is the client's token and the world, which
  PocketBase and the API server share.
\<close>

section \<open>Configuration and health\<close>

record controller_config =
  PbURL :: string
  PbEmail :: string
  PbPassword :: string
  TlsVerify :: bool

definition Load :: "(string \<Rightarrow> string) \<Rightarrow> string + controller_config" where
  "Load getenv =
     (if getenv ''ATTEMPT_CONTROLLER_BACKEND_URL'' = [] then Inl ''ATTEMPT_CONTROLLER_BACKEND_URL is required''
      else if getenv ''ATTEMPT_CONTROLLER_BACKEND_USERNAME'' = [] then Inl ''ATTEMPT_CONTROLLER_BACKEND_USERNAME is required''
      else if getenv ''ATTEMPT_CONTROLLER_BACKEND_PASSWORD'' = [] then Inl ''ATTEMPT_CONTROLLER_BACKEND_PASSWORD is required''
      else Inr \<lparr>PbURL = getenv ''ATTEMPT_CONTROLLER_BACKEND_URL'',
                PbEmail = getenv ''ATTEMPT_CONTROLLER_BACKEND_USERNAME'',
                PbPassword = getenv ''ATTEMPT_CONTROLLER_BACKEND_PASSWORD'',
                TlsVerify = (getenv ''ATTEMPT_CONTROLLER_BACKEND_TLS_VERIFY'' \<noteq> ''false'')\<rparr>)"

text \<open>The status and body of a path of the health server; \<open>ready\<close> is what \<open>SetReady\<close> stored.\<close>

definition health_handler :: "bool \<Rightarrow> string \<Rightarrow> (int \<times> string) option" where
  "health_handler ready path =
     (if path = ''/healthz'' then Some (StatusOK, ''ok'')
      else if path = ''/readyz'' then (if ready then Some (StatusOK, ''ok'') else Some (StatusServiceUnavailable, ''not ready''))
      else None)"

text \<open>
  Connecting at startup: a failure is tried again after a pause, \<open>tries\<close> times until the context
  ends. Only then is the server ready.
\<close>

fun connect_pocketbase :: "('w, 'e) net \<Rightarrow> controller_config \<Rightarrow> nat \<Rightarrow> 'w \<Rightarrow> client option \<times> bool \<times> string \<times> 'w" where
  "connect_pocketbase n cfg 0 w = (None, False, [], w)"
| "connect_pocketbase n cfg (Suc tries) w =
     (case NewClient n (PbURL cfg) (PbEmail cfg) (PbPassword cfg) w of
        (Inl e, s) \<Rightarrow> connect_pocketbase n cfg tries (snd s)
      | (Inr c, s) \<Rightarrow> (Some c, True, s))"

section \<open>The handler of realtime events\<close>

record ('w, 'k) kube =
  kube_delete :: "string \<Rightarrow> (string \<times> 'w, 'k kube_error, unit) call"
  kube_apply :: "string \<Rightarrow> json \<Rightarrow> (string \<times> 'w, 'k kube_error, unit) call"

abbreviation reconcile_attempt ::
  "('w, 'e) net \<Rightarrow> client \<Rightarrow> ('w, 'k) kube \<Rightarrow> attempt \<Rightarrow> string \<times> 'w \<Rightarrow> string \<times> 'w" where
  "reconcile_attempt n c k \<equiv> ReconcileAttempt (kube_delete k) (kube_apply k) (PatchAttempt n c)"

text \<open>The second half of the handler, from \<open>ToAttempt\<close> on.\<close>

definition reconcile_record ::
  "('w, 'e) net \<Rightarrow> client \<Rightarrow> ('w, 'k) kube \<Rightarrow> attempt_record \<Rightarrow> string \<times> 'w \<Rightarrow> string \<times> 'w" where
  "reconcile_record n c k r s =
     (case ToAttempt r of
        Inl e \<Rightarrow> s
      | Inr a \<Rightarrow> reconcile_attempt n c k
          (if DesiredState a = decommissioned \<and> DecommissionReason a = []
           then a\<lparr>DecommissionReason := ''desired-state-decommissioned''\<rparr> else a) s)"

definition attempt_handler ::
  "('w, 'e) net \<Rightarrow> client \<Rightarrow> ('w, 'k) kube \<Rightarrow> string \<Rightarrow> attempt_record \<Rightarrow> string \<times> 'w \<Rightarrow> string \<times> 'w" where
  "attempt_handler n c k action r s =
     (if RecDesiredState r = decommissioned \<and> CurrentState r = decommissioned then s
      else if RecDesiredState r \<noteq> decommissioned then
        (case GetAttempt n c (RecID r) s of
           (Inl e, s1) \<Rightarrow>
             if e = NotFoundError
             then reconcile_attempt n c k (zero_attempt\<lparr>ID := RecID r, DesiredState := decommissioned,
                    DecommissionReason := ''attempt-not-found-in-pocketbase''\<rparr>) s1
             else s1
         | (Inr full, s1) \<Rightarrow> reconcile_record n c k full s1)
      else reconcile_record n c k r s)"

definition resync ::
  "('w, 'e) net \<Rightarrow> client \<Rightarrow> ('w, 'k) kube \<Rightarrow> string \<times> 'w \<Rightarrow> string \<times> 'w" where
  "resync n c k = ResyncAttempts (kube_delete k) (kube_apply k) (PatchAttempt n c) (ListActiveAttempts n c)"

section \<open>The running controller\<close>

text \<open>
  What wakes the controller: a subscription that was opened and delivered some frames, the resync
  timer, or the informer. The goroutines share nothing but the client and the two servers; a step
  runs one of them to its end.
\<close>

datatype wakeup = Subscription bytes | ResyncTick | Informer informer_event

text \<open>Upstream's \<open>PatchAttempt\<close> keeps only whether it failed.\<close>

definition upstream_patch :: "('w, 'e) net \<Rightarrow> client \<Rightarrow> (string \<times> 'w) patcher" where
  "upstream_patch n c aid p s = (case PatchAttempt n c aid p s of (r, s1) \<Rightarrow> (\<not> isl r, s1))"

fun controller_step ::
  "('w, 'e) net \<Rightarrow> client \<Rightarrow> ('w, 'k) kube \<Rightarrow> wakeup \<Rightarrow> reconciler \<times> string \<times> 'w \<Rightarrow> reconciler \<times> string \<times> 'w" where
  "controller_step n c k (Subscription stream) (r, s) =
     (r, snd (SubscribeAttempts n c (attempt_handler n c k) (resync n c k) stream s))"
| "controller_step n c k ResyncTick (r, s) = (r, resync n c k s)"
| "controller_step n c k (Informer ev) rs = informer_handle (upstream_patch n c) ev rs"

definition run_controller ::
  "('w, 'e) net \<Rightarrow> client \<Rightarrow> ('w, 'k) kube \<Rightarrow> wakeup list \<Rightarrow> string \<times> 'w \<Rightarrow> reconciler \<times> string \<times> 'w" where
  "run_controller n c k ws s = fold (controller_step n c k) ws (NewReconciler, s)"

section \<open>What an event does to the cluster\<close>

text \<open>\<open>obj\<close>: the LabEnvironments of the world. Calls to PocketBase do not change them.\<close>

definition pb_separate :: "('w, 'e) net \<Rightarrow> ('w \<Rightarrow> string \<rightharpoonup> json) \<Rightarrow> bool" where
  "pb_separate n obj \<longleftrightarrow> (\<forall>req w. obj (snd (do_request n req w)) = obj w)"

definition kube_laws :: "('w, 'k) kube \<Rightarrow> ('w \<Rightarrow> string \<rightharpoonup> json) \<Rightarrow> bool" where
  "kube_laws k obj \<longleftrightarrow>
     cluster_laws (\<lambda>s. obj (snd s)) (kube_delete k) (kube_apply k) (\<lambda>_ _ s. (Inr () :: unit + unit, s)) \<and>
     cluster_available (kube_delete k) (kube_apply k)"

lemma with_token_objects:
  "pb_separate n obj \<Longrightarrow> obj (snd (snd (with_token n req s))) = obj (snd s)"
  by (auto simp: pb_separate_def with_token_def send_request_def split: prod.splits sum.splits)
    (metis snd_conv)+

lemma call_bind_objects:
  assumes "\<And>s. obj (snd (snd (m s))) = obj (snd s)" "\<And>x s. obj (snd (snd (k x s))) = obj (snd s)"
  shows "obj (snd (snd (call_bind m k s))) = obj (snd s)"
  using assms(1)[of s] assms(2) by (auto simp: call_bind_def split: prod.splits sum.splits)

lemma reauth_objects: "pb_separate n obj \<Longrightarrow> obj (snd (snd (reauth n c s))) = obj (snd s)"
  unfolding reauth_def
  by (rule call_bind_objects)
    (auto simp: with_token_objects call_fail_def split: option.splits prod.splits)

lemma retry_once_objects: "pb_separate n obj \<Longrightarrow> obj (snd (snd (retry_once n c req s))) = obj (snd s)"
  unfolding retry_once_def
proof (rule call_bind_objects)
  assume sep: "pb_separate n obj"
  fix x :: http_response and s
  show "obj (snd (snd ((if StatusCode x = StatusUnauthorized
      then \<lambda>s. case reauth n c s of (Inl e, s1) \<Rightarrow> (Inl (ReauthFailed e), s1) | (Inr u, s1) \<Rightarrow> with_token n req s1
      else call_return x) s))) = obj (snd s)"
    using reauth_objects[OF sep, of c s]
    by (auto simp: with_token_objects[OF sep] call_return_def split: prod.splits sum.splits)
qed (simp add: with_token_objects)

lemma get_objects: "pb_separate n obj \<Longrightarrow> obj (snd (snd (get n c path dec zero s))) = obj (snd s)"
  unfolding get_def
  by (rule call_bind_objects)
    (auto simp: retry_once_objects call_fail_def call_return_def split: option.splits)

lemma patch_objects: "pb_separate n obj \<Longrightarrow> obj (snd (snd (PatchAttempt n c aid p s))) = obj (snd s)"
  unfolding PatchAttempt_def
  by (rule call_bind_objects) (auto simp: retry_once_objects call_fail_def call_return_def)

lemma kube_cluster:
  assumes "kube_laws k obj" "pb_separate n obj"
  shows "cluster_laws (\<lambda>s. obj (snd s)) (kube_delete k) (kube_apply k) (PatchAttempt n c)"
    "cluster_available (kube_delete k) (kube_apply k)"
  using assms(1) unfolding kube_laws_def cluster_laws_def
  by (simp_all only: patch_objects[OF assms(2)] simp_thms)

text \<open>What a record and an event ask for: a LabEnvironment's name and what it is to be.\<close>

definition record_target :: "attempt_record \<Rightarrow> (string \<times> json option) option" where
  "record_target r = (case ToAttempt r of Inl e \<Rightarrow> None | Inr a \<Rightarrow> Some (ID a, wanted a))"

definition event_target :: "attempt_record \<Rightarrow> 'e client_error + attempt_record \<Rightarrow> (string \<times> json option) option" where
  "event_target r fetched =
     (if RecDesiredState r = decommissioned
      then (if CurrentState r = decommissioned then None else record_target r)
      else (case fetched of
          Inr full \<Rightarrow> record_target full
        | Inl e \<Rightarrow> if e = NotFoundError then Some (RecID r, None) else None))"

definition apply_target :: "(string \<times> json option) option \<Rightarrow> (string \<rightharpoonup> json) \<Rightarrow> (string \<rightharpoonup> json)" where
  "apply_target t m = (case t of None \<Rightarrow> m | Some (nm, v) \<Rightarrow> m(nm := v))"

lemma apply_target_simps [simp]:
  "apply_target None m = m" "apply_target (Some (nm, v)) m = m(nm := v)"
  by (simp_all add: apply_target_def)

lemma reconcile_record_target:
  assumes "kube_laws k obj" "pb_separate n obj"
  shows "obj (snd (reconcile_record n c k r s)) = apply_target (record_target r) (obj (snd s))"
proof (cases "ToAttempt r")
  case (Inr a)
  let ?b = "if DesiredState a = decommissioned \<and> DecommissionReason a = []
    then a\<lparr>DecommissionReason := ''desired-state-decommissioned''\<rparr> else a"
  have "ID ?b = ID a" "wanted ?b = wanted a"
    by (simp_all add: wanted_def toLabEnvironment_def spec_object_def)
  then show ?thesis
    using reconcile_reaches[OF kube_cluster[OF assms], where a = ?b and s = s] Inr
    by (simp add: reconcile_record_def record_target_def apply_target_def)
qed (simp add: reconcile_record_def record_target_def apply_target_def)


text \<open>A cluster that is a map, and a PocketBase that knows no attempt.\<close>

definition map_kube :: "(string \<rightharpoonup> json, unit) kube" where
  "map_kube = \<lparr>kube_delete = (\<lambda>nm (t, m). case map_delete nm m of (r, m1) \<Rightarrow> (r, t, m1)),
               kube_apply = (\<lambda>nm j (t, m). case map_apply nm j m of (r, m1) \<Rightarrow> (r, t, m1))\<rparr>"

definition empty_pb :: "(string \<rightharpoonup> json, unit) net" where
  "empty_pb = \<lparr>do_request = (\<lambda>req m. (Inr \<lparr>StatusCode = StatusNotFound, Body = []\<rparr>, m)),
               url_ok = (\<lambda>_. True), quote_rune = (\<lambda>s. s)\<rparr>"

definition some_client :: client where
  "some_client = \<lparr>baseURL = ''http://pb'', email = ''e'', password = ''p''\<rparr>"


end
