(* ===== verification/AttemptLoop.thy ===== *)
theory AttemptLoop
  imports ControllerMain Runs
begin

text \<open>
  The goroutines of \<open>services/attempt-controller/cmd/main.go\<close> at work at the same time: the
  subscription with its handler, the resync timer and the informer, which between them carry an
  attempt's desired state to the cluster and its current state back. A step is one call to PocketBase
  or the API server, so the goroutines interleave between calls. Every call concerns one attempt, and
  the machine follows one; calls succeed, and the record of the attempt stays in PocketBase.
\<close>

section \<open>The attempt, in PocketBase and in the cluster\<close>

text \<open>A LabEnvironment with the phase of its status, empty until the operator writes it.\<close>

datatype lab_object = NoLab | LiveLab string | DeletingLab

text \<open>What the informer has still to deliver: the object at a new version, or its deletion.\<close>

datatype news = Seen string | Gone

text \<open>\<open>realtime\<close>: the events of the subscription, with the desired and the current state at the time.\<close>

record attempt_world =
  want :: string
  have_state :: string
  lab :: lab_object
  realtime :: "(string \<times> string) list"
  informed :: "news list"

definition set_states :: "string \<Rightarrow> string \<Rightarrow> 'a attempt_world_scheme \<Rightarrow> 'a attempt_world_scheme" where
  "set_states d c w = w\<lparr>want := d, have_state := c, realtime := realtime w @ [(d, c)]\<rparr>"

definition set_lab :: "lab_object \<Rightarrow> news \<Rightarrow> 'a attempt_world_scheme \<Rightarrow> 'a attempt_world_scheme" where
  "set_lab l n w = w\<lparr>lab := l, informed := informed w @ [n]\<rparr>"

text \<open>The two calls of the dynamic client; deleting leaves the object to its finalizer.\<close>

definition lab_delete :: "string \<Rightarrow> ('a attempt_world_scheme, unit kube_error, unit) call" where
  "lab_delete nm w =
     (case lab w of
        NoLab \<Rightarrow> (Inl NotFound, w)
      | LiveLab ph \<Rightarrow> (Inr (), set_lab DeletingLab (Seen ph) w)
      | DeletingLab \<Rightarrow> (Inr (), w))"

definition lab_apply :: "string \<Rightarrow> json \<Rightarrow> ('a attempt_world_scheme, unit kube_error, unit) call" where
  "lab_apply nm j w =
     (case lab w of NoLab \<Rightarrow> (Inr (), set_lab (LiveLab []) (Seen []) w) | _ \<Rightarrow> (Inr (), w))"

definition patch_states :: "string \<Rightarrow> (string \<times> json) list \<Rightarrow> ('a attempt_world_scheme, unit, unit) call" where
  "patch_states aid p w =
     (let val = (\<lambda>k old. case map_of p k of Some (JStr x) \<Rightarrow> x | _ \<Rightarrow> old)
      in (Inr (), set_states (val ''desired_state'' (want w)) (val ''current_state'' (have_state w)) w))"

section \<open>The goroutines\<close>

text \<open>A goroutine that reconciles: between calls it holds what it read last.\<close>

datatype worker = Idle | Fetching | Reconciling string | Marking

record controller = attempt_world +
  sub :: worker
  tick :: worker

text \<open>\<open>ReconcileAttempt\<close> up to its first call, after which only the patch for \<open>NotFound\<close> may follow.\<close>

definition reconcile_call :: "string \<Rightarrow> 'a attempt_world_scheme \<Rightarrow> worker \<times> 'a attempt_world_scheme" where
  "reconcile_call d w =
     (if d = decommissioned then
        (case lab_delete [] w of (Inl NotFound, w1) \<Rightarrow> (Marking, w1) | (_, w1) \<Rightarrow> (Idle, w1))
      else (Idle, snd (lab_apply [] JNull w)))"

definition mark_call :: "'a attempt_world_scheme \<Rightarrow> 'a attempt_world_scheme" where
  "mark_call w = snd (patch_states [] [(''current_state'', JStr decommissioned)] w)"

text \<open>The informer's handlers: \<open>ReconcileLabEnv\<close> at a new version, and \<open>ReconcileDelete\<close>.\<close>

fun deliver :: "news \<Rightarrow> 'a attempt_world_scheme \<Rightarrow> 'a attempt_world_scheme" where
  "deliver (Seen ph) w =
     (if ph = [] then w else snd (patch_states [] [(''current_state'', JStr (phaseToState ph))] w))"
| "deliver Gone w = snd (patch_states [] delete_patch w)"

text \<open>
  The events of users and of the operator, then the steps of the subscription, of the timer and of
  the informer. \<open>SubLists\<close> and \<open>TickLists\<close> are \<open>ListActiveAttempts\<close>, whose filter is that the two
  states differ; \<open>RealtimeLost\<close> is an event that passes while the subscription is not connected.
\<close>

datatype controller_event =
    UserSets string | LabReports string | LabExpires | LabMarked | LabFinalized | RealtimeLost
  | SubTakes | SubLists | SubFetches | SubReconciles | SubMarks
  | TickLists | TickReconciles | TickMarks
  | Informs

definition take_event :: "string \<times> string \<Rightarrow> worker" where
  "take_event ev =
     (case ev of (d, c) \<Rightarrow>
       if d = decommissioned \<and> c = decommissioned then Idle
       else if d \<noteq> decommissioned then Fetching else Reconciling d)"

definition listed :: "'a attempt_world_scheme \<Rightarrow> worker" where
  "listed w = (if have_state w \<noteq> want w then Reconciling (want w) else Idle)"

fun loop_step :: "controller_event \<Rightarrow> controller \<Rightarrow> controller option" where
  "loop_step (UserSets d) s = Some (set_states d (have_state s) s)"
| "loop_step (LabReports ph) s =
     (case lab s of
        LiveLab old \<Rightarrow> guarded (ph \<noteq> [] \<and> ph \<noteq> ''Terminating'') (set_lab (LiveLab ph) (Seen ph) s)
      | _ \<Rightarrow> None)"
| "loop_step LabExpires s = (case lab s of LiveLab ph \<Rightarrow> Some (set_lab DeletingLab (Seen ph) s) | _ \<Rightarrow> None)"
| "loop_step LabMarked s = guarded (lab s = DeletingLab) (set_lab DeletingLab (Seen ''Terminating'') s)"
| "loop_step LabFinalized s = guarded (lab s = DeletingLab) (set_lab NoLab Gone s)"
| "loop_step RealtimeLost s = guarded (realtime s \<noteq> []) (s\<lparr>realtime := tl (realtime s)\<rparr>)"
| "loop_step SubTakes s =
     (case realtime s of
        [] \<Rightarrow> None
      | ev # evs \<Rightarrow> guarded (sub s = Idle) (s\<lparr>realtime := evs, sub := take_event ev\<rparr>))"
| "loop_step SubLists s = guarded (sub s = Idle) (s\<lparr>sub := listed s\<rparr>)"
| "loop_step SubFetches s = guarded (sub s = Fetching) (s\<lparr>sub := Reconciling (want s)\<rparr>)"
| "loop_step SubReconciles s =
     (case sub s of
        Reconciling d \<Rightarrow> (case reconcile_call d s of (w, s1) \<Rightarrow> Some (s1\<lparr>sub := w\<rparr>)) | _ \<Rightarrow> None)"
| "loop_step SubMarks s = guarded (sub s = Marking) ((mark_call s)\<lparr>sub := Idle\<rparr>)"
| "loop_step TickLists s = guarded (tick s = Idle) (s\<lparr>tick := listed s\<rparr>)"
| "loop_step TickReconciles s =
     (case tick s of
        Reconciling d \<Rightarrow> (case reconcile_call d s of (w, s1) \<Rightarrow> Some (s1\<lparr>tick := w\<rparr>)) | _ \<Rightarrow> None)"
| "loop_step TickMarks s = guarded (tick s = Marking) ((mark_call s)\<lparr>tick := Idle\<rparr>)"
| "loop_step Informs s =
     (case informed s of [] \<Rightarrow> None | n # ns \<Rightarrow> Some (deliver n (s\<lparr>informed := ns\<rparr>)))"

text \<open>A new attempt: its creation is the first realtime event.\<close>

definition new_attempt :: "string \<Rightarrow> string \<Rightarrow> controller" where
  "new_attempt d c = \<lparr>want = d, have_state = c, lab = NoLab, realtime = [(d, c)], informed = [],
     sub = Idle, tick = Idle\<rparr>"

section \<open>One goroutine alone\<close>

text \<open>Without interference the steps are the sequential operations of the other theories.\<close>

lemma reconcile_steps:
  "ReconcileAttempt lab_delete lab_apply patch_states a w =
     (case reconcile_call (DesiredState a) w of (Marking, w1) \<Rightarrow> mark_call w1 | (_, w1) \<Rightarrow> w1)"
  by (cases "lab w") (simp_all add: ReconcileAttempt_def reconcile_call_def lab_delete_def lab_apply_def
      mark_call_def patch_states_def)

definition patching :: "'a attempt_world_scheme patcher" where
  "patching aid p w = (True, snd (patch_states aid p w))"

lemma expires_patch_keys:
  "map_of (expires_patch r obj) ''current_state'' = None" "map_of (expires_patch r obj) ''desired_state'' = None"
  by (simp_all add: expires_patch_def Let_def split: option.split)

lemma deliver_update:
  assumes "go_get [] (lastRV r) (get_name obj) \<noteq> get_resource_version obj"
  shows "snd (ReconcileLabEnv patching obj (r, w)) = deliver (Seen (get_phase obj)) w"
  using assms by (simp add: ReconcileLabEnv_def Let_def patching_def patch_states_def status_patch_def
      expires_patch_keys)

lemma deliver_deletion: "snd (ReconcileDelete patching obj (r, w)) = deliver Gone w"
  by (simp add: ReconcileDelete_def Let_def patching_def patch_states_def)

section \<open>Invariant\<close>

fun covered :: "('a \<Rightarrow> bool) \<Rightarrow> ('a \<Rightarrow> bool) \<Rightarrow> 'a list \<Rightarrow> bool" where
  "covered P Q [] = True"
| "covered P Q (x # xs) = ((P x \<longrightarrow> (\<exists>y \<in> set xs. Q y)) \<and> covered P Q xs)"

lemma covered_snoc: "covered P Q xs \<Longrightarrow> \<not> P x \<Longrightarrow> covered P Q (xs @ [x])"
  by (induction xs) auto

lemma covered_snoc_by: "Q x \<Longrightarrow> \<not> P x \<Longrightarrow> covered P Q (xs @ [x])"
  by (induction xs) auto

text \<open>News that make the informer report a state other than decommissioned, and news it forgets by.\<close>

definition shows_life :: "news \<Rightarrow> bool" where
  "shows_life n \<longleftrightarrow> (case n of Seen ph \<Rightarrow> ph \<noteq> [] \<and> ph \<noteq> ''Terminating'' | Gone \<Rightarrow> False)"

definition shows_end :: "news \<Rightarrow> bool" where
  "shows_end n \<longleftrightarrow> n = Gone \<or> n = Seen ''Terminating''"

lemma shows_simps [simp]:
  "shows_life (Seen ph) \<longleftrightarrow> ph \<noteq> [] \<and> ph \<noteq> ''Terminating''" "\<not> shows_life Gone"
  "shows_end (Seen ph) \<longleftrightarrow> ph = ''Terminating''" "shows_end Gone"
  by (auto simp: shows_life_def shows_end_def)

definition wakes :: "string \<times> string \<Rightarrow> bool" where
  "wakes ev \<longleftrightarrow> ev \<noteq> (decommissioned, decommissioned)"

definition removing :: "worker \<Rightarrow> bool" where
  "removing w \<longleftrightarrow> w = Reconciling decommissioned"

definition creating :: "worker \<Rightarrow> bool" where
  "creating w \<longleftrightarrow> (\<exists>d. w = Reconciling d \<and> d \<noteq> decommissioned)"

lemma worker_simps [simp]:
  "\<not> removing Idle" "\<not> removing Fetching" "\<not> removing Marking" "removing (Reconciling d) \<longleftrightarrow> d = decommissioned"
  "\<not> creating Idle" "\<not> creating Fetching" "\<not> creating Marking" "creating (Reconciling d) \<longleftrightarrow> d \<noteq> decommissioned"
  by (auto simp: removing_def creating_def)

text \<open>What is read or queued agrees with the desired state, which only ever becomes decommissioned.\<close>

definition sources_inv :: "controller \<Rightarrow> bool" where
  "sources_inv s \<longleftrightarrow>
     (want s \<noteq> decommissioned \<longrightarrow>
        list_all (\<lambda>ev. fst ev \<noteq> decommissioned) (realtime s) \<and>
        \<not> removing (sub s) \<and> sub s \<noteq> Marking \<and> \<not> removing (tick s) \<and> tick s \<noteq> Marking)"

definition news_inv :: "controller \<Rightarrow> bool" where
  "news_inv s \<longleftrightarrow>
     (case lab s of
        LiveLab ph \<Rightarrow> ph \<noteq> ''Terminating'' \<and> (ph \<noteq> [] \<longrightarrow> covered shows_end shows_life (informed s))
      | NoLab \<Rightarrow> covered (\<lambda>n. n \<noteq> Gone) (\<lambda>n. n = Gone) (informed s)
      | DeletingLab \<Rightarrow> True)"

text \<open>Wherever the two sides differ, something is under way that will notice.\<close>

definition pending_inv :: "controller \<Rightarrow> bool" where
  "pending_inv s \<longleftrightarrow>
     (case lab s of
        LiveLab ph \<Rightarrow> ph \<noteq> [] \<longrightarrow>
          (if want s = decommissioned
           then list_ex shows_life (informed s) \<or> list_ex wakes (realtime s) \<or>
             sub s = Fetching \<or> removing (sub s) \<or> removing (tick s)
           else if informed s = [] then have_state s = phaseToState ph
           else last (informed s) = Seen ph)
      | NoLab \<Rightarrow>
          (if want s = decommissioned
           then have_state s = decommissioned \<or> Gone \<in> set (informed s) \<or> list_ex wakes (realtime s) \<or>
             sub s = Fetching \<or> removing (sub s) \<or> removing (tick s) \<or> sub s = Marking \<or> tick s = Marking
           else Gone \<in> set (informed s) \<or> realtime s \<noteq> [] \<or> sub s = Fetching \<or>
             creating (sub s) \<or> creating (tick s))
      | DeletingLab \<Rightarrow> True)"

definition loop_inv :: "controller \<Rightarrow> bool" where
  "loop_inv s \<longleftrightarrow> sources_inv s \<and> news_inv s \<and> pending_inv s"

text \<open>Users end attempts but do not revive them, and no realtime event is lost.\<close>

fun regular :: "controller_event \<Rightarrow> bool" where
  "regular (UserSets d) \<longleftrightarrow> d = decommissioned"
| "regular RealtimeLost \<longleftrightarrow> False"
| "regular _ \<longleftrightarrow> True"

lemma phaseToState_life: "ph \<noteq> ''Terminating'' \<Longrightarrow> phaseToState ph \<noteq> decommissioned"
  by (simp add: phaseToState_def decommissioned_def)

lemma phaseToState_end: "phaseToState ''Terminating'' = decommissioned"
  by (simp add: phaseToState_def decommissioned_def)

lemma deliver_eq:
  "deliver (Seen ph) w = (if ph = [] then w else set_states (want w) (phaseToState ph) w)"
  "deliver Gone w = set_states decommissioned decommissioned w"
  by (simp_all add: patch_states_def delete_patch_def)

lemma mark_call_eq: "mark_call w = set_states (want w) decommissioned w"
  by (simp add: mark_call_def patch_states_def)

lemma reconcile_call_cases:
  obtains (missing) "d = decommissioned" "lab w = NoLab" "reconcile_call d w = (Marking, w)"
  | (removed) ph where "d = decommissioned" "lab w = LiveLab ph" "reconcile_call d w = (Idle, set_lab DeletingLab (Seen ph) w)"
  | (created) "d \<noteq> decommissioned" "lab w = NoLab" "reconcile_call d w = (Idle, set_lab (LiveLab []) (Seen []) w)"
  | (unchanged) "d = decommissioned \<longrightarrow> lab w = DeletingLab" "d \<noteq> decommissioned \<longrightarrow> lab w \<noteq> NoLab"
      "reconcile_call d w = (Idle, w)"
  by (cases "lab w"; cases "d = decommissioned")
    (auto simp: reconcile_call_def lab_delete_def lab_apply_def)

lemma set_states_fields [simp]:
  "want (set_states d c w) = d" "have_state (set_states d c w) = c" "lab (set_states d c w) = lab w"
  "informed (set_states d c w) = informed w" "realtime (set_states d c w) = realtime w @ [(d, c)]"
  "sub (set_states d c s) = sub s" "tick (set_states d c s) = tick s"
  by (simp_all add: set_states_def)

lemma set_lab_fields [simp]:
  "want (set_lab l n w) = want w" "have_state (set_lab l n w) = have_state w" "lab (set_lab l n w) = l"
  "informed (set_lab l n w) = informed w @ [n]" "realtime (set_lab l n w) = realtime w"
  "sub (set_lab l n s) = sub s" "tick (set_lab l n s) = tick s"
  by (simp_all add: set_lab_def)

lemma loop_step_iff:
  "loop_step (LabReports ph) s = Some s1 \<longleftrightarrow> (\<exists>old. lab s = LiveLab old \<and> ph \<noteq> [] \<and> ph \<noteq> ''Terminating'' \<and>
     s1 = set_lab (LiveLab ph) (Seen ph) s)"
  "loop_step LabExpires s = Some s1 \<longleftrightarrow> (\<exists>ph. lab s = LiveLab ph \<and> s1 = set_lab DeletingLab (Seen ph) s)"
  "loop_step SubTakes s = Some s1 \<longleftrightarrow> (\<exists>ev evs. realtime s = ev # evs \<and> sub s = Idle \<and>
     s1 = s\<lparr>realtime := evs, sub := take_event ev\<rparr>)"
  "loop_step SubReconciles s = Some s1 \<longleftrightarrow> (\<exists>d. sub s = Reconciling d \<and>
     s1 = (snd (reconcile_call d s))\<lparr>sub := fst (reconcile_call d s)\<rparr>)"
  "loop_step TickReconciles s = Some s1 \<longleftrightarrow> (\<exists>d. tick s = Reconciling d \<and>
     s1 = (snd (reconcile_call d s))\<lparr>tick := fst (reconcile_call d s)\<rparr>)"
  "loop_step Informs s = Some s1 \<longleftrightarrow> (\<exists>n ns. informed s = n # ns \<and> s1 = deliver n (s\<lparr>informed := ns\<rparr>))"
  by (auto split: lab_object.splits list.splits worker.splits prod.splits)

lemma take_event_simps [simp]:
  "take_event ev = Fetching \<longleftrightarrow> fst ev \<noteq> decommissioned"
  "removing (take_event ev) \<longleftrightarrow> fst ev = decommissioned \<and> snd ev \<noteq> decommissioned"
  "\<not> creating (take_event ev)" "take_event ev \<noteq> Marking"
  by (auto simp: take_event_def split: prod.splits)

lemma listed_simps [simp]:
  "listed w \<noteq> Fetching" "listed w \<noteq> Marking"
  "removing (listed w) \<longleftrightarrow> have_state w \<noteq> decommissioned \<and> want w = decommissioned"
  by (auto simp: listed_def)

declare loop_step.simps [simp del] deliver.simps [simp del]

lemmas loop_steps = loop_step_iff loop_step.simps(1,4-6,8,9,11,12,14) deliver_eq mark_call_eq

lemma sources_step:
  assumes "loop_step e s = Some s1" "regular e" "sources_inv s"
  shows "sources_inv s1"
proof (cases e)
  case SubReconciles
  then obtain d where d: "sub s = Reconciling d" "s1 = (snd (reconcile_call d s))\<lparr>sub := fst (reconcile_call d s)\<rparr>"
    using assms(1) by (auto simp: loop_steps)
  show ?thesis
    by (cases rule: reconcile_call_cases[of d s]) (use d assms(3) in \<open>simp_all add: sources_inv_def\<close>)
next
  case TickReconciles
  then obtain d where d: "tick s = Reconciling d" "s1 = (snd (reconcile_call d s))\<lparr>tick := fst (reconcile_call d s)\<rparr>"
    using assms(1) by (auto simp: loop_steps)
  show ?thesis
    by (cases rule: reconcile_call_cases[of d s]) (use d assms(3) in \<open>simp_all add: sources_inv_def\<close>)
next
  case Informs
  then obtain n ns where n: "s1 = deliver n (s\<lparr>informed := ns\<rparr>)" using assms(1) by (auto simp: loop_steps)
  show ?thesis using n assms(3) by (cases n) (simp_all add: sources_inv_def deliver_eq)
qed (use assms in \<open>auto simp: loop_steps sources_inv_def\<close>)

lemma news_step:
  assumes "loop_step e s = Some s1" "regular e" "news_inv s"
  shows "news_inv s1"
proof (cases e)
  case SubReconciles
  then obtain d where d: "s1 = (snd (reconcile_call d s))\<lparr>sub := fst (reconcile_call d s)\<rparr>"
    using assms(1) by (auto simp: loop_steps)
  show ?thesis
    by (cases rule: reconcile_call_cases[of d s]) (use d assms(3) in \<open>simp_all add: news_inv_def split: lab_object.splits\<close>)
next
  case TickReconciles
  then obtain d where d: "s1 = (snd (reconcile_call d s))\<lparr>tick := fst (reconcile_call d s)\<rparr>"
    using assms(1) by (auto simp: loop_steps)
  show ?thesis
    by (cases rule: reconcile_call_cases[of d s]) (use d assms(3) in \<open>simp_all add: news_inv_def split: lab_object.splits\<close>)
next
  case Informs
  then obtain n ns where n: "informed s = n # ns" "s1 = deliver n (s\<lparr>informed := ns\<rparr>)"
    using assms(1) by (auto simp: loop_steps)
  show ?thesis using n assms(3)
    by (cases n) (auto simp: news_inv_def deliver_eq split: lab_object.splits)
qed (use assms in \<open>auto simp: loop_steps news_inv_def covered_snoc_by split: lab_object.splits\<close>)

lemma covered_last: "covered P Q (x # xs) \<Longrightarrow> P x \<Longrightarrow> list_ex Q xs"
  by (auto simp: list_ex_iff)

lemma wakes_simps [simp]: "wakes (d, c) \<longleftrightarrow> d \<noteq> decommissioned \<or> c \<noteq> decommissioned"
  by (simp add: wakes_def)

lemma last_shows_life:
  "xs \<noteq> [] \<Longrightarrow> last xs = Seen ph \<Longrightarrow> ph \<noteq> [] \<Longrightarrow> ph \<noteq> ''Terminating'' \<Longrightarrow> \<exists>n \<in> set xs. shows_life n"
  by (metis last_in_set shows_simps(1))

lemma pending_step:
  assumes "loop_step e s = Some s1" "regular e" "loop_inv s"
  shows "pending_inv s1"
proof -
  have src: "sources_inv s" and nws: "news_inv s" and pend: "pending_inv s"
    using assms(3) by (simp_all add: loop_inv_def)
  show ?thesis
  proof (cases e)
    case SubReconciles
    then obtain d where d: "sub s = Reconciling d" "s1 = (snd (reconcile_call d s))\<lparr>sub := fst (reconcile_call d s)\<rparr>"
      using assms(1) by (auto simp: loop_steps)
    show ?thesis
      by (cases rule: reconcile_call_cases[of d s])
        (use d pend src in \<open>auto simp: pending_inv_def sources_inv_def split: lab_object.splits if_splits\<close>)
  next
    case TickReconciles
    then obtain d where d: "tick s = Reconciling d" "s1 = (snd (reconcile_call d s))\<lparr>tick := fst (reconcile_call d s)\<rparr>"
      using assms(1) by (auto simp: loop_steps)
    show ?thesis
      by (cases rule: reconcile_call_cases[of d s])
        (use d pend src in \<open>auto simp: pending_inv_def sources_inv_def split: lab_object.splits if_splits\<close>)
  next
    case Informs
    then obtain n ns where n: "informed s = n # ns" "s1 = deliver n (s\<lparr>informed := ns\<rparr>)"
      using assms(1) by (auto simp: loop_steps)
    show ?thesis
    proof (cases n)
      case (Seen ph)
      then show ?thesis
        using n pend nws src phaseToState_life[of ph]
        by (auto simp: pending_inv_def news_inv_def sources_inv_def deliver_eq list_ex_iff
            split: lab_object.splits if_splits)
    next
      case Gone
      then show ?thesis
        using n pend nws
        by (auto simp: pending_inv_def news_inv_def deliver_eq list_ex_iff split: lab_object.splits if_splits)
    qed
  next
    case (UserSets d)
    then show ?thesis
      using assms(1,2) src nws pend last_shows_life[of "informed s"] phaseToState_life
      by (auto simp: loop_steps pending_inv_def sources_inv_def news_inv_def list_ex_iff
          split: lab_object.splits if_splits)
  qed (use assms(1,2) src nws pend in \<open>auto simp: loop_steps pending_inv_def sources_inv_def news_inv_def
      list_ex_iff phaseToState_life split: lab_object.splits if_splits\<close>)
qed

definition regular_step :: "controller_event \<Rightarrow> controller \<Rightarrow> controller option" where
  "regular_step e s = (if regular e then loop_step e s else None)"

interpretation loop: step_invariant regular_step loop_inv
  by unfold_locales
    (auto simp: regular_step_def loop_inv_def intro: sources_step news_step pending_step split: if_splits)

lemma regular_run:
  "list_all regular es \<Longrightarrow> run_steps regular_step es s = run_steps loop_step es s"
  by (induction es arbitrary: s) (auto simp: regular_step_def split: option.split)

lemma new_attempt_inv: "d \<noteq> decommissioned \<Longrightarrow> loop_inv (new_attempt d c)"
  by (simp add: new_attempt_def loop_inv_def sources_inv_def news_inv_def pending_inv_def)

section \<open>Agreement\<close>

text \<open>Nothing is under way: no event is queued, no goroutine is at work, and the operator has reported on the lab.\<close>

definition settled :: "controller \<Rightarrow> bool" where
  "settled s \<longleftrightarrow> realtime s = [] \<and> informed s = [] \<and> sub s = Idle \<and> tick s = Idle \<and>
     lab s \<noteq> DeletingLab \<and> lab s \<noteq> LiveLab []"


lemmas loop_defs = loop_step.simps deliver_eq mark_call_eq set_states_def set_lab_def new_attempt_def
  take_event_def listed_def reconcile_call_def lab_delete_def lab_apply_def decommissioned_def phaseToState_def

definition demo_schedule :: "controller_event list" where
  "demo_schedule =
     [SubTakes, SubFetches, UserSets decommissioned, TickLists, SubReconciles, SubTakes, SubReconciles,
      TickReconciles, Informs, Informs, LabMarked, LabFinalized, Informs, Informs, SubTakes, SubTakes]"


text \<open>
  C39: Losing realtime events can leave a lab running for an ended attempt with nothing to notice it.
  When the timer finds no LabEnvironment, its patch to decommissioned may come after another
  goroutine created one; if the events in between are lost, both states are decommissioned, so no
  resync lists the attempt, and the LabEnvironment stays.
\<close>
theorem lost_events_leave_lab:
  "\<exists>es s. run_steps loop_step es (new_attempt ''provisioned'' ''new'') = Some s \<and>
     list_all (\<lambda>e. regular e \<or> e = RealtimeLost) es \<and> settled s \<and>
     want s = decommissioned \<and> have_state s = decommissioned \<and> lab s = LiveLab ''Degraded'' \<and>
     listed s = Idle"
proof -
  let ?es = "[SubTakes, SubFetches, UserSets decommissioned, TickLists, TickReconciles, SubReconciles,
      LabReports ''Degraded'', Informs, Informs, RealtimeLost, RealtimeLost, TickMarks, RealtimeLost]"
  have "list_all (\<lambda>e. regular e \<or> e = RealtimeLost) ?es" by simp
  moreover have "run_steps loop_step ?es (new_attempt ''provisioned'' ''new'') =
      Some \<lparr>want = decommissioned, have_state = decommissioned, lab = LiveLab ''Degraded'', realtime = [],
        informed = [], sub = Idle, tick = Idle\<rparr>"
    by (simp add: loop_defs)
  ultimately show ?thesis
    by (intro exI[of _ ?es] exI conjI) (assumption | simp add: settled_def listed_def)+
qed

end
