(* ===== verification/ControllerStart.thy ===== *)
theory ControllerStart
  imports ControllerMain
begin

text \<open>
  The start of \<open>services/attempt-controller/cmd/main.go\<close>, up to the goroutines of \<open>ControllerMain\<close>, and
  \<open>internal/k8s/k8sclient.go\<close>. client-go's two sources of a configuration and its constructor are
  arguments.
\<close>

section \<open>The Kubernetes client\<close>

text \<open>\<open>LabEnvironmentGVR\<close>: group, version and resource.\<close>

definition LabEnvironmentGVR :: "string \<times> string \<times> string" where
  "LabEnvironmentGVR = (''lab.rootenv.io'', ''v1alpha1'', ''labenvironments'')"

text \<open>The operator's \<open>GroupVersion\<close>, from \<open>labenv-operator/api/v1alpha1/groupversion_info.go\<close>.\<close>

definition SchemeGroupVersion :: "string \<times> string" where
  "SchemeGroupVersion = (''lab.rootenv.io'', ''v1alpha1'')"

text \<open>The error of the configuration is wrapped, that of the constructor is not.\<close>

datatype 'e kube_client_error = KubeConfigError 'e | ConstructorError 'e

definition NewKubeClient ::
  "('w, 'e, 'cfg) call \<Rightarrow> ('w, 'e, 'cfg) call \<Rightarrow> ('cfg \<Rightarrow> 'e + 'k) \<Rightarrow> ('w, 'e kube_client_error, 'k) call" where
  "NewKubeClient in_cluster_config client_config new_for_config w =
     (let (r, w2) =
        (case in_cluster_config w of
           (Inr cfg, w1) \<Rightarrow> (Inr cfg, w1)
         | (Inl e, w1) \<Rightarrow> client_config w1)
      in (case r of
            Inl e \<Rightarrow> (Inl (KubeConfigError e), w2)
          | Inr cfg \<Rightarrow> (case new_for_config cfg of Inl e \<Rightarrow> (Inl (ConstructorError e), w2) | Inr k \<Rightarrow> (Inr k, w2))))"

section \<open>\<open>main\<close>\<close>

text \<open>
  How far \<open>main\<close> gets: an exit code, or running with both clients. What the health server answers
  on \<open>/readyz\<close> by then is returned with it. \<open>healthz\<close> is the status of a GET of the health server
  of the process that runs already, if there was an answer.
\<close>

datatype ('c, 'k) controller_start = ControllerExit int | ControllerRunning 'c 'k

definition controller_main ::
  "string list \<Rightarrow> int option \<Rightarrow> (string \<Rightarrow> string) \<Rightarrow> ('w, 'e) net \<Rightarrow> nat \<Rightarrow> (string \<times> 'w, 'e kube_client_error, 'k) call \<Rightarrow>
     'w \<Rightarrow> (client, 'k) controller_start \<times> bool \<times> string \<times> 'w" where
  "controller_main args healthz env n tries new_kube_client w =
     (if length args = 2 \<and> args ! 1 = ''--healthcheck''
      then (ControllerExit (if healthz = Some StatusOK then 0 else 1), False, [], w)
      else (case Load env of
         Inl e \<Rightarrow> (ControllerExit 1, False, [], w)
       | Inr cfg \<Rightarrow>
          (case connect_pocketbase n cfg tries w of
             (None, ready, s) \<Rightarrow> (ControllerExit 0, ready, s)
           | (Some c, ready, s) \<Rightarrow>
               (case new_kube_client s of
                  (Inl e, s1) \<Rightarrow> (ControllerExit 1, ready, s1)
                | (Inr k, s1) \<Rightarrow> (ControllerRunning c k, ready, s1)))))"

section \<open>What holds once it runs\<close>

text \<open>The in-cluster configuration is used whenever there is one.\<close>

lemma in_cluster_preferred:
  assumes "in_cluster w = (Inr cfg, w1)"
  shows "NewKubeClient in_cluster other mk w =
    ((case mk cfg of Inl e \<Rightarrow> Inl (ConstructorError e) | Inr k \<Rightarrow> Inr k), w1)"
  using assms by (simp add: NewKubeClient_def split: sum.split)

lemma connect_some_ready: "connect_pocketbase n cfg tries w = (Some c, ready, s) \<Longrightarrow> ready"
  by (induction tries arbitrary: w) (auto split: sum.splits prod.splits)

lemma connect_some_client:
  "connect_pocketbase n cfg tries w = (Some c, ready, s) \<Longrightarrow>
     \<exists>w1. NewClient n (PbURL cfg) (PbEmail cfg) (PbPassword cfg) w1 = (Inr c, s)"
  by (induction tries arbitrary: w) (auto split: sum.splits prod.splits)

text \<open>
  A controller that runs is ready, and its PocketBase client is one that authenticated with the
  credentials of the environment.
\<close>

lemma running_ready:
  assumes "controller_main args healthz env n tries mk w = (ControllerRunning c k, ready, s)"
  shows "ready" "\<exists>cfg s1 w1. Load env = Inr cfg \<and> NewClient n (PbURL cfg) (PbEmail cfg) (PbPassword cfg) w1 = (Inr c, s1) \<and>
    mk s1 = (Inr k, s)"
proof -
  obtain cfg s1 where c: "Load env = Inr cfg" "connect_pocketbase n cfg tries w = (Some c, ready, s1)" "mk s1 = (Inr k, s)"
    using assms by (auto simp: controller_main_def split: if_splits sum.splits option.splits prod.splits)
  show "ready" using connect_some_ready[OF c(2)] .
  show "\<exists>cfg s1 w1. Load env = Inr cfg \<and> NewClient n (PbURL cfg) (PbEmail cfg) (PbPassword cfg) w1 = (Inr c, s1) \<and>
      mk s1 = (Inr k, s)"
    using connect_some_client[OF c(2)] c(1,3) by blast
qed

text \<open>Before PocketBase has accepted the credentials once, nothing but \<open>/healthz\<close> answers 200.\<close>

lemma not_ready_before_connected:
  "connect_pocketbase n cfg tries w = (None, ready, s) \<Longrightarrow> \<not> ready \<and> health_handler ready ''/readyz'' \<noteq> Some (StatusOK, ''ok'')"
  by (induction tries arbitrary: w)
    (auto simp: health_handler_def status_defs split: sum.splits prod.splits)

text \<open>
  Even a controller that ends for want of a Kubernetes client was ready: \<open>SetReady\<close> comes first.
\<close>

lemma ready_without_kube:
  assumes "\<not> (length args = 2 \<and> args ! 1 = ''--healthcheck'')" "Load env = Inr cfg"
    "NewClient n (PbURL cfg) (PbEmail cfg) (PbPassword cfg) w = (Inr c, s)" "mk s = (Inl e, s1)"
  shows "controller_main args healthz env n (Suc tries) mk w = (ControllerExit 1, True, s1)"
  using assms by (simp add: controller_main_def)

text \<open>What the controller writes is of the group and version the operator registers.\<close>

lemma resource_versions_agree:
  "fst LabEnvironmentGVR = fst SchemeGroupVersion" "fst (snd LabEnvironmentGVR) = snd SchemeGroupVersion"
  "\<exists>fs. toLabEnvironment a =
     JObj ((''apiVersion'', JStr (fst SchemeGroupVersion @ ''/'' @ snd SchemeGroupVersion)) # fs)"
  by (simp_all add: LabEnvironmentGVR_def SchemeGroupVersion_def toLabEnvironment_def)

end
