(* ===== verification/Kube.thy ===== *)
theory Kube
  imports GoStrings GoTime
begin

text \<open>
  The Kubernetes objects that \<open>services/labenv-operator\<close> builds, with the fields it sets, the custom
  resource of \<open>api/v1alpha1/labenvironment_types.go\<close>, and the client calls the operator makes. The
  API server is code outside the repository: an argument \<open>api\<close> of the operations, with what the
  operator relies on as the predicate \<open>api_laws\<close>.
\<close>

type_synonym labels = "string \<rightharpoonup> string"

record object_meta =
  MetaName :: string
  MetaNamespace :: string
  MetaLabels :: labels
  MetaAnnotations :: labels
  MetaDeleting :: bool

definition named :: "string \<Rightarrow> string \<Rightarrow> object_meta" where
  "named ns nm = \<lparr>MetaName = nm, MetaNamespace = ns, MetaLabels = Map.empty, MetaAnnotations = Map.empty,
     MetaDeleting = False\<rparr>"

section \<open>Pods\<close>

record container =
  ContainerName :: string
  ContainerImage :: string
  PullPolicy :: string
  Command :: "string list"
  Env :: "(string \<times> string) list"
  ContainerPorts :: "int list"
  VolumeMounts :: "(string \<times> string \<times> bool) list"
  AllowPrivilegeEscalation :: "bool option"
  ReadOnlyRootFilesystem :: "bool option"
  DropCapabilities :: "string list"
  ReadinessGet :: "(string \<times> int) option"
  Requests :: "(string \<times> string) list"
  Limits :: "(string \<times> string) list"

record pod_spec =
  ServiceAccountName :: string
  RestartPolicy :: string
  HostUsers :: "bool option"
  HostNetwork :: bool
  HostPID :: bool
  HostIPC :: bool
  AutomountToken :: "bool option"
  RunAsNonRoot :: "bool option"
  RunAsUser :: "int option"
  Seccomp :: "string option"
  Containers :: "container list"
  Volumes :: "(string \<times> string) list"

definition zero_container :: container where
  "zero_container = \<lparr>ContainerName = [], ContainerImage = [], PullPolicy = [], Command = [], Env = [],
     ContainerPorts = [], VolumeMounts = [], AllowPrivilegeEscalation = None, ReadOnlyRootFilesystem = None,
     DropCapabilities = [], ReadinessGet = None, Requests = [], Limits = []\<rparr>"

definition zero_pod_spec :: pod_spec where
  "zero_pod_spec = \<lparr>ServiceAccountName = [], RestartPolicy = [], HostUsers = None, HostNetwork = False,
     HostPID = False, HostIPC = False, AutomountToken = None, RunAsNonRoot = None, RunAsUser = None,
     Seccomp = None, Containers = [], Volumes = []\<rparr>"

text \<open>What the operator reads of a pod's status.\<close>

datatype container_state = Waiting string | Terminated string | OtherState

record pod_status =
  PodPhase :: string
  ContainerStatuses :: "container_state list"
  PodConditions :: "(string \<times> string) list"

definition zero_pod_status :: pod_status where
  "zero_pod_status = \<lparr>PodPhase = [], ContainerStatuses = [], PodConditions = []\<rparr>"

section \<open>Network policies\<close>

text \<open>A label selector: labels that must match, and keys whose value must not be one of a list.\<close>

record selector =
  MatchLabels :: labels
  NotIn :: "(string \<times> string list) list"

definition any_pod :: selector where
  "any_pod = \<lparr>MatchLabels = Map.empty, NotIn = []\<rparr>"

definition with_label :: "string \<Rightarrow> string \<Rightarrow> selector" where
  "with_label k v = \<lparr>MatchLabels = [k \<mapsto> v], NotIn = []\<rparr>"

datatype peer =
    Pods "selector option" "selector option" \<comment> \<open>namespace selector and pod selector\<close>
  | IPBlock string

text \<open>A rule: the peers it allows, and the protocols and ports, none meaning all.\<close>

record np_rule =
  Peers :: "peer list"
  Ports :: "(string \<times> int) list"

record network_policy =
  PodSelector :: selector
  PolicyTypes :: "string list"
  IngressRules :: "np_rule list"
  EgressRules :: "np_rule list"

section \<open>The other kinds\<close>

record service_spec =
  ClusterIP :: string
  ServiceSelector :: labels
  ServicePorts :: "(string \<times> int \<times> int) list"

record policy_rule =
  APIGroups :: "string list"
  Resources :: "string list"
  Verbs :: "string list"

record ingress_spec =
  IngressClassName :: "string option"
  IngressPath :: string
  IngressPathType :: string
  IngressService :: string
  IngressServicePort :: int
  IngressTLS :: nat \<comment> \<open>empty TLS entries\<close>

record deployment_spec =
  Replicas :: int
  DeploymentSelector :: labels
  TemplateLabels :: labels
  TemplateSpec :: pod_spec

record limit_range_item =
  LimitType :: string
  Default :: "(string \<times> string) list"
  DefaultRequest :: "(string \<times> string) list"
  MaxLimit :: "(string \<times> string) list"

datatype kube_object =
    Namespace object_meta
  | Pod object_meta pod_spec pod_status
  | Service object_meta service_spec
  | NetworkPolicy object_meta network_policy
  | ResourceQuota object_meta "(string \<times> string) list"
  | LimitRange object_meta "limit_range_item list"
  | ServiceAccount object_meta
  | Role object_meta "policy_rule list"
  | RoleBinding object_meta "(string \<times> string \<times> string) list" "string \<times> string \<times> string"
  | Deployment object_meta deployment_spec
  | Ingress object_meta ingress_spec
  | ConfigMap object_meta "string \<rightharpoonup> string"

datatype kube_kind =
    KNamespace | KPod | KService | KNetworkPolicy | KResourceQuota | KLimitRange | KServiceAccount
  | KRole | KRoleBinding | KDeployment | KIngress | KConfigMap

fun object_kind :: "kube_object \<Rightarrow> kube_kind" where
  "object_kind (Namespace m) = KNamespace"
| "object_kind (Pod m p st) = KPod"
| "object_kind (Service m sp) = KService"
| "object_kind (NetworkPolicy m np) = KNetworkPolicy"
| "object_kind (ResourceQuota m h) = KResourceQuota"
| "object_kind (LimitRange m l) = KLimitRange"
| "object_kind (ServiceAccount m) = KServiceAccount"
| "object_kind (Role m rs) = KRole"
| "object_kind (RoleBinding m ss r) = KRoleBinding"
| "object_kind (Deployment m d) = KDeployment"
| "object_kind (Ingress m i) = KIngress"
| "object_kind (ConfigMap m d) = KConfigMap"

fun object_meta_of :: "kube_object \<Rightarrow> object_meta" where
  "object_meta_of (Namespace m) = m"
| "object_meta_of (Pod m p st) = m"
| "object_meta_of (Service m sp) = m"
| "object_meta_of (NetworkPolicy m np) = m"
| "object_meta_of (ResourceQuota m h) = m"
| "object_meta_of (LimitRange m l) = m"
| "object_meta_of (ServiceAccount m) = m"
| "object_meta_of (Role m rs) = m"
| "object_meta_of (RoleBinding m ss r) = m"
| "object_meta_of (Deployment m d) = m"
| "object_meta_of (Ingress m i) = m"
| "object_meta_of (ConfigMap m d) = m"

type_synonym object_key = "kube_kind \<times> string \<times> string"

definition key_of :: "kube_object \<Rightarrow> object_key" where
  "key_of obj = (object_kind obj, MetaNamespace (object_meta_of obj), MetaName (object_meta_of obj))"

section \<open>The custom resource\<close>

record lab_asset =
  AName :: string
  AImage :: string
  ACPU :: string
  AMemory :: string
  ADisk :: string
  AProtocols :: "string list"
  ASetup :: string

record lab_exercise =
  XID :: string
  XDescription :: string
  XType :: string
  XAsset :: string
  XTemplate :: string

record lab_spec =
  OwnerId :: string
  OwnerName :: string
  LabId :: string
  TTL :: int
  SpecAssets :: "lab_asset list"
  SpecExercises :: "lab_exercise list"

text \<open>The types' JSON tags, as the API machinery reads an object with them.\<close>

definition zero_lab_asset :: lab_asset where
  "zero_lab_asset = \<lparr>AName = [], AImage = [], ACPU = [], AMemory = [], ADisk = [], AProtocols = [], ASetup = []\<rparr>"

definition zero_lab_exercise :: lab_exercise where
  "zero_lab_exercise = \<lparr>XID = [], XDescription = [], XType = [], XAsset = [], XTemplate = []\<rparr>"

definition zero_lab_spec :: lab_spec where
  "zero_lab_spec = \<lparr>OwnerId = [], OwnerName = [], LabId = [], TTL = 0, SpecAssets = [], SpecExercises = []\<rparr>"

definition lab_asset_fields :: "lab_asset fields" where
  "lab_asset_fields =
     [(''name'', field AName AName_update dec_string),
      (''image'', field AImage AImage_update dec_string),
      (''cpu'', field ACPU ACPU_update dec_string),
      (''memory'', field AMemory AMemory_update dec_string),
      (''disk'', field ADisk ADisk_update dec_string),
      (''protocols'', field AProtocols AProtocols_update (dec_slice [] dec_string)),
      (''setup'', field ASetup ASetup_update dec_string)]"

definition lab_exercise_fields :: "lab_exercise fields" where
  "lab_exercise_fields =
     [(''id'', field XID XID_update dec_string),
      (''description'', field XDescription XDescription_update dec_string),
      (''type'', field XType XType_update dec_string),
      (''asset'', field XAsset XAsset_update dec_string),
      (''template'', field XTemplate XTemplate_update dec_string)]"

definition lab_spec_fields :: "lab_spec fields" where
  "lab_spec_fields =
     [(''ownerId'', field OwnerId OwnerId_update dec_string),
      (''ownerName'', field OwnerName OwnerName_update dec_string),
      (''labId'', field LabId LabId_update dec_string),
      (''ttl'', field TTL TTL_update (dec_int 32)),
      (''assets'', field SpecAssets SpecAssets_update (dec_slice zero_lab_asset (dec_struct lab_asset_fields))),
      (''exercises'', field SpecExercises SpecExercises_update (dec_slice zero_lab_exercise (dec_struct lab_exercise_fields)))]"

record asset_status =
  StName :: string
  StPhase :: string
  StReason :: string
  StReady :: bool
  StAddress :: string
  StProtocols :: "string list"

record lab_condition =
  CondType :: string
  CondStatus :: bool
  CondReason :: string
  CondMessage :: string

record lab_status =
  Conditions :: "lab_condition list"
  Phase :: string
  StatusNamespace :: string
  LabExpiresAt :: "int option" \<comment> \<open>nanoseconds since the epoch, as the other times here\<close>
  TotalAssets :: nat
  ReadyAssets :: nat
  Ready :: string
  StatusAssets :: "asset_status list"

record labenv =
  EnvName :: string
  CreationTimestamp :: int
  Deleting :: bool
  Finalizers :: "string list"
  Spec :: lab_spec
  Status :: lab_status

section \<open>The API server\<close>

datatype 'e api_error = ErrNotFound | ErrAlreadyExists | ErrConflict | ErrOther 'e

record endpoint =
  EndpointReady :: "bool option"
  Addresses :: "string list"

record endpoint_slice =
  Endpoints :: "endpoint list"
  SlicePorts :: "int option list"

text \<open>
  The client, and beside it what else the operator takes from outside: the clock, the environment,
  the files, \<open>resource.MustParse\<close>'s grammar and \<open>meta.SetStatusCondition\<close>.
\<close>

record ('s, 'e) api =
  get_env :: "string \<Rightarrow> ('s, 'e api_error, labenv) call"
  update_env :: "labenv \<Rightarrow> ('s, 'e api_error, labenv) call"
  update_status :: "labenv \<Rightarrow> ('s, 'e api_error, labenv) call"
  delete_env :: "labenv \<Rightarrow> ('s, 'e api_error, unit) call"
  get_object :: "object_key \<Rightarrow> ('s, 'e api_error, kube_object) call"
  create_object :: "kube_object \<Rightarrow> ('s, 'e api_error, unit) call"
  create_or_update :: "kube_object \<Rightarrow> ('s, 'e api_error, unit) call"
  delete_object :: "object_key \<Rightarrow> ('s, 'e api_error, unit) call"
  list_slices :: "('s, 'e api_error, endpoint_slice list) call"
  clock :: "'s \<Rightarrow> int"
  getenv :: "string \<Rightarrow> string"
  read_file :: "string \<Rightarrow> bool + bytes" \<comment> \<open>a failure says whether the file does not exist\<close>
  quantity_ok :: "string \<Rightarrow> bool"
  set_condition :: "lab_condition list \<Rightarrow> lab_condition \<Rightarrow> lab_condition list"

text \<open>
  What the API server documents, over the objects it holds under each key: a get tells what is
  there, a creation succeeds only where nothing was, a failed call changes nothing, and a call
  changes nothing under other keys - but deleting a namespace takes what is in it. Defaulting of unset fields is left out; other clients act
  between the calls of one reconciliation only on what the operator does not read.
\<close>

definition api_laws :: "('s \<Rightarrow> object_key \<rightharpoonup> kube_object) \<Rightarrow> ('s, 'e) api \<Rightarrow> bool" where
  "api_laws objs api \<longleftrightarrow>
     (\<forall>nm s. objs (snd (get_env api nm s)) = objs s) \<and>
     (\<forall>env s. objs (snd (update_env api env s)) = objs s) \<and>
     (\<forall>env s. objs (snd (update_status api env s)) = objs s) \<and>
     (\<forall>env s. objs (snd (delete_env api env s)) = objs s) \<and>
     (\<forall>s. objs (snd (list_slices api s)) = objs s) \<and>
     (\<forall>k s. objs (snd (get_object api k s)) = objs s \<and>
        (\<forall>obj. fst (get_object api k s) = Inr obj \<longrightarrow> objs s k = Some obj) \<and>
        (fst (get_object api k s) = Inl ErrNotFound \<longrightarrow> objs s k = None)) \<and>
     (\<forall>obj s. objs (snd (create_object api obj s)) =
          (if fst (create_object api obj s) = Inr () then (objs s)(key_of obj \<mapsto> obj) else objs s) \<and>
        (fst (create_object api obj s) = Inr () \<longrightarrow> objs s (key_of obj) = None) \<and>
        (fst (create_object api obj s) = Inl ErrAlreadyExists \<longrightarrow> objs s (key_of obj) \<noteq> None)) \<and>
     (\<forall>obj s. objs (snd (create_or_update api obj s)) =
          (if fst (create_or_update api obj s) = Inr () then (objs s)(key_of obj \<mapsto> obj) else objs s)) \<and>
     (\<forall>k k' s. k' \<noteq> k \<and> \<not> (fst k = KNamespace \<and> fst (snd k') = snd (snd k)) \<longrightarrow>
        objs (snd (delete_object api k s)) k' = objs s k')"

end
