(* ===== verification/LabImages.thy ===== *)
theory LabImages
  imports Kube
begin

text \<open>
  \<open>services/labenv-operator/internal/controller/labimages.go\<close>: the image reference of a lab asset,
  read from a file named after it, with \<open>filepath.Join\<close> on slash-separated paths.
\<close>

definition slash :: char where "slash = CHR ''/''"

text \<open>The elements of a path, cleaned: \<open>acc\<close> is what is kept so far, the last one first.\<close>

fun clean_elems :: "bool \<Rightarrow> string list \<Rightarrow> string list \<Rightarrow> string list" where
  "clean_elems rooted acc [] = rev acc"
| "clean_elems rooted acc (x # xs) =
     (if x = [] \<or> x = ''.'' then clean_elems rooted acc xs
      else if x = ''..'' then
        (case acc of
           [] \<Rightarrow> if rooted then clean_elems rooted [] xs else clean_elems rooted [x] xs
         | y # ys \<Rightarrow> if y = ''..'' then clean_elems rooted (x # acc) xs else clean_elems rooted ys xs)
      else clean_elems rooted (x # acc) xs)"

definition path_clean :: "string \<Rightarrow> string" where
  "path_clean p =
     (let rooted = has_prefix p ''/''; es = clean_elems rooted [] (split_on slash p)
      in if rooted then slash # join ''/'' es else if es = [] then ''.'' else join ''/'' es)"

text \<open>\<open>filepath.Join(dir, name)\<close>; an empty element is left out.\<close>

definition path_join :: "string \<Rightarrow> string \<Rightarrow> string" where
  "path_join dir nm =
     (if dir = [] \<and> nm = [] then [] else if nm = [] then path_clean dir else if dir = [] then path_clean nm
      else path_clean (dir @ slash # nm))"

definition defaultLabImagesDir :: string where
  "defaultLabImagesDir = ''/etc/lab-images''"

text \<open>A file that does not exist means that the name is an image reference itself.\<close>

definition loadLabImageRef :: "(string \<Rightarrow> string) \<Rightarrow> (string \<Rightarrow> bool + bytes) \<Rightarrow> string \<Rightarrow> string option" where
  "loadLabImageRef env read nm =
     (let dir = (if env ''LAB_IMAGES_DIR'' = [] then defaultLabImagesDir else env ''LAB_IMAGES_DIR'')
      in case read (path_join dir nm) of
           Inl not_exist \<Rightarrow> if not_exist then Some nm else None
         | Inr data \<Rightarrow> Some (trim_space data))"

section \<open>Which file is read\<close>

definition plain_name :: "string \<Rightarrow> bool" where
  "plain_name x \<longleftrightarrow> x \<noteq> [] \<and> x \<noteq> ''.'' \<and> x \<noteq> ''..'' \<and> slash \<notin> set x"

lemma clean_plain: "list_all plain_name xs \<Longrightarrow> clean_elems r acc xs = rev acc @ xs"
  by (induction xs arbitrary: acc) (simp_all add: plain_name_def)

lemma split_slash_append: "split_on slash (a @ slash # b) = split_on slash a @ split_on slash b"
proof (induction a)
  case (Cons c a)
  then show ?case by (cases "split_on slash a") (auto simp: split_on_nonempty)
qed simp

lemma clean_elems_append:
  "clean_elems True acc (xs @ ys) = clean_elems True (rev (clean_elems True acc xs)) ys"
  by (induction "True" acc xs rule: clean_elems.induct) (auto split: list.splits)

lemma join_snoc: "xs \<noteq> [] \<Longrightarrow> join sep (xs @ [y]) = join sep xs @ sep @ y"
proof (induction xs)
  case (Cons x xs)
  then show ?case by (cases xs) simp_all
qed simp

text \<open>A plain name is looked up directly in the directory.\<close>

lemma path_join_plain:
  assumes "plain_name nm" "dir = path_clean dir" "has_prefix dir ''/''" "dir \<noteq> ''/''"
  shows "path_join dir nm = dir @ slash # nm"
proof -
  let ?es = "clean_elems True [] (split_on slash dir)"
  have root: "has_prefix (dir @ slash # nm) ''/''" using assms(3) by (cases dir) (auto simp: has_prefix_def)
  have dir: "dir = slash # join ''/'' ?es" using assms(2,3) by (simp add: path_clean_def)
  have ne: "?es \<noteq> []" using dir assms(4) by (auto simp: slash_def)
  have nm: "split_on slash nm = [nm]" using assms(1) by (intro split_on_single) (simp add: plain_name_def)
  have "clean_elems True [] (split_on slash (dir @ slash # nm)) = ?es @ [nm]"
    using assms(1) by (simp add: split_slash_append nm clean_elems_append plain_name_def)
  moreover have "join ''/'' (?es @ [nm]) = join ''/'' ?es @ slash # nm"
    using join_snoc[OF ne, of "''/''"] by (simp add: slash_def)
  moreover have "dir \<noteq> []" "nm \<noteq> []" using assms(1,3) by (auto simp: plain_name_def has_prefix_def)
  ultimately show ?thesis
    using root dir unfolding path_join_def path_clean_def by simp
qed

text \<open>A name with parent elements leads out of the directory.\<close>

lemma image_name_escapes:
  "path_join defaultLabImagesDir ''../../run/secrets/token'' = ''/run/secrets/token''"
  by code_simp

end
