(* ===== verification/RelayObjects.thy ===== *)
theory RelayObjects
  imports LabImages Json JsonText
begin

text \<open>
  \<open>services/labenv-operator/internal/controller/relay.go\<close> and \<open>grader.go\<close>: the settings of the two
  relays and the objects built for them, and the steps that put these objects into the cluster.
\<close>

datatype 'e op_error =
    Api "'e api_error"
  | MissingEnv string
  | NoReadyAddress
  | ResolveEndpoint "'e op_error"
  | LabImageError string
  | Panic

type_synonym ('s, 'e, 'a) op_call = "('s, 'e op_error, 'a) call"

definition lift_api :: "('s, 'e api_error, 'a) call \<Rightarrow> ('s, 'e, 'a) op_call" where
  "lift_api m s = (case m s of (Inl e, s1) \<Rightarrow> (Inl (Api e), s1) | (Inr x, s1) \<Rightarrow> (Inr x, s1))"

text \<open>\<open>client.IgnoreAlreadyExists(r.Create(ctx, &obj))\<close>\<close>

definition create_ignoring_exists :: "('s, 'e) api \<Rightarrow> kube_object \<Rightarrow> ('s, 'e, unit) op_call" where
  "create_ignoring_exists api obj s =
     (case create_object api obj s of
        (Inl e, s1) \<Rightarrow> ((if e = ErrAlreadyExists then Inr () else Inl (Api e)), s1)
      | (Inr u, s1) \<Rightarrow> (Inr (), s1))"

text \<open>
  The pattern of the \<open>ensure\<close> functions: nothing if the object is there, \<open>mk\<close> if it is not, and
  any other error is returned.
\<close>

definition ensure ::
  "('s, 'e) api \<Rightarrow> object_key \<Rightarrow> ('s, 'e, unit) op_call \<Rightarrow> ('s, 'e, unit) op_call" where
  "ensure api key mk s =
     (case get_object api key s of
        (Inr obj, s1) \<Rightarrow> (Inr (), s1)
      | (Inl e, s1) \<Rightarrow> if e = ErrNotFound then mk s1 else (Inl (Api e), s1))"

abbreviation ensure_object :: "('s, 'e) api \<Rightarrow> kube_object \<Rightarrow> ('s, 'e, unit) op_call" where
  "ensure_object api obj \<equiv> ensure api (key_of obj) (create_ignoring_exists api obj)"

section \<open>Settings\<close>

definition defaultIngressControllerNS :: string where
  "defaultIngressControllerNS = ''kube-system''"

record relay_config =
  image :: string
  ingressClass :: string
  ingressBasePath :: string
  ingressAnnotations :: labels
  ingressControllerNamespace :: string

text \<open>The loop over \<open>RELAY_INGRESS_ANNOTATIONS\<close>.\<close>

fun add_annotations :: "string list \<Rightarrow> labels \<Rightarrow> labels" where
  "add_annotations [] m = m"
| "add_annotations (tok # toks) m =
     (case cut CHR ''='' tok of
        None \<Rightarrow> add_annotations toks m
      | Some (k, v) \<Rightarrow>
          if trim_space k = [] then add_annotations toks m else add_annotations toks (m(trim_space k \<mapsto> v)))"

definition load_config ::
  "string \<Rightarrow> string \<Rightarrow> string \<Rightarrow> (string \<Rightarrow> string) \<Rightarrow> 'e op_error + relay_config" where
  "load_config image_var base_var default_base env =
     (if env image_var = [] then Inl (MissingEnv image_var)
      else
        (let base = (if env base_var = [] then default_base else env base_var);
             ns = (if env ''RELAY_INGRESS_CONTROLLER_NAMESPACE'' = [] then defaultIngressControllerNS
                   else env ''RELAY_INGRESS_CONTROLLER_NAMESPACE'');
             base_annotations = [''traefik.ingress.kubernetes.io/router.middlewares'' \<mapsto>
                   ns @ ''-relay-auth-middleware@kubernetescrd''];
             raw = env ''RELAY_INGRESS_ANNOTATIONS''
         in Inr \<lparr>image = env image_var, ingressClass = env ''RELAY_INGRESS_CLASS'', ingressBasePath = base,
                ingressAnnotations = (if raw = [] then base_annotations
                  else add_annotations (split_on CHR '','' raw) base_annotations),
                ingressControllerNamespace = ns\<rparr>))"

definition loadRelayConfig :: "(string \<Rightarrow> string) \<Rightarrow> 'e op_error + relay_config" where
  "loadRelayConfig = load_config ''RELAY_EXEC_IMAGE'' ''RELAY_EXEC_INGRESS_BASE_PATH'' ''/relay/exec''"

definition loadGraderConfig :: "(string \<Rightarrow> string) \<Rightarrow> 'e op_error + relay_config" where
  "loadGraderConfig = load_config ''RELAY_GRADER_IMAGE'' ''RELAY_GRADER_INGRESS_BASE_PATH'' ''/relay/grade''"

section \<open>relay-exec\<close>

definition relay_service_account :: "string \<Rightarrow> kube_object" where
  "relay_service_account ns = ServiceAccount (named ns ''relay'')"

definition relay_role :: "string \<Rightarrow> kube_object" where
  "relay_role ns = Role (named ns ''relay'')
     [\<lparr>APIGroups = [[]], Resources = [''pods''], Verbs = [''get'', ''list'']\<rparr>,
      \<lparr>APIGroups = [[]], Resources = [''pods/exec''], Verbs = [''create'']\<rparr>]"

definition relay_role_binding :: "string \<Rightarrow> kube_object" where
  "relay_role_binding ns = RoleBinding (named ns ''relay'')
     [(''ServiceAccount'', ''relay'', ns)] (''rbac.authorization.k8s.io'', ''Role'', ''relay'')"

definition relay_exec_env :: "labenv \<Rightarrow> string \<Rightarrow> (string \<times> string) list" where
  "relay_exec_env env ns =
     [(''RELAY_MY_NAMESPACE'', ns), (''RELAY_MY_ATTEMPT_ID'', EnvName env),
      (''RELAY_MY_OWNER_ID'', OwnerId (Spec env)), (''RELAY_GRADER_ADDR'', ''relay-grader:8081'')]"

text \<open>What the two containers have in common.\<close>

definition relay_container :: "string \<Rightarrow> string \<Rightarrow> (string \<times> string) list \<Rightarrow> container" where
  "relay_container nm img envs = zero_container
     \<lparr>ContainerName := nm, ContainerImage := img, PullPolicy := ''IfNotPresent'', Env := envs,
      AllowPrivilegeEscalation := Some False, ReadOnlyRootFilesystem := Some True,
      DropCapabilities := [''ALL''], ReadinessGet := Some (''/healthz'', 8080),
      Requests := [(''cpu'', ''20m''), (''memory'', ''64Mi'')],
      Limits := [(''cpu'', ''50m''), (''memory'', ''96Mi'')]\<rparr>"

definition relay_pod :: "container \<Rightarrow> pod_spec" where
  "relay_pod c = zero_pod_spec
     \<lparr>RunAsNonRoot := Some True, RunAsUser := Some 10001, Seccomp := Some ''RuntimeDefault'', Containers := [c]\<rparr>"

definition relay_deployment_of :: "string \<Rightarrow> string \<Rightarrow> pod_spec \<Rightarrow> kube_object" where
  "relay_deployment_of ns app spec = Deployment ((named ns app)\<lparr>MetaLabels := [''app'' \<mapsto> app]\<rparr>)
     \<lparr>Replicas = 1, DeploymentSelector = [''app'' \<mapsto> app], TemplateLabels = [''app'' \<mapsto> app], TemplateSpec = spec\<rparr>"

definition relay_deployment :: "labenv \<Rightarrow> string \<Rightarrow> relay_config \<Rightarrow> kube_object" where
  "relay_deployment env ns cfg = relay_deployment_of ns ''relay-exec''
     ((relay_pod (relay_container ''relay-exec'' (image cfg) (relay_exec_env env ns)))
        \<lparr>ServiceAccountName := ''relay''\<rparr>)"

definition relay_service :: "string \<Rightarrow> kube_object" where
  "relay_service ns = Service (named ns ''relay'')
     \<lparr>ClusterIP = [], ServiceSelector = [''app'' \<mapsto> ''relay-exec''], ServicePorts = [([], 8080, 8080)]\<rparr>"

definition ingress_of :: "string \<Rightarrow> string \<Rightarrow> labenv \<Rightarrow> relay_config \<Rightarrow> kube_object" where
  "ingress_of ns nm env cfg = Ingress
     ((named ns nm)\<lparr>MetaAnnotations := ingressAnnotations cfg\<rparr>)
     \<lparr>IngressClassName = (if ingressClass cfg \<noteq> [] then Some (ingressClass cfg) else None),
      IngressPath = ingressBasePath cfg @ ''/'' @ EnvName env, IngressPathType = ''Prefix'',
      IngressService = nm, IngressServicePort = 8080, IngressTLS = 1\<rparr>"

definition relay_ingress :: "labenv \<Rightarrow> string \<Rightarrow> relay_config \<Rightarrow> kube_object" where
  "relay_ingress env ns cfg = ingress_of ns ''relay'' env cfg"

text \<open>The first ready address and port of the \<open>kubernetes\<close> EndpointSlices.\<close>

fun first_port :: "int option list \<Rightarrow> int option" where
  "first_port [] = None"
| "first_port (None # ps) = first_port ps"
| "first_port (Some p # ps) = Some p"

fun first_address :: "string list \<Rightarrow> int option list \<Rightarrow> (string \<times> int) option" where
  "first_address [] ports = None"
| "first_address (a # as) ports =
     (case first_port ports of Some p \<Rightarrow> Some (a, p) | None \<Rightarrow> first_address as ports)"

fun first_endpoint :: "endpoint list \<Rightarrow> int option list \<Rightarrow> (string \<times> int) option" where
  "first_endpoint [] ports = None"
| "first_endpoint (ep # eps) ports =
     (if EndpointReady ep = Some False then first_endpoint eps ports
      else (case first_address (Addresses ep) ports of
          Some x \<Rightarrow> Some x | None \<Rightarrow> first_endpoint eps ports))"

fun first_slice :: "endpoint_slice list \<Rightarrow> (string \<times> int) option" where
  "first_slice [] = None"
| "first_slice (sl # sls) =
     (case first_endpoint (Endpoints sl) (SlicePorts sl) of Some x \<Rightarrow> Some x | None \<Rightarrow> first_slice sls)"

definition apiServerEndpoint :: "('s, 'e) api \<Rightarrow> ('s, 'e, string \<times> int) op_call" where
  "apiServerEndpoint api = call_bind (lift_api (list_slices api)) (\<lambda>sls.
     case first_slice sls of None \<Rightarrow> call_fail NoReadyAddress | Some x \<Rightarrow> call_return x)"

definition namespace_label :: "string \<Rightarrow> selector" where
  "namespace_label ns = with_label ''kubernetes.io/metadata.name'' ns"

definition not_relay_exec :: selector where
  "not_relay_exec = \<lparr>MatchLabels = Map.empty, NotIn = [(''app'', [''relay-exec''])]\<rparr>"

definition relay_network_policy :: "string \<Rightarrow> relay_config \<Rightarrow> string \<times> int \<Rightarrow> kube_object" where
  "relay_network_policy ns cfg endpoint = NetworkPolicy (named ns ''networkpolicy-relay-exec'')
     \<lparr>PodSelector = with_label ''app'' ''relay-exec'', PolicyTypes = [''Ingress'', ''Egress''],
      IngressRules =
        [\<lparr>Peers = [Pods (Some (namespace_label (ingressControllerNamespace cfg))) None], Ports = [(''TCP'', 8080)]\<rparr>],
      EgressRules =
        [\<lparr>Peers = [Pods (Some (namespace_label ns)) (Some not_relay_exec)], Ports = []\<rparr>,
         \<lparr>Peers = [IPBlock (fst endpoint @ ''/32'')], Ports = [(''TCP'', snd endpoint)]\<rparr>,
         \<lparr>Peers = [Pods None (Some (with_label ''app'' ''relay-grader''))], Ports = [(''TCP'', 8081)]\<rparr>]\<rparr>"

definition ensureRelayNetworkPolicy :: "('s, 'e) api \<Rightarrow> string \<Rightarrow> relay_config \<Rightarrow> ('s, 'e, unit) op_call" where
  "ensureRelayNetworkPolicy api ns cfg s =
     (case apiServerEndpoint api s of
        (Inl e, s1) \<Rightarrow> (Inl (ResolveEndpoint e), s1)
      | (Inr endpoint, s1) \<Rightarrow> lift_api (create_or_update api (relay_network_policy ns cfg endpoint)) s1)"

definition relay_objects :: "labenv \<Rightarrow> string \<Rightarrow> relay_config \<Rightarrow> kube_object list" where
  "relay_objects env ns cfg =
     [relay_service_account ns, relay_role ns, relay_role_binding ns, relay_deployment env ns cfg,
      relay_service ns, relay_ingress env ns cfg]"

text \<open>One \<open>ensure\<close> after the other, until one fails.\<close>

fun ensure_all :: "('s, 'e) api \<Rightarrow> kube_object list \<Rightarrow> ('s, 'e, unit) op_call" where
  "ensure_all api [] = call_return ()"
| "ensure_all api (obj # objs) = call_then (ensure_object api obj) (ensure_all api objs)"

definition ensureRelay :: "('s, 'e) api \<Rightarrow> labenv \<Rightarrow> string \<Rightarrow> ('s, 'e, unit) op_call" where
  "ensureRelay api env ns =
     (case loadRelayConfig (getenv api) of
        Inl e \<Rightarrow> call_fail e
      | Inr cfg \<Rightarrow> call_then (ensure_all api (relay_objects env ns cfg)) (ensureRelayNetworkPolicy api ns cfg))"

section \<open>relay-grader\<close>

text \<open>\<open>json.Marshal\<close> of the tasks; an empty \<open>asset\<close> is left out.\<close>

definition task_json :: "lab_exercise \<Rightarrow> json" where
  "task_json x = JObj
     ([(''id'', JStr (XID x)), (''type'', JStr (XType x)), (''template'', JStr (XTemplate x))] @
      (if XAsset x = [] then [] else [(''asset'', JStr (XAsset x))]))"

definition tasks_json :: "lab_exercise list \<Rightarrow> string" where
  "tasks_json xs = print_json (JArr (map task_json xs))"

definition grader_tasks :: "labenv \<Rightarrow> string \<Rightarrow> kube_object" where
  "grader_tasks env ns = ConfigMap (named ns ''grader-tasks'') [''tasks.json'' \<mapsto> tasks_json (SpecExercises (Spec env))]"

definition grader_env :: "labenv \<Rightarrow> string \<Rightarrow> (string \<times> string) list" where
  "grader_env env ns =
     [(''RELAY_MY_NAMESPACE'', ns), (''RELAY_MY_ATTEMPT_ID'', EnvName env),
      (''RELAY_MY_OWNER_ID'', OwnerId (Spec env)), (''RELAY_TASKS_FILE'', ''/etc/grader/tasks.json''),
      (''RELAY_GRADER_INTERNAL_PORT'', ''8081'')]"

definition grader_deployment :: "labenv \<Rightarrow> string \<Rightarrow> relay_config \<Rightarrow> kube_object" where
  "grader_deployment env ns cfg = relay_deployment_of ns ''relay-grader''
     ((relay_pod ((relay_container ''relay-grader'' (image cfg) (grader_env env ns))
        \<lparr>ContainerPorts := [8081], VolumeMounts := [(''grader-tasks'', ''/etc/grader'', True)]\<rparr>))
        \<lparr>Volumes := [(''grader-tasks'', ''grader-tasks'')]\<rparr>)"

definition grader_service :: "string \<Rightarrow> kube_object" where
  "grader_service ns = Service (named ns ''relay-grader'')
     \<lparr>ClusterIP = [], ServiceSelector = [''app'' \<mapsto> ''relay-grader''],
      ServicePorts = [(''http'', 8080, 8080), (''internal'', 8081, 8081)]\<rparr>"

definition grader_ingress :: "labenv \<Rightarrow> string \<Rightarrow> relay_config \<Rightarrow> kube_object" where
  "grader_ingress env ns cfg = ingress_of ns ''relay-grader'' env cfg"

definition grader_network_policy :: "string \<Rightarrow> relay_config \<Rightarrow> kube_object" where
  "grader_network_policy ns cfg = NetworkPolicy (named ns ''networkpolicy-relay-grader'')
     \<lparr>PodSelector = with_label ''app'' ''relay-grader'', PolicyTypes = [''Ingress'', ''Egress''],
      IngressRules =
        [\<lparr>Peers = [Pods (Some (namespace_label (ingressControllerNamespace cfg))) None], Ports = [(''TCP'', 8080)]\<rparr>,
         \<lparr>Peers = [Pods None (Some (with_label ''app'' ''relay-exec''))], Ports = [(''TCP'', 8081)]\<rparr>],
      EgressRules = []\<rparr>"

definition grader_objects :: "labenv \<Rightarrow> string \<Rightarrow> relay_config \<Rightarrow> kube_object list" where
  "grader_objects env ns cfg =
     [grader_tasks env ns, grader_deployment env ns cfg, grader_service ns, grader_ingress env ns cfg,
      grader_network_policy ns cfg]"

definition ensureRelayGrader :: "('s, 'e) api \<Rightarrow> labenv \<Rightarrow> string \<Rightarrow> ('s, 'e, unit) op_call" where
  "ensureRelayGrader api env ns =
     (case loadGraderConfig (getenv api) of
        Inl e \<Rightarrow> call_fail e
      | Inr cfg \<Rightarrow> ensure_all api (grader_objects env ns cfg))"

end
