(* ===== verification/Operator.thy ===== *)
theory Operator
  imports RelayObjects "HOL-Library.Word"
begin

text \<open>
  \<open>services/labenv-operator/internal/controller/labenvironment_controller.go\<close>: one reconciliation of a
  LabEnvironment. Times and durations are nanoseconds; a \<open>time.Duration\<close> has 64 bits.
\<close>

definition finalizerName :: string where
  "finalizerName = ''labenv.rootenv.io/cleanup''"

definition phaseTerminating :: string where
  "phaseTerminating = ''Terminating''"

definition namespace_of :: "string \<Rightarrow> string" where
  "namespace_of nm = ''rootenv-lab-'' @ nm"

record reconcile_result =
  Requeue :: bool
  RequeueAfter :: int

definition no_requeue :: reconcile_result where
  "no_requeue = \<lparr>Requeue = False, RequeueAfter = 0\<rparr>"

definition second :: int where "second = 10 ^ 9"
definition minute :: int where "minute = 60 * second"

text \<open>\<open>client.IgnoreNotFound\<close>\<close>

definition ignore_not_found :: "('s, 'e api_error, 'a) call \<Rightarrow> 'a \<Rightarrow> ('s, 'e, 'a) op_call" where
  "ignore_not_found m x s =
     (case m s of
        (Inl e, s1) \<Rightarrow> ((if e = ErrNotFound then Inr x else Inl (Api e)), s1)
      | (Inr y, s1) \<Rightarrow> (Inr y, s1))"

section \<open>The objects of a lab\<close>

definition env_labels :: "labenv \<Rightarrow> labels" where
  "env_labels env =
     [''rootenv.io/attempt'' \<mapsto> EnvName env, ''rootenv.io/owner-id'' \<mapsto> OwnerId (Spec env),
      ''rootenv.io/lab-id'' \<mapsto> LabId (Spec env), ''rootenv.io/managed-by'' \<mapsto> ''labenv-operator'']"

definition owner_annotation :: "labenv \<Rightarrow> labels" where
  "owner_annotation env = [''rootenv.io/owner-name'' \<mapsto> OwnerName (Spec env)]"

definition lab_namespace :: "labenv \<Rightarrow> string \<Rightarrow> kube_object" where
  "lab_namespace env ns = Namespace
     ((named [] ns)\<lparr>MetaLabels := env_labels env, MetaAnnotations := owner_annotation env\<rparr>)"

definition kube_dns :: peer where
  "kube_dns = Pods (Some (namespace_label ''kube-system'')) (Some (with_label ''k8s-app'' ''kube-dns''))"

definition denyall_policy :: "string \<Rightarrow> kube_object" where
  "denyall_policy ns = NetworkPolicy (named ns ''networkpolicy-denyall'')
     \<lparr>PodSelector = any_pod, PolicyTypes = [''Ingress'', ''Egress''],
      IngressRules =
        [\<lparr>Peers = [Pods (Some (namespace_label ns)) None], Ports = []\<rparr>,
         \<lparr>Peers = [Pods (Some (namespace_label defaultIngressControllerNS)) None], Ports = [(''TCP'', 8080)]\<rparr>],
      EgressRules =
        [\<lparr>Peers = [Pods (Some (namespace_label ns)) (Some not_relay_exec)], Ports = []\<rparr>,
         \<lparr>Peers = [kube_dns], Ports = [(''UDP'', 53), (''TCP'', 53)]\<rparr>]\<rparr>"

definition resource_quota :: "string \<Rightarrow> kube_object" where
  "resource_quota ns = ResourceQuota (named ns ''resource-quota'')
     [(''limits.cpu'', ''2''), (''limits.memory'', ''4Gi''), (''requests.storage'', ''5Gi''), (''pods'', ''6'')]"

definition limit_range :: "string \<Rightarrow> kube_object" where
  "limit_range ns = LimitRange (named ns ''limit-range'')
     [\<lparr>LimitType = ''Container'',
       Default = [(''cpu'', ''100m''), (''memory'', ''128Mi'')],
       DefaultRequest = [(''cpu'', ''100m''), (''memory'', ''128Mi'')],
       MaxLimit = [(''cpu'', ''1000m''), (''memory'', ''1Gi'')]\<rparr>]"

definition lab_pod_spec :: "lab_asset \<Rightarrow> string \<Rightarrow> pod_spec" where
  "lab_pod_spec a img = zero_pod_spec
     \<lparr>RestartPolicy := ''Never'', HostUsers := Some False, HostNetwork := False, HostPID := False,
      HostIPC := False, AutomountToken := Some False, Seccomp := Some ''RuntimeDefault'',
      Containers := [zero_container
        \<lparr>ContainerName := ''main'', ContainerImage := img, PullPolicy := ''IfNotPresent'',
         Command := [''sleep'', ''infinity''],
         Limits := [(''cpu'', ACPU a), (''memory'', AMemory a), (''ephemeral-storage'', ADisk a)]\<rparr>]\<rparr>"

definition lab_pod :: "labenv \<Rightarrow> string \<Rightarrow> lab_asset \<Rightarrow> string \<Rightarrow> kube_object" where
  "lab_pod env ns a img = Pod
     ((named ns (AName a))
        \<lparr>MetaLabels := (env_labels env)(''rootenv.io/asset'' \<mapsto> AName a), MetaAnnotations := owner_annotation env\<rparr>)
     (lab_pod_spec a img) zero_pod_status"

definition headless_service :: "labenv \<Rightarrow> string \<Rightarrow> string \<Rightarrow> kube_object" where
  "headless_service env ns nm = Service
     ((named ns nm)\<lparr>MetaLabels := env_labels env, MetaAnnotations := owner_annotation env\<rparr>)
     \<lparr>ClusterIP = ''None'', ServiceSelector = [''rootenv.io/asset'' \<mapsto> nm], ServicePorts = []\<rparr>"

definition ensureFinalizer :: "('s, 'e) api \<Rightarrow> labenv \<Rightarrow> ('s, 'e, labenv) op_call" where
  "ensureFinalizer api env =
     (if finalizerName \<in> set (Finalizers env) then call_return env
      else lift_api (update_env api (env\<lparr>Finalizers := Finalizers env @ [finalizerName]\<rparr>)))"

definition ensureNamespace :: "('s, 'e) api \<Rightarrow> labenv \<Rightarrow> string \<Rightarrow> ('s, 'e, unit) op_call" where
  "ensureNamespace api env ns = ensure_object api (lab_namespace env ns)"

definition ensureNetworkPolicy :: "('s, 'e) api \<Rightarrow> string \<Rightarrow> ('s, 'e, unit) op_call" where
  "ensureNetworkPolicy api ns = lift_api (create_or_update api (denyall_policy ns))"

text \<open>\<open>resource.MustParse\<close> panics on the first of CPU, memory and disk it cannot read.\<close>

definition ensurePod :: "('s, 'e) api \<Rightarrow> labenv \<Rightarrow> string \<Rightarrow> lab_asset \<Rightarrow> ('s, 'e, unit) op_call" where
  "ensurePod api env ns a = ensure api (KPod, ns, AName a)
     (case loadLabImageRef (getenv api) (read_file api) (AImage a) of
        None \<Rightarrow> call_fail (LabImageError (AImage a))
      | Some img \<Rightarrow>
          if quantity_ok api (ACPU a) \<and> quantity_ok api (AMemory a) \<and> quantity_ok api (ADisk a)
          then lift_api (create_object api (lab_pod env ns a img)) else call_fail Panic)"

definition ensureHeadlessService :: "('s, 'e) api \<Rightarrow> labenv \<Rightarrow> string \<Rightarrow> string \<Rightarrow> ('s, 'e, unit) op_call" where
  "ensureHeadlessService api env ns nm = create_ignoring_exists api (headless_service env ns nm)"

section \<open>The status of a lab\<close>

fun containerReason :: "container_state list \<Rightarrow> string" where
  "containerReason [] = []"
| "containerReason (Waiting reason # css) = reason"
| "containerReason (Terminated reason # css) = reason"
| "containerReason (OtherState # css) = containerReason css"

definition isPodReady :: "pod_status \<Rightarrow> bool" where
  "isPodReady st = (case find (\<lambda>c. fst c = ''Ready'') (PodConditions st) of
     Some c \<Rightarrow> snd c = ''True'' | None \<Rightarrow> False)"

definition asset_status_of :: "string \<Rightarrow> lab_asset \<Rightarrow> kube_object option \<Rightarrow> asset_status" where
  "asset_status_of ns a obj =
     (let (phase, reason, st) =
        (case obj of
           Some (Pod m sp st) \<Rightarrow> ((if MetaDeleting m then phaseTerminating else PodPhase st), containerReason (ContainerStatuses st), st)
         | _ \<Rightarrow> (''Pending'', [], zero_pod_status))
      in \<lparr>StName = AName a, StPhase = phase, StReason = reason, StReady = isPodReady st,
          StAddress = AName a @ ''.'' @ ns @ ''.svc.cluster.local'', StProtocols = AProtocols a\<rparr>)"

definition reconcile_asset :: "('s, 'e) api \<Rightarrow> labenv \<Rightarrow> string \<Rightarrow> lab_asset \<Rightarrow> ('s, 'e, asset_status) op_call" where
  "reconcile_asset api env ns a =
     call_then (ensurePod api env ns a)
       (call_then (ensureHeadlessService api env ns (AName a))
         (\<lambda>s. case get_object api (KPod, ns, AName a) s of
            (Inl e, s1) \<Rightarrow> (Inr (asset_status_of ns a None), s1)
          | (Inr obj, s1) \<Rightarrow> (Inr (asset_status_of ns a (Some obj)), s1)))"

fun reconcile_assets :: "('s, 'e) api \<Rightarrow> labenv \<Rightarrow> string \<Rightarrow> lab_asset list \<Rightarrow> ('s, 'e, asset_status list) op_call" where
  "reconcile_assets api env ns [] = call_return []"
| "reconcile_assets api env ns (a # as) =
     call_bind (reconcile_asset api env ns a) (\<lambda>st.
       call_bind (reconcile_assets api env ns as) (\<lambda>sts. call_return (st # sts)))"

definition not_ready_messages :: "asset_status list \<Rightarrow> string list" where
  "not_ready_messages sts = map (\<lambda>st. StName st @ '' - '' @ StReason st) (filter (\<lambda>st. \<not> StReady st) sts)"

definition overall_phase :: "nat \<Rightarrow> nat \<Rightarrow> string" where
  "overall_phase ready assets =
     (if ready = assets then ''Ready'' else if ready = 0 then ''Pending'' else ''Degraded'')"

definition ready_condition :: "nat \<Rightarrow> nat \<Rightarrow> string list \<Rightarrow> lab_condition" where
  "ready_condition ready assets msgs =
     (if ready = assets
      then \<lparr>CondType = ''Ready'', CondStatus = True, CondReason = ''AllAssetsReady'', CondMessage = ''all assets are ready''\<rparr>
      else \<lparr>CondType = ''Ready'', CondStatus = False, CondReason = ''AssetsNotReady'',
            CondMessage = nat_str ready @ ''/'' @ nat_str assets @ '' assets ready; waiting for: '' @ join '', '' msgs\<rparr>)"

definition status_of_assets ::
  "(lab_condition list \<Rightarrow> lab_condition \<Rightarrow> lab_condition list) \<Rightarrow> lab_spec \<Rightarrow> lab_status \<Rightarrow> asset_status list \<Rightarrow> lab_status" where
  "status_of_assets set_cond spec st sts =
     (let assets = length (SpecAssets spec); ready = length (filter StReady sts)
      in st\<lparr>StatusAssets := sts, TotalAssets := assets, ReadyAssets := ready,
            Ready := nat_str ready @ ''/'' @ nat_str assets, Phase := overall_phase ready assets,
            Conditions := set_cond (Conditions st) (ready_condition ready assets (not_ready_messages sts))\<rparr>)"

section \<open>Reconciling\<close>

text \<open>\<open>time.Duration(ttl) * time.Minute\<close>\<close>

definition ttl_duration :: "int \<Rightarrow> int" where
  "ttl_duration ttl = sint (word_of_int (ttl * minute) :: 64 word)"

definition start_status :: "labenv \<Rightarrow> string \<Rightarrow> labenv" where
  "start_status env ns = env\<lparr>Status := (Status env)
     \<lparr>StatusNamespace := (if StatusNamespace (Status env) = [] then ns else StatusNamespace (Status env)),
      LabExpiresAt := (case LabExpiresAt (Status env) of
         None \<Rightarrow> Some (CreationTimestamp env + ttl_duration (TTL (Spec env))) | Some t \<Rightarrow> Some t)\<rparr>\<rparr>"

definition ensure_lab :: "('s, 'e) api \<Rightarrow> labenv \<Rightarrow> string \<Rightarrow> ('s, 'e, unit) op_call" where
  "ensure_lab api env ns =
     call_then (ensureNetworkPolicy api ns)
       (call_then (ensure_object api (resource_quota ns))
         (call_then (ensure_object api (limit_range ns))
           (call_then (ensureRelay api env ns) (ensureRelayGrader api env ns))))"

definition finish_status :: "('s, 'e) api \<Rightarrow> labenv \<Rightarrow> ('s, 'e, reconcile_result) op_call" where
  "finish_status api env s =
     (case update_status api env s of
        (Inl e, s1) \<Rightarrow>
          ((if e = ErrConflict then Inr \<lparr>Requeue = True, RequeueAfter = 0\<rparr> else Inl (Api e)), s1)
      | (Inr env1, s1) \<Rightarrow>
          (case LabExpiresAt (Status env1) of
             None \<Rightarrow> (Inl Panic, s1)
           | Some expires \<Rightarrow>
               (let remaining = expires - clock api s1
                in (Inr \<lparr>Requeue = False, RequeueAfter = (if remaining < 0 then second else remaining)\<rparr>, s1))))"

definition provision :: "('s, 'e) api \<Rightarrow> labenv \<Rightarrow> string \<Rightarrow> ('s, 'e, reconcile_result) op_call" where
  "provision api env ns =
     call_then (ensure_lab api env ns)
       (call_bind (reconcile_assets api env ns (SpecAssets (Spec env))) (\<lambda>sts.
          finish_status api
            (env\<lparr>Status := status_of_assets (set_condition api) (Spec env) (Status env) sts\<rparr>)))"

definition expired :: "labenv \<Rightarrow> int \<Rightarrow> bool" where
  "expired env now = (case LabExpiresAt (Status env) of Some t \<Rightarrow> t < now | None \<Rightarrow> False)"

definition reconcileCreate :: "('s, 'e) api \<Rightarrow> labenv \<Rightarrow> string \<Rightarrow> ('s, 'e, reconcile_result) op_call" where
  "reconcileCreate api env0 ns =
     call_bind (ensureFinalizer api env0) (\<lambda>env1.
       call_then (ensureNamespace api env1 ns) (\<lambda>s.
         let env = start_status env1 ns
         in if expired env (clock api s)
            then call_then (ignore_not_found (delete_env api env) ()) (call_return no_requeue) s
            else provision api env ns s))"

definition deletion_pause :: reconcile_result where
  "deletion_pause = \<lparr>Requeue = False, RequeueAfter = 5 * second\<rparr>"

text \<open>Marking the phase; a failure is only logged.\<close>

definition mark_terminating :: "('s, 'e) api \<Rightarrow> labenv \<Rightarrow> ('s, 'e, reconcile_result) op_call" where
  "mark_terminating api env s =
     (Inr deletion_pause,
      if Phase (Status env) \<noteq> phaseTerminating
      then snd (update_status api (env\<lparr>Status := (Status env)\<lparr>Phase := phaseTerminating\<rparr>\<rparr>) s) else s)"

definition reconcileDelete :: "('s, 'e) api \<Rightarrow> labenv \<Rightarrow> string \<Rightarrow> ('s, 'e, reconcile_result) op_call" where
  "reconcileDelete api env ns s =
     (if finalizerName \<notin> set (Finalizers env) then (Inr no_requeue, s)
      else (case get_object api (KNamespace, [], ns) s of
          (Inl e, s1) \<Rightarrow>
            if e = ErrNotFound
            then call_then (lift_api (update_env api (env\<lparr>Finalizers := removeAll finalizerName (Finalizers env)\<rparr>)))
                   (call_return no_requeue) s1
            else (Inl (Api e), s1)
        | (Inr obj, s1) \<Rightarrow>
            call_then
              (if MetaDeleting (object_meta_of obj) then call_return ()
               else lift_api (delete_object api (KNamespace, [], ns)))
              (mark_terminating api env) s1))"

definition Reconcile :: "('s, 'e) api \<Rightarrow> string \<Rightarrow> ('s, 'e, reconcile_result) op_call" where
  "Reconcile api nm s =
     (case get_env api nm s of
        (Inl e, s1) \<Rightarrow> ((if e = ErrNotFound then Inr no_requeue else Inl (Api e)), s1)
      | (Inr env, s1) \<Rightarrow>
          if Deleting env then reconcileDelete api env (namespace_of (EnvName env)) s1
          else reconcileCreate api env (namespace_of (EnvName env)) s1)"

section \<open>Which pods wake it\<close>

definition pod_watched :: "object_meta \<Rightarrow> bool" where
  "pod_watched m \<longleftrightarrow> MetaLabels m ''rootenv.io/managed-by'' = Some ''labenv-operator''"

definition podToLabEnv :: "object_meta \<Rightarrow> string list" where
  "podToLabEnv m =
     (case MetaLabels m ''rootenv.io/attempt'' of None \<Rightarrow> [] | Some nm \<Rightarrow> if nm = [] then [] else [nm])"

text \<open>The setup script of an asset has no part in what is created for it.\<close>

lemma setup_ignored: "reconcile_asset api env ns (a\<lparr>ASetup := script\<rparr>) = reconcile_asset api env ns a"
proof -
  have pod: "lab_pod env ns (a\<lparr>ASetup := script\<rparr>) = lab_pod env ns a"
    by (simp add: fun_eq_iff lab_pod_def lab_pod_spec_def)
  have status: "asset_status_of ns (a\<lparr>ASetup := script\<rparr>) = asset_status_of ns a"
    by (simp add: fun_eq_iff asset_status_of_def)
  show ?thesis unfolding reconcile_asset_def ensurePod_def pod status
    by (simp cong: option.case_cong if_cong)
qed

text \<open>A missing quantity is not defaulted: the pod's creation panics.\<close>

lemma empty_cpu_panics:
  assumes "\<not> quantity_ok api []" "ACPU a = []" "get_object api (KPod, ns, AName a) s = (Inl ErrNotFound, s1)"
    "loadLabImageRef (getenv api) (read_file api) (AImage a) = Some img"
  shows "ensurePod api env ns a s = (Inl Panic, s1)"
  using assms by (simp add: ensurePod_def ensure_def call_fail_def)

end
