(* ===== verification/OperatorSpec.thy ===== *)
theory OperatorSpec
  imports Operator
begin

text \<open>
  What a reconciliation guarantees, over every API server with the documented laws: it stays in the
  lab's namespace, it never changes an object that is there except the two policies it owns, a
  successful one leaves everything the lab needs, the status it writes is well formed, the finalizer
  stays until the namespace is gone, and the time to live is kept.
\<close>

named_theorems grow_intros "calls that only add objects of one namespace"
named_theorems build_intros "calls that leave objects in place when they succeed"

section \<open>Only additions, only in one namespace\<close>

definition inside :: "string \<Rightarrow> object_key \<Rightarrow> bool" where
  "inside ns k \<longleftrightarrow> fst (snd k) = ns \<or> k = (KNamespace, [], ns)"

abbreviation denyall_key :: "string \<Rightarrow> object_key" where
  "denyall_key ns \<equiv> (KNetworkPolicy, ns, ''networkpolicy-denyall'')"

abbreviation relay_policy_key :: "string \<Rightarrow> object_key" where
  "relay_policy_key ns \<equiv> (KNetworkPolicy, ns, ''networkpolicy-relay-exec'')"

text \<open>From \<open>m\<close> to \<open>m1\<close> objects were only added, in the namespace; those of \<open>P\<close> may be replaced.\<close>

definition grown :: "object_key set \<Rightarrow> string \<Rightarrow> (object_key \<rightharpoonup> kube_object) \<Rightarrow> (object_key \<rightharpoonup> kube_object) \<Rightarrow> bool" where
  "grown P ns m m1 \<longleftrightarrow> (\<forall>k. m1 k = m k \<or> inside ns k \<and> m1 k \<noteq> None \<and> (m k = None \<or> k \<in> P))"

definition grows :: "('s \<Rightarrow> object_key \<rightharpoonup> kube_object) \<Rightarrow> object_key set \<Rightarrow> string \<Rightarrow> ('s, 'err, 'a) call \<Rightarrow> bool" where
  "grows objs P ns m \<longleftrightarrow> (\<forall>s. grown P ns (objs s) (objs (snd (m s))))"

lemma grown_refl [simp]: "grown P ns m m"
  by (simp add: grown_def)

lemma grown_trans: "grown P ns m m1 \<Longrightarrow> grown P ns m1 m2 \<Longrightarrow> grown P ns m m2"
  unfolding grown_def by metis

lemma grows_return [grow_intros]: "grows objs P ns (call_return x)"
  by (simp add: grows_def call_return_def)

lemma grows_fail [grow_intros]: "grows objs P ns (call_fail e)"
  by (simp add: grows_def call_fail_def)

lemma grows_bind [grow_intros]:
  assumes "grows objs P ns m" "\<And>x. grows objs P ns (k x)"
  shows "grows objs P ns (call_bind m k)"
  unfolding grows_def
proof
  fix s
  obtain r s1 where m: "m s = (r, s1)" by (cases "m s")
  have "grown P ns (objs s) (objs s1)" using assms(1) m unfolding grows_def by (metis snd_conv)
  moreover have "grown P ns (objs s1) (objs (snd (k x s1)))" for x using assms(2) unfolding grows_def by blast
  ultimately show "grown P ns (objs s) (objs (snd (call_bind m k s)))"
    using m by (auto simp: call_bind_def split: sum.splits intro: grown_trans)
qed

lemma snd_lift_api [simp]: "snd (lift_api m s) = snd (m s)"
  by (simp add: lift_api_def split: prod.splits sum.splits)

lemma fst_lift_api: "fst (lift_api m s) = (case fst (m s) of Inl e \<Rightarrow> Inl (Api e) | Inr x \<Rightarrow> Inr x)"
  by (simp add: lift_api_def split: prod.splits sum.splits)

lemma env_calls:
  assumes "api_laws objs api"
  shows "objs (snd (get_env api nm s)) = objs s" "objs (snd (update_env api env s)) = objs s"
    "objs (snd (update_status api env s)) = objs s" "objs (snd (delete_env api env s)) = objs s"
    "objs (snd (list_slices api s)) = objs s" "objs (snd (get_object api k s)) = objs s"
  using assms unfolding api_laws_def by blast+

lemma get_laws:
  assumes "api_laws objs api"
  shows "fst (get_object api k s) = Inr obj \<Longrightarrow> objs s k = Some obj"
    "fst (get_object api k s) = Inl ErrNotFound \<Longrightarrow> objs s k = None"
  using assms unfolding api_laws_def by blast+

lemma create_laws:
  assumes "api_laws objs api"
  shows "objs (snd (create_object api obj s)) =
      (if fst (create_object api obj s) = Inr () then (objs s)(key_of obj \<mapsto> obj) else objs s)"
    "fst (create_object api obj s) = Inr () \<Longrightarrow> objs s (key_of obj) = None"
    "fst (create_object api obj s) = Inl ErrAlreadyExists \<Longrightarrow> objs s (key_of obj) \<noteq> None"
    "objs (snd (create_or_update api obj s)) =
      (if fst (create_or_update api obj s) = Inr () then (objs s)(key_of obj \<mapsto> obj) else objs s)"
  using assms unfolding api_laws_def by blast+

lemma delete_laws:
  assumes "api_laws objs api" "k' \<noteq> k" "\<not> (fst k = KNamespace \<and> fst (snd k') = snd (snd k))"
  shows "objs (snd (delete_object api k s)) k' = objs s k'"
  using assms unfolding api_laws_def by blast

lemma grows_env_calls [grow_intros]:
  assumes "api_laws objs api"
  shows "grows objs P ns (lift_api (update_env api env))" "grows objs P ns (lift_api (list_slices api))"
    "grows objs P ns (update_status api env)" "grows objs P ns (lift_api (update_status api env))"
  using env_calls[OF assms] by (simp_all add: grows_def)

lemma grows_create:
  assumes "api_laws objs api" "inside ns (key_of obj)"
  shows "grows objs P ns (create_object api obj)"
  using create_laws(1,2)[OF assms(1), of obj] assms(2) by (auto simp: grows_def grown_def)

lemma grows_create_ignoring [grow_intros]:
  assumes "api_laws objs api" "inside ns (key_of obj)"
  shows "grows objs P ns (create_ignoring_exists api obj)"
proof -
  have "snd (create_ignoring_exists api obj s) = snd (create_object api obj s)" for s
    by (simp add: create_ignoring_exists_def split: prod.splits sum.splits)
  then show ?thesis using grows_create[OF assms] by (simp add: grows_def)
qed

lemma grows_lift_create [grow_intros]:
  "api_laws objs api \<Longrightarrow> inside ns (key_of obj) \<Longrightarrow> grows objs P ns (lift_api (create_object api obj))"
  using grows_create by (simp add: grows_def)

lemma grows_policy [grow_intros]:
  assumes "api_laws objs api" "key_of obj \<in> P" "inside ns (key_of obj)"
  shows "grows objs P ns (lift_api (create_or_update api obj))"
  using create_laws(4)[OF assms(1), of obj] assms(2,3) by (auto simp: grows_def grown_def)

lemma grows_ensure [grow_intros]:
  assumes "api_laws objs api" "grows objs P ns m"
  shows "grows objs P ns (ensure api k m)"
  unfolding grows_def
proof
  fix s
  obtain r s1 where g: "get_object api k s = (r, s1)" by (cases "get_object api k s")
  have "objs s1 = objs s" using env_calls(6)[OF assms(1), of k s] g by simp
  moreover have "grown P ns (objs s1) (objs (snd (m s1)))" using assms(2) unfolding grows_def by blast
  ultimately show "grown P ns (objs s) (objs (snd (ensure api k m s)))"
    using g by (simp add: ensure_def split: sum.split)
qed

lemma grows_ensure_all [grow_intros]:
  assumes "api_laws objs api" "\<And>obj. obj \<in> set xs \<Longrightarrow> inside ns (key_of obj)"
  shows "grows objs P ns (ensure_all api xs)"
  using assms(2) by (induction xs) (simp_all add: grow_intros assms(1))

lemmas object_defs = relay_service_account_def relay_role_def relay_role_binding_def relay_deployment_def
  relay_deployment_of_def relay_service_def relay_ingress_def ingress_of_def relay_network_policy_def
  grader_tasks_def grader_deployment_def grader_service_def grader_ingress_def grader_network_policy_def
  lab_namespace_def denyall_policy_def resource_quota_def limit_range_def lab_pod_def headless_service_def
  named_def key_of_def

lemma grows_endpoint [grow_intros]: "api_laws objs api \<Longrightarrow> grows objs P ns (apiServerEndpoint api)"
  unfolding apiServerEndpoint_def by (auto intro!: grow_intros split: option.split)

lemma grows_network_policy [grow_intros]:
  assumes "api_laws objs api" "relay_policy_key ns \<in> P"
  shows "grows objs P ns (ensureRelayNetworkPolicy api ns cfg)"
  unfolding grows_def
proof
  fix s
  obtain r s1 where e: "apiServerEndpoint api s = (r, s1)" by (cases "apiServerEndpoint api s")
  have "grown P ns (objs s) (objs s1)"
    using grows_endpoint[OF assms(1), of P ns] e unfolding grows_def by (metis snd_conv)
  moreover have "grown P ns (objs s1) (objs (snd (lift_api (create_or_update api (relay_network_policy ns cfg x)) s1)))" for x
    using grows_policy[OF assms(1), of "relay_network_policy ns cfg x" P ns] assms(2)
    unfolding grows_def by (simp add: object_defs inside_def)
  ultimately show "grown P ns (objs s) (objs (snd (ensureRelayNetworkPolicy api ns cfg s)))"
    using e unfolding ensureRelayNetworkPolicy_def by (auto split: sum.split intro: grown_trans)
qed

lemma relay_objects_inside: "obj \<in> set (relay_objects env ns cfg) \<Longrightarrow> inside ns (key_of obj)"
  by (auto simp: relay_objects_def object_defs inside_def)

lemma grader_objects_inside: "obj \<in> set (grader_objects env ns cfg) \<Longrightarrow> inside ns (key_of obj)"
  by (auto simp: grader_objects_def object_defs inside_def)

lemma grows_relay [grow_intros]:
  "api_laws objs api \<Longrightarrow> relay_policy_key ns \<in> P \<Longrightarrow> grows objs P ns (ensureRelay api env ns)"
  unfolding ensureRelay_def by (auto split: sum.split intro!: grow_intros relay_objects_inside)

lemma grows_grader [grow_intros]: "api_laws objs api \<Longrightarrow> grows objs P ns (ensureRelayGrader api env ns)"
  unfolding ensureRelayGrader_def by (auto split: sum.split intro!: grow_intros grader_objects_inside)

lemma grows_lab [grow_intros]:
  "api_laws objs api \<Longrightarrow> denyall_key ns \<in> P \<Longrightarrow> relay_policy_key ns \<in> P \<Longrightarrow> grows objs P ns (ensure_lab api env ns)"
  unfolding ensure_lab_def ensureNetworkPolicy_def
  by (intro grow_intros) (simp_all add: object_defs inside_def)

lemma grows_get_status:
  assumes "api_laws objs api"
  shows "grows objs P ns (\<lambda>s. case get_object api (KPod, ns, AName a) s of
      (Inl e, s1) \<Rightarrow> (Inr (asset_status_of ns a None) :: 'err + asset_status, s1)
    | (Inr obj, s1) \<Rightarrow> (Inr (asset_status_of ns a (Some obj)), s1))"
  using env_calls(6)[OF assms] unfolding grows_def
  by (auto split: prod.splits sum.splits) (metis snd_conv grown_refl)+

lemma grows_asset [grow_intros]:
  assumes "api_laws objs api"
  shows "grows objs P ns (reconcile_asset api env ns a)"
proof -
  note get = grows_get_status[OF assms, of P ns a]
  have "grows objs P ns (ensurePod api env ns a)"
    unfolding ensurePod_def using assms
    by (auto intro!: grow_intros split: option.split simp: object_defs inside_def)
  moreover have "grows objs P ns (ensureHeadlessService api env ns (AName a))"
    unfolding ensureHeadlessService_def using assms
    by (intro grow_intros) (simp_all add: object_defs inside_def)
  ultimately show ?thesis unfolding reconcile_asset_def by (intro grow_intros get)
qed

lemma grows_assets [grow_intros]:
  assumes "api_laws objs api"
  shows "grows objs P ns (reconcile_assets api env ns as)"
  by (induction as) (simp_all add: grow_intros assms)

lemma grows_finish [grow_intros]:
  assumes "api_laws objs api"
  shows "grows objs P ns (finish_status api env)"
proof -
  have "snd (finish_status api env s) = snd (update_status api env s)" for s
    by (simp add: finish_status_def Let_def split: prod.splits sum.splits option.splits)
  then show ?thesis using env_calls(3)[OF assms] by (simp add: grows_def)
qed

lemma grows_provision [grow_intros]:
  "api_laws objs api \<Longrightarrow> denyall_key ns \<in> P \<Longrightarrow> relay_policy_key ns \<in> P \<Longrightarrow>
     grows objs P ns (provision api env ns)"
  unfolding provision_def by (intro grow_intros)

lemma grows_reconcileCreate:
  assumes "api_laws objs api" "denyall_key ns \<in> P" "relay_policy_key ns \<in> P"
  shows "grows objs P ns (reconcileCreate api env ns)"
proof -
  have delete: "grows objs P ns (call_then (ignore_not_found (delete_env api e) ()) (call_return no_requeue))" for e
  proof -
    have "snd (ignore_not_found (delete_env api e) () s) = snd (delete_env api e s)" for s
      by (simp add: ignore_not_found_def split: prod.splits sum.splits)
    then have "grows objs P ns (ignore_not_found (delete_env api e) ())"
      using env_calls(4)[OF assms(1)] by (simp add: grows_def)
    then show ?thesis by (intro grow_intros)
  qed
  have "grows objs P ns (\<lambda>s. let env = start_status e ns in if expired env (clock api s)
      then call_then (ignore_not_found (delete_env api env) ()) (call_return no_requeue) s
      else provision api env ns s)" for e
    using delete[of "start_status e ns"] grows_provision[OF assms, of "start_status e ns"]
    by (simp add: grows_def Let_def)
  moreover have "grows objs P ns (ensureFinalizer api env)"
    unfolding ensureFinalizer_def using assms by (auto intro!: grow_intros)
  moreover have "grows objs P ns (ensureNamespace api e ns)" for e
    unfolding ensureNamespace_def using assms by (intro grow_intros) (simp_all add: object_defs inside_def)
  ultimately show ?thesis unfolding reconcileCreate_def by (intro grow_intros)
qed

section \<open>What a success leaves\<close>

definition builds :: "('s \<Rightarrow> object_key \<rightharpoonup> kube_object) \<Rightarrow> object_key set \<Rightarrow> ('s, 'err, 'a) call \<Rightarrow> bool" where
  "builds objs K m \<longleftrightarrow> (\<forall>s x s1. m s = (Inr x, s1) \<longrightarrow> K \<subseteq> dom (objs s1))"

lemma growsD: "grows objs P ns m \<Longrightarrow> m s = (r, s1) \<Longrightarrow> grown P ns (objs s) (objs s1)"
  unfolding grows_def by (metis snd_conv)

lemma grows_dom:
  assumes "grows objs P ns m" "m s = (r, s1)"
  shows "dom (objs s) \<subseteq> dom (objs s1)"
proof
  fix k assume "k \<in> dom (objs s)"
  moreover have "objs s1 k = objs s k \<or> objs s1 k \<noteq> None"
    using growsD[OF assms] unfolding grown_def by blast
  ultimately show "k \<in> dom (objs s1)" by auto
qed

lemma grown_keeps: "grown P ns m m1 \<Longrightarrow> m k = Some obj \<Longrightarrow> k \<notin> P \<Longrightarrow> m1 k = Some obj"
  unfolding grown_def by (metis option.discI)

lemma grows_keeps:
  assumes "grows objs P ns m" "m s = (r, s1)" "objs s k = Some obj" "k \<notin> P"
  shows "objs s1 k = Some obj"
  using growsD[OF assms(1,2)] assms(3,4) by (rule grown_keeps)

lemma builds_nothing [build_intros]: "builds objs {} m"
  by (simp add: builds_def)

lemma builds_subset: "builds objs K m \<Longrightarrow> K1 \<subseteq> K \<Longrightarrow> builds objs K1 m"
  unfolding builds_def by blast

lemma builds_fail: "builds objs K (call_fail e)"
  by (simp add: builds_def call_fail_def)

lemma builds_bind [build_intros]:
  assumes "builds objs K1 m" "\<And>x. builds objs K2 (k x)" "\<And>x. grows objs P ns (k x)"
  shows "builds objs (K1 \<union> K2) (call_bind m k)"
  unfolding builds_def
proof (intro allI impI)
  fix s y s2
  assume "call_bind m k s = (Inr y, s2)"
  then obtain x s1 where m: "m s = (Inr x, s1)" and k: "k x s1 = (Inr y, s2)" by (rule call_bind_InrE)
  have "K1 \<subseteq> dom (objs s1)" using assms(1) m unfolding builds_def by blast
  moreover have "dom (objs s1) \<subseteq> dom (objs s2)" using grows_dom[OF assms(3) k] .
  moreover have "K2 \<subseteq> dom (objs s2)" using assms(2) k unfolding builds_def by blast
  ultimately show "K1 \<union> K2 \<subseteq> dom (objs s2)" by blast
qed

lemma create_result:
  assumes "api_laws objs api" "create_object api obj s = (r, s1)" "r = Inr () \<or> r = Inl ErrAlreadyExists"
  shows "objs s1 (key_of obj) \<noteq> None"
  using create_laws(1,3)[OF assms(1), of obj s] assms(2,3) by (auto split: if_splits)

lemma builds_create_ignoring [build_intros]:
  "api_laws objs api \<Longrightarrow> builds objs {key_of obj} (create_ignoring_exists api obj)"
  using create_result[of objs api obj]
  by (auto simp: builds_def create_ignoring_exists_def split: prod.splits sum.splits if_splits)

lemma builds_lift_create [build_intros]:
  "api_laws objs api \<Longrightarrow> builds objs {key_of obj} (lift_api (create_object api obj))"
  using create_result[of objs api obj]
  by (auto simp: builds_def lift_api_def split: prod.splits sum.splits)

lemma builds_policy [build_intros]:
  assumes "api_laws objs api"
  shows "builds objs {key_of obj} (lift_api (create_or_update api obj))"
  unfolding builds_def
proof (intro allI impI)
  fix s x s1
  assume "lift_api (create_or_update api obj) s = (Inr x, s1)"
  then have "create_or_update api obj s = (Inr (), s1)"
    by (auto simp: lift_api_def split: prod.splits sum.splits)
  then show "{key_of obj} \<subseteq> dom (objs s1)" using create_laws(4)[OF assms, of obj s] by auto
qed

lemma builds_ensure [build_intros]:
  assumes "api_laws objs api" "builds objs {k} m"
  shows "builds objs {k} (ensure api k m)"
  unfolding builds_def
proof (intro allI impI)
  fix s x s1
  assume e: "ensure api k m s = (Inr x, s1)"
  obtain r s0 where g: "get_object api k s = (r, s0)" by (cases "get_object api k s")
  show "{k} \<subseteq> dom (objs s1)"
  proof (cases r)
    case (Inr obj)
    then have "objs s1 k = Some obj"
      using get_laws(1)[OF assms(1), of k s obj] env_calls(6)[OF assms(1), of k s] g e by (simp add: ensure_def)
    then show ?thesis by auto
  next
    case (Inl err)
    then have "m s0 = (Inr x, s1)" using e g by (auto simp: ensure_def split: if_splits)
    then show ?thesis using assms(2) unfolding builds_def by blast
  qed
qed

lemma builds_ensure_all [build_intros]:
  assumes "api_laws objs api" "\<And>obj. obj \<in> set xs \<Longrightarrow> inside ns (key_of obj)"
  shows "builds objs (key_of ` set xs) (ensure_all api xs)"
  using assms(2)
proof (induction xs)
  case (Cons x xs)
  have "builds objs ({key_of x} \<union> key_of ` set xs) (call_then (ensure_object api x) (ensure_all api xs))"
    using Cons assms(1) by (intro builds_bind[where P = "{}" and ns = ns] build_intros grow_intros) simp_all
  then show ?case by simp
qed (simp add: builds_nothing)

definition asset_keys :: "string \<Rightarrow> lab_asset \<Rightarrow> object_key set" where
  "asset_keys ns a = {(KPod, ns, AName a), (KService, ns, AName a)}"

definition lab_keys :: "string \<Rightarrow> lab_spec \<Rightarrow> object_key set" where
  "lab_keys ns spec =
     {(KNamespace, [], ns), denyall_key ns, (KResourceQuota, ns, ''resource-quota''), (KLimitRange, ns, ''limit-range''),
      (KServiceAccount, ns, ''relay''), (KRole, ns, ''relay''), (KRoleBinding, ns, ''relay''),
      (KDeployment, ns, ''relay-exec''), (KService, ns, ''relay''), (KIngress, ns, ''relay''), relay_policy_key ns,
      (KConfigMap, ns, ''grader-tasks''), (KDeployment, ns, ''relay-grader''), (KService, ns, ''relay-grader''),
      (KIngress, ns, ''relay-grader''), (KNetworkPolicy, ns, ''networkpolicy-relay-grader'')} \<union>
     (\<Union>a \<in> set (SpecAssets spec). asset_keys ns a)"

lemma network_policy_result:
  assumes "api_laws objs api" "ensureRelayNetworkPolicy api ns cfg s = (Inr x, s1)"
  shows "\<exists>ep. objs s1 (relay_policy_key ns) = Some (relay_network_policy ns cfg ep)"
proof -
  obtain ep s0 where "create_or_update api (relay_network_policy ns cfg ep) s0 = (Inr (), s1)"
    using assms(2)
    by (auto simp: ensureRelayNetworkPolicy_def lift_api_def split: prod.splits sum.splits)
  then have "objs s1 (key_of (relay_network_policy ns cfg ep)) = Some (relay_network_policy ns cfg ep)"
    using create_laws(4)[OF assms(1), of "relay_network_policy ns cfg ep" s0] by simp
  then show ?thesis by (auto simp: object_defs)
qed

lemma builds_network_policy:
  "api_laws objs api \<Longrightarrow> builds objs {relay_policy_key ns} (ensureRelayNetworkPolicy api ns cfg)"
  unfolding builds_def by (auto dest: network_policy_result)

abbreviation relay_keys :: "string \<Rightarrow> object_key set" where
  "relay_keys ns \<equiv> {(KServiceAccount, ns, ''relay''), (KRole, ns, ''relay''), (KRoleBinding, ns, ''relay''),
     (KDeployment, ns, ''relay-exec''), (KService, ns, ''relay''), (KIngress, ns, ''relay'')} \<union> {relay_policy_key ns}"

abbreviation grader_keys :: "string \<Rightarrow> object_key set" where
  "grader_keys ns \<equiv> {(KConfigMap, ns, ''grader-tasks''), (KDeployment, ns, ''relay-grader''),
     (KService, ns, ''relay-grader''), (KIngress, ns, ''relay-grader''),
     (KNetworkPolicy, ns, ''networkpolicy-relay-grader'')}"

lemma builds_relay:
  assumes "api_laws objs api"
  shows "builds objs (relay_keys ns) (ensureRelay api env ns)"
proof (cases "loadRelayConfig (getenv api) :: 'b op_error + relay_config")
  case (Inr cfg)
  have "key_of ` set (relay_objects env ns cfg) \<union> {relay_policy_key ns} = relay_keys ns"
    by (simp add: relay_objects_def object_defs)
  moreover have "builds objs (key_of ` set (relay_objects env ns cfg) \<union> {relay_policy_key ns})
      (call_then (ensure_all api (relay_objects env ns cfg)) (ensureRelayNetworkPolicy api ns cfg))"
    by (rule builds_bind[OF builds_ensure_all[OF assms relay_objects_inside] builds_network_policy[OF assms]
        grows_network_policy[OF assms UNIV_I]])
  ultimately show ?thesis using Inr by (simp add: ensureRelay_def)
qed (simp add: ensureRelay_def builds_fail)

lemma builds_grader:
  assumes "api_laws objs api"
  shows "builds objs (grader_keys ns) (ensureRelayGrader api env ns)"
proof (cases "loadGraderConfig (getenv api) :: 'b op_error + relay_config")
  case (Inr cfg)
  have "key_of ` set (grader_objects env ns cfg) = grader_keys ns"
    by (simp add: grader_objects_def object_defs)
  moreover have "builds objs (key_of ` set (grader_objects env ns cfg)) (ensure_all api (grader_objects env ns cfg))"
    by (rule builds_ensure_all[OF assms grader_objects_inside])
  ultimately show ?thesis using Inr by (simp add: ensureRelayGrader_def)
qed (simp add: ensureRelayGrader_def builds_fail)

lemma builds_object:
  "api_laws objs api \<Longrightarrow> key_of obj = k \<Longrightarrow> builds objs {k} (ensure_object api obj)"
  by (auto intro!: build_intros)

lemma grows_object:
  "api_laws objs api \<Longrightarrow> inside ns (key_of obj) \<Longrightarrow> grows objs P ns (ensure_object api obj)"
  by (intro grow_intros)

lemma quota_keys:
  "key_of (resource_quota ns) = (KResourceQuota, ns, ''resource-quota'')"
  "key_of (limit_range ns) = (KLimitRange, ns, ''limit-range'')"
  "key_of (denyall_policy ns) = denyall_key ns" "key_of (lab_namespace env ns) = (KNamespace, [], ns)"
  "key_of (lab_pod env ns a img) = (KPod, ns, AName a)" "key_of (headless_service env ns nm) = (KService, ns, nm)"
  by (simp_all add: object_defs)

lemma builds_lab:
  assumes "api_laws objs api"
  shows "builds objs ({denyall_key ns} \<union> ({(KResourceQuota, ns, ''resource-quota'')} \<union>
    ({(KLimitRange, ns, ''limit-range'')} \<union> (relay_keys ns \<union> grader_keys ns)))) (ensure_lab api env ns)"
  unfolding ensure_lab_def ensureNetworkPolicy_def
proof (rule builds_bind[where P = UNIV and ns = ns])
  show "builds objs {denyall_key ns} (lift_api (create_or_update api (denyall_policy ns)))"
    using builds_policy[OF assms, of "denyall_policy ns"] by (simp add: quota_keys)
  have grader: "grows objs UNIV ns (ensureRelayGrader api env ns)" using assms by (intro grow_intros)
  have relay: "builds objs (relay_keys ns \<union> grader_keys ns)
      (call_then (ensureRelay api env ns) (ensureRelayGrader api env ns))"
    by (rule builds_bind[OF builds_relay[OF assms] builds_grader[OF assms] grader])
  have relay_grows: "grows objs UNIV ns (call_then (ensureRelay api env ns) (ensureRelayGrader api env ns))"
    using assms by (intro grow_intros) simp_all
  have range: "builds objs ({(KLimitRange, ns, ''limit-range'')} \<union> (relay_keys ns \<union> grader_keys ns))
      (call_then (ensure_object api (limit_range ns)) (call_then (ensureRelay api env ns) (ensureRelayGrader api env ns)))"
    by (rule builds_bind[OF builds_object[OF assms quota_keys(2)] relay relay_grows])
  have range_grows: "grows objs UNIV ns
      (call_then (ensure_object api (limit_range ns)) (call_then (ensureRelay api env ns) (ensureRelayGrader api env ns)))"
    using assms by (intro grow_intros relay_grows) (simp_all add: quota_keys inside_def)
  show "builds objs ({(KResourceQuota, ns, ''resource-quota'')} \<union>
      ({(KLimitRange, ns, ''limit-range'')} \<union> (relay_keys ns \<union> grader_keys ns)))
      (call_then (ensure_object api (resource_quota ns)) (call_then (ensure_object api (limit_range ns))
        (call_then (ensureRelay api env ns) (ensureRelayGrader api env ns))))"
    by (rule builds_bind[OF builds_object[OF assms quota_keys(1)] range range_grows])
  show "grows objs UNIV ns (call_then (ensure_object api (resource_quota ns)) (call_then (ensure_object api (limit_range ns))
        (call_then (ensureRelay api env ns) (ensureRelayGrader api env ns))))"
    using assms by (intro grow_intros range_grows) (simp_all add: quota_keys inside_def)
qed

lemma builds_asset:
  assumes "api_laws objs api"
  shows "builds objs (asset_keys ns a) (reconcile_asset api env ns a)"
proof -
  let ?get = "\<lambda>s. case get_object api (KPod, ns, AName a) s of
      (Inl e, s1) \<Rightarrow> (Inr (asset_status_of ns a None) :: 'b op_error + asset_status, s1)
    | (Inr obj, s1) \<Rightarrow> (Inr (asset_status_of ns a (Some obj)), s1)"
  have get: "grows objs UNIV ns ?get" by (rule grows_get_status[OF assms])
  have svc: "builds objs ({(KService, ns, AName a)} \<union> {}) (call_then (ensureHeadlessService api env ns (AName a)) ?get)"
    using builds_create_ignoring[OF assms, of "headless_service env ns (AName a)"]
    by (intro builds_bind[OF _ builds_nothing get]) (simp add: ensureHeadlessService_def quota_keys)
  have svc_grows: "grows objs UNIV ns (call_then (ensureHeadlessService api env ns (AName a)) ?get)"
    unfolding ensureHeadlessService_def using assms
    by (intro grow_intros get) (simp_all add: quota_keys inside_def)
  have "builds objs {(KPod, ns, AName a)} (ensurePod api env ns a)"
    unfolding ensurePod_def
    using builds_lift_create[OF assms, of "lab_pod env ns a _"]
    by (intro builds_ensure[OF assms]) (auto simp: builds_fail quota_keys split: option.split)
  from builds_bind[OF this svc svc_grows] show ?thesis
    unfolding reconcile_asset_def asset_keys_def by (simp add: insert_commute)
qed

lemma builds_assets:
  assumes "api_laws objs api"
  shows "builds objs (\<Union>a \<in> set as. asset_keys ns a) (reconcile_assets api env ns as)"
proof (induction as)
  case (Cons a as)
  have ret: "builds objs ((\<Union>a \<in> set as. asset_keys ns a) \<union> {})
      (call_bind (reconcile_assets api env ns as) (\<lambda>sts. call_return (st # sts)))" for st
    by (rule builds_bind[OF Cons.IH builds_nothing grows_return[where P = UNIV]])
  have "grows objs UNIV ns (call_bind (reconcile_assets api env ns as) (\<lambda>sts. call_return (st # sts)))" for st
    using assms by (intro grow_intros)
  from builds_bind[OF builds_asset[OF assms] ret this] show ?case by simp
qed (simp add: builds_nothing)

section \<open>The properties\<close>

text \<open>What the operator relies on of the calls on its own resource: a get gives the object of that
  name, an update keeps its name and its specification.\<close>

definition env_laws :: "('s, 'e) api \<Rightarrow> bool" where
  "env_laws api \<longleftrightarrow>
     (\<forall>nm s env. fst (get_env api nm s) = Inr env \<longrightarrow> EnvName env = nm) \<and>
     (\<forall>env s env1. fst (update_env api env s) = Inr env1 \<longrightarrow> EnvName env1 = EnvName env \<and> Spec env1 = Spec env)"

lemma delete_confined:
  assumes "api_laws objs api" "\<not> inside ns k"
  shows "objs (snd (reconcileDelete api env ns s)) k = objs s k"
proof -
  obtain r s1 where g: "get_object api (KNamespace, [], ns) s = (r, s1)" by (cases "get_object api (KNamespace, [], ns) s")
  have s1: "objs s1 = objs s" using env_calls(6)[OF assms(1), of "(KNamespace, [], ns)" s] g by simp
  have del: "objs (snd (delete_object api (KNamespace, [], ns) s1)) k = objs s1 k"
    using delete_laws[OF assms(1), of k "(KNamespace, [], ns)"] assms(2) by (simp add: inside_def)
  have mark: "objs (snd (mark_terminating api e s2)) = objs s2" for e s2
    using env_calls(3)[OF assms(1)] by (simp add: mark_terminating_def)
  have upd: "objs (snd (update_env api e s1)) = objs s1" for e using env_calls(2)[OF assms(1)] by simp
  show ?thesis
    using g s1 del upd mark
    by (auto simp: reconcileDelete_def call_bind_def lift_api_def call_return_def split: sum.splits prod.splits)
      (metis snd_conv)+
qed

text \<open>
  C4: Whatever state the lab is in and whatever fails, reconciling the LabEnvironment \<open>nm\<close> changes no
  object outside the namespace \<open>rootenv-lab-nm\<close> - creation, update and deletion included.
\<close>
theorem reconcile_confined:
  assumes "api_laws objs api" "env_laws api" "\<not> inside (namespace_of nm) k"
  shows "objs (snd (Reconcile api nm s)) k = objs s k"
proof -
  obtain r s1 where g: "get_env api nm s = (r, s1)" by (cases "get_env api nm s")
  have s1: "objs s1 = objs s" using env_calls(1)[OF assms(1), of nm s] g by simp
  show ?thesis
  proof (cases r)
    case (Inr env)
    then have nm: "EnvName env = nm" using assms(2) g unfolding env_laws_def by (metis fst_conv)
    have "grown UNIV (namespace_of nm) (objs s1) (objs (snd (reconcileCreate api env (namespace_of nm) s1)))"
      using grows_reconcileCreate[OF assms(1), of "namespace_of nm" UNIV] unfolding grows_def by simp
    then have "objs (snd (reconcileCreate api env (namespace_of nm) s1)) k = objs s1 k"
      using assms(3) unfolding grown_def by blast
    then show ?thesis
      using g s1 nm Inr delete_confined[OF assms(1,3)] by (simp add: Reconcile_def)
  qed (simp add: Reconcile_def g s1)
qed

text \<open>
  C31: Reconciling a lab that is not being deleted never removes or changes an object that is there,
  whoever made it; only the two network policies the operator rewrites are replaced. A crashed pod
  or an edited deployment is therefore left as it is.
\<close>
theorem reconcile_keeps_objects:
  assumes "api_laws objs api" "get_env api nm s = (Inr env, s1)" "\<not> Deleting env"
    "objs s k = Some obj" "k \<noteq> denyall_key (namespace_of (EnvName env))" "k \<noteq> relay_policy_key (namespace_of (EnvName env))"
  shows "objs (snd (Reconcile api nm s)) k = Some obj"
proof -
  let ?ns = "namespace_of (EnvName env)"
  have "objs s1 = objs s" using env_calls(1)[OF assms(1), of nm s] assms(2) by simp
  moreover have "grows objs {denyall_key ?ns, relay_policy_key ?ns} ?ns (reconcileCreate api env ?ns)"
    by (rule grows_reconcileCreate[OF assms(1)]) simp_all
  ultimately show ?thesis
    using grows_keeps[of objs "{denyall_key ?ns, relay_policy_key ?ns}" ?ns "reconcileCreate api env ?ns" s1 _ _ k obj] assms
    by (cases "reconcileCreate api env ?ns s1") (simp add: Reconcile_def)
qed

lemma provision_builds:
  assumes "api_laws objs api"
  shows "builds objs (lab_keys ns (Spec env) - {(KNamespace, [], ns)}) (provision api env ns)"
proof -
  let ?keys = "\<Union>a \<in> set (SpecAssets (Spec env)). asset_keys ns a"
  let ?finish = "\<lambda>sts. finish_status api (env\<lparr>Status := status_of_assets (set_condition api) (Spec env) (Status env) sts\<rparr>)"
  have assets: "builds objs (?keys \<union> {}) (call_bind (reconcile_assets api env ns (SpecAssets (Spec env))) ?finish)"
    by (rule builds_bind[OF builds_assets[OF assms] builds_nothing grows_finish[OF assms, where P = UNIV]])
  have "grows objs UNIV ns (call_bind (reconcile_assets api env ns (SpecAssets (Spec env))) ?finish)"
    using assms by (intro grow_intros)
  from builds_bind[OF builds_lab[OF assms] assets this] show ?thesis
    unfolding provision_def by (rule builds_subset) (auto simp: lab_keys_def)
qed

lemma relay_policy_result:
  fixes api :: "('s, 'e) api"
  assumes "api_laws objs api" "ensureRelay api env ns s = (Inr x, s1)"
  shows "\<exists>cfg ep. loadRelayConfig (getenv api) = (Inr cfg :: 'e op_error + relay_config) \<and>
    objs s1 (relay_policy_key ns) = Some (relay_network_policy ns cfg ep)"
  using assms(2)
  by (auto simp: ensureRelay_def call_fail_def split: sum.splits elim!: call_bind_InrE
      dest!: network_policy_result[OF assms(1)])

lemma provision_policies:
  fixes api :: "('s, 'e) api"
  assumes "api_laws objs api" "provision api env ns s = (Inr r, s1)"
  shows "objs s1 (denyall_key ns) = Some (denyall_policy ns) \<and>
    (\<exists>cfg ep. loadRelayConfig (getenv api) = (Inr cfg :: 'e op_error + relay_config) \<and>
       objs s1 (relay_policy_key ns) = Some (relay_network_policy ns cfg ep))"
proof -
  let ?rest = "call_bind (reconcile_assets api env ns (SpecAssets (Spec env))) (\<lambda>sts.
      finish_status api (env\<lparr>Status := status_of_assets (set_condition api) (Spec env) (Status env) sts\<rparr>))"
  obtain u sl where lab: "ensure_lab api env ns s = (Inr u, sl)" and rest: "?rest sl = (Inr r, s1)"
    using assms(2) unfolding provision_def by (rule call_bind_InrE)
  have rest_grows: "grows objs P ns ?rest" for P using assms(1) by (intro grow_intros)
  let ?after = "call_then (ensure_object api (resource_quota ns)) (call_then (ensure_object api (limit_range ns))
    (call_then (ensureRelay api env ns) (ensureRelayGrader api env ns)))"
  obtain u1 s2 where np: "ensureNetworkPolicy api ns s = (Inr u1, s2)" and after: "?after s2 = (Inr u, sl)"
    using lab unfolding ensure_lab_def by (rule call_bind_InrE)
  obtain u2 s3 where "call_then (ensure_object api (limit_range ns))
      (call_then (ensureRelay api env ns) (ensureRelayGrader api env ns)) s3 = (Inr u, sl)"
    using after by (rule call_bind_InrE)
  then obtain u3 s4 where "call_then (ensureRelay api env ns) (ensureRelayGrader api env ns) s4 = (Inr u, sl)"
    by (rule call_bind_InrE)
  then obtain u4 s5 where relay: "ensureRelay api env ns s4 = (Inr u4, s5)"
    and grader: "ensureRelayGrader api env ns s5 = (Inr u, sl)"
    by (rule call_bind_InrE)
  have "create_or_update api (denyall_policy ns) s = (Inr (), s2)"
    using np by (cases "create_or_update api (denyall_policy ns) s")
      (auto simp: ensureNetworkPolicy_def lift_api_def split: sum.splits)
  then have d2: "objs s2 (denyall_key ns) = Some (denyall_policy ns)"
    using create_laws(4)[OF assms(1), of "denyall_policy ns" s] by (simp add: quota_keys)
  have "grows objs {relay_policy_key ns} ns ?after"
    using assms(1) by (intro grow_intros) (simp_all add: quota_keys inside_def)
  then have "grown {relay_policy_key ns} ns (objs s2) (objs sl)" by (rule growsD) (rule after)
  then have dl: "objs sl (denyall_key ns) = Some (denyall_policy ns)" by (rule grown_keeps[where m = "objs s2", OF _ d2]) simp
  have gl: "grown {} ns (objs sl) (objs s1)" by (rule growsD[OF rest_grows rest])
  then have denyall: "objs s1 (denyall_key ns) = Some (denyall_policy ns)" by (rule grown_keeps[where m = "objs sl", OF _ dl]) simp
  obtain cfg ep where cfg: "loadRelayConfig (getenv api) = (Inr cfg :: 'e op_error + relay_config)"
    "objs s5 (relay_policy_key ns) = Some (relay_network_policy ns cfg ep)"
    using relay_policy_result[OF assms(1) relay] by blast
  have "grows objs {} ns (ensureRelayGrader api env ns)" using assms(1) by (intro grow_intros)
  then have "grown {} ns (objs s5) (objs sl)" by (rule growsD) (rule grader)
  then have rl: "objs sl (relay_policy_key ns) = Some (relay_network_policy ns cfg ep)" by (rule grown_keeps[where m = "objs s5", OF _ cfg(2)]) simp
  have "objs s1 (relay_policy_key ns) = Some (relay_network_policy ns cfg ep)" using gl by (rule grown_keeps[where m = "objs sl", OF _ rl]) simp
  then show ?thesis using denyall cfg(1) by blast
qed



text \<open>What a written status is: one entry per asset in order, and counts and phase that fit them.\<close>

definition wf_status :: "lab_spec \<Rightarrow> lab_status \<Rightarrow> bool" where
  "wf_status spec st \<longleftrightarrow>
     map StName (StatusAssets st) = map AName (SpecAssets spec) \<and>
     TotalAssets st = length (StatusAssets st) \<and>
     ReadyAssets st = length (filter StReady (StatusAssets st)) \<and> ReadyAssets st \<le> TotalAssets st \<and>
     (Phase st = ''Ready'' \<longleftrightarrow> (\<forall>a \<in> set (StatusAssets st). StReady a)) \<and>
     (Phase st = ''Pending'' \<longleftrightarrow> StatusAssets st \<noteq> [] \<and> (\<forall>a \<in> set (StatusAssets st). \<not> StReady a)) \<and>
     Phase st \<in> {''Ready'', ''Pending'', ''Degraded''}"

lemma reconcile_assets_names:
  "reconcile_assets api env ns as s = (Inr sts, s1) \<Longrightarrow> map StName sts = map AName as"
proof (induction as arbitrary: s sts s1)
  case (Cons a as)
  obtain st s2 rest s3 where st: "reconcile_asset api env ns a s = (Inr st, s2)"
    and rest: "reconcile_assets api env ns as s2 = (Inr rest, s3)" and sts: "sts = st # rest"
    using Cons.prems by (auto simp: call_return_def elim!: call_bind_InrE)
  have "StName st = AName a"
    using st unfolding reconcile_asset_def
    by (auto elim!: call_bind_InrE simp: asset_status_of_def Let_def split: prod.splits sum.splits)
  then show ?case using Cons.IH[OF rest] sts by simp
qed (simp add: call_return_def)

lemma wf_status_of_assets:
  assumes "map StName sts = map AName (SpecAssets spec)"
  shows "wf_status spec (status_of_assets set_cond spec st sts)"
proof -
  have n: "length (SpecAssets spec) = length sts" using assms by (metis length_map)
  have all: "length (filter StReady sts) = length sts \<longleftrightarrow> (\<forall>a \<in> set sts. StReady a)"
    by (metis filter_True length_filter_less less_irrefl)
  have none: "length (filter StReady sts) = 0 \<longleftrightarrow> (\<forall>a \<in> set sts. \<not> StReady a)"
    by (simp add: filter_empty_conv)
  show ?thesis
    using assms n all none
    by (auto simp: wf_status_def status_of_assets_def Let_def overall_phase_def)
qed

text \<open>
  C32: Every status that a reconciliation writes after provisioning is well formed: it has exactly the
  assets of the specification in order, counts how many are ready, and its phase is Ready if all
  are - also when there are none -, Pending if there are some and none is, Degraded otherwise.
\<close>
theorem written_status_wf:
  assumes "provision api env ns s = (Inr r, s1)"
  shows "\<exists>env1 s0. finish_status api env1 s0 = (Inr r, s1) \<and> Spec env1 = Spec env \<and> wf_status (Spec env) (Status env1)"
proof -
  obtain u sl sts s0 where "reconcile_assets api env ns (SpecAssets (Spec env)) sl = (Inr sts, s0)"
    and "finish_status api (env\<lparr>Status := status_of_assets (set_condition api) (Spec env) (Status env) sts\<rparr>) s0 = (Inr r, s1)"
    using assms unfolding provision_def by (elim call_bind_InrE)
  moreover from this(1) have "wf_status (Spec env) (status_of_assets (set_condition api) (Spec env) (Status env) sts)"
    by (intro wf_status_of_assets reconcile_assets_names)
  ultimately show ?thesis by (intro exI[of _ "env\<lparr>Status := status_of_assets (set_condition api) (Spec env) (Status env) sts\<rparr>"]) auto
qed

text \<open>
  C34: The time to live, multiplied into a 64-bit duration, is exact for exactly the values up to
  153722867 minutes either way; of the values its 32-bit field can hold, larger ones wrap around.
\<close>
theorem ttl_exact_iff:
  assumes "- (2 ^ 31) \<le> ttl" "ttl < 2 ^ 31"
  shows "ttl_duration ttl = ttl * minute \<longleftrightarrow> - 153722867 \<le> ttl \<and> ttl \<le> 153722867"
proof -
  have "ttl_duration ttl = signed_take_bit 63 (ttl * minute)"
    unfolding ttl_duration_def sint_sbintrunc' by simp
  moreover have "signed_take_bit 63 (ttl * minute) = ttl * minute \<longleftrightarrow> - (2 ^ 63) \<le> ttl * minute \<and> ttl * minute < 2 ^ 63"
    by (rule signed_take_bit_int_eq_self_iff)
  ultimately show ?thesis by (simp add: minute_def second_def) linarith
qed

section \<open>An API server on a map\<close>

text \<open>A server that keeps one LabEnvironment and a map of objects, and on which every call succeeds.\<close>

type_synonym map_state = "labenv option \<times> (object_key \<rightharpoonup> kube_object)"

definition demo_getenv :: "string \<Rightarrow> string" where
  "demo_getenv v = (if v = ''RELAY_EXEC_IMAGE'' then ''exec:1'' else if v = ''RELAY_GRADER_IMAGE'' then ''grader:1'' else [])"

definition map_api :: "(map_state, unit) api" where
  "map_api = \<lparr>
     get_env = (\<lambda>nm (e, m). (case e of None \<Rightarrow> Inl ErrNotFound
        | Some env \<Rightarrow> if EnvName env = nm then Inr env else Inl ErrNotFound, (e, m))),
     update_env = (\<lambda>env (e, m). (Inr env, (Some env, m))),
     update_status = (\<lambda>env (e, m). (Inr env, (Some env, m))),
     delete_env = (\<lambda>env (e, m). (Inr (), (map_option (\<lambda>v. v\<lparr>Deleting := True\<rparr>) e, m))),
     get_object = (\<lambda>k (e, m). (case m k of None \<Rightarrow> Inl ErrNotFound | Some obj \<Rightarrow> Inr obj, (e, m))),
     create_object = (\<lambda>obj (e, m). if m (key_of obj) = None then (Inr (), (e, m(key_of obj \<mapsto> obj)))
        else (Inl ErrAlreadyExists, (e, m))),
     create_or_update = (\<lambda>obj (e, m). (Inr (), (e, m(key_of obj \<mapsto> obj)))),
     delete_object = (\<lambda>k (e, m). (Inr (), (e, m(k := None)))),
     list_slices = (\<lambda>s. (Inr [\<lparr>Endpoints = [\<lparr>EndpointReady = None, Addresses = [''10.0.0.1'']\<rparr>],
        SlicePorts = [Some 6443]\<rparr>], s)),
     clock = (\<lambda>_. 0), getenv = demo_getenv, read_file = (\<lambda>_. Inl True), quantity_ok = (\<lambda>q. q \<noteq> []),
     set_condition = (\<lambda>cs c. [c])\<rparr>"

lemma map_api_laws: "api_laws snd map_api" "env_laws map_api"
  by (auto simp: api_laws_def env_laws_def map_api_def split: option.splits)

definition demo_lab :: labenv where
  "demo_lab = \<lparr>EnvName = ''a1'', CreationTimestamp = 0, Deleting = False, Finalizers = [],
     Spec = \<lparr>OwnerId = ''u1'', OwnerName = ''Ann'', LabId = ''l1'', TTL = 60, SpecAssets = [], SpecExercises = []\<rparr>,
     Status = \<lparr>Conditions = [], Phase = [], StatusNamespace = [], LabExpiresAt = None, TotalAssets = 0,
       ReadyAssets = 0, Ready = [], StatusAssets = []\<rparr>\<rparr>"

definition succeeds :: "('s, 'err, 'a) call \<Rightarrow> bool" where
  "succeeds m \<longleftrightarrow> (\<forall>s. \<exists>x s1. m s = (Inr x, s1))"

lemma succeeds_bind: "succeeds m \<Longrightarrow> (\<And>x. succeeds (k x)) \<Longrightarrow> succeeds (call_bind m k)"
  unfolding succeeds_def call_bind_def by (metis (mono_tags, lifting) case_prod_conv old.sum.simps(6))

lemma succeeds_ensure: "succeeds (ensure_object map_api obj)"
  by (auto simp: succeeds_def ensure_def create_ignoring_exists_def map_api_def split: option.splits)

lemma succeeds_ensure_all: "succeeds (ensure_all map_api xs)"
  by (induction xs) (simp_all add: succeeds_bind[OF succeeds_ensure], simp add: succeeds_def call_return_def)

lemma demo_configs:
  "\<exists>cfg. loadRelayConfig demo_getenv = (Inr cfg :: unit op_error + relay_config)"
  "\<exists>cfg. loadGraderConfig demo_getenv = (Inr cfg :: unit op_error + relay_config)"
  by (simp_all add: loadRelayConfig_def loadGraderConfig_def load_config_def demo_getenv_def Let_def)

lemma demo_relays: "succeeds (ensureRelay map_api env ns)" "succeeds (ensureRelayGrader map_api env ns)"
proof -
  have "succeeds (ensureRelayNetworkPolicy map_api ns cfg)" for cfg
    by (simp add: succeeds_def ensureRelayNetworkPolicy_def apiServerEndpoint_def call_bind_def lift_api_def
        map_api_def call_return_def split: prod.splits)
  then have "succeeds (call_then (ensure_all map_api (relay_objects env ns cfg)) (ensureRelayNetworkPolicy map_api ns cfg))" for cfg
    by (intro succeeds_bind succeeds_ensure_all)
  then show "succeeds (ensureRelay map_api env ns)"
    using demo_configs(1) by (auto simp: ensureRelay_def map_api_def split: sum.split)
  show "succeeds (ensureRelayGrader map_api env ns)"
    using demo_configs(2) succeeds_ensure_all[of "grader_objects env ns _"]
    by (auto simp: ensureRelayGrader_def map_api_def split: sum.split)
qed

lemma demo_lab_succeeds: "succeeds (ensure_lab map_api env ns)"
  unfolding ensure_lab_def
  by (intro succeeds_bind succeeds_ensure demo_relays)
    (simp add: succeeds_def ensureNetworkPolicy_def lift_api_def map_api_def split: prod.splits)

lemma demo_provision:
  assumes "SpecAssets (Spec env) = []" "LabExpiresAt (Status env) = Some t" "0 \<le> t"
  shows "\<exists>s2. provision map_api env ns s = (Inr \<lparr>Requeue = False, RequeueAfter = t\<rparr>, s2)"
proof -
  obtain u s1 where lab: "ensure_lab map_api env ns s = (Inr u, s1)"
    using demo_lab_succeeds unfolding succeeds_def by blast
  let ?env = "env\<lparr>Status := status_of_assets (set_condition map_api) (Spec env) (Status env) []\<rparr>"
  have "LabExpiresAt (Status ?env) = Some t" using assms(2) by (simp add: status_of_assets_def Let_def)
  then have "\<exists>s2. finish_status map_api ?env s1 = (Inr \<lparr>Requeue = False, RequeueAfter = t\<rparr>, s2)"
    using assms(3) by (cases s1) (simp add: finish_status_def map_api_def)
  then show ?thesis using lab assms(1) by (simp add: provision_def call_bind_def call_return_def)
qed

lemma demo_reconcile:
  "\<exists>s2. Reconcile map_api ''a1'' (Some demo_lab, m) = (Inr \<lparr>Requeue = False, RequeueAfter = 3600000000000\<rparr>, s2)"
proof -
  let ?env1 = "demo_lab\<lparr>Finalizers := [finalizerName]\<rparr>" and ?ns = "namespace_of ''a1''"
  have ttl: "ttl_duration 60 = 3600000000000" by code_simp
  have fin: "ensureFinalizer map_api demo_lab (Some demo_lab, m) = (Inr ?env1, (Some ?env1, m))"
    by (simp add: ensureFinalizer_def demo_lab_def lift_api_def map_api_def)
  obtain u sb where nsp: "ensureNamespace map_api ?env1 ?ns (Some ?env1, m) = (Inr u, sb)"
    using succeeds_ensure unfolding ensureNamespace_def succeeds_def by blast
  let ?e = "start_status ?env1 ?ns"
  have e: "SpecAssets (Spec ?e) = []" "LabExpiresAt (Status ?e) = Some 3600000000000"
    by (simp_all add: start_status_def demo_lab_def ttl)
  have "\<not> expired ?e (clock map_api sb)" using e(2) by (simp add: expired_def map_api_def)
  then have "reconcileCreate map_api demo_lab ?ns (Some demo_lab, m) = provision map_api ?e ?ns sb"
    using fin nsp by (simp add: reconcileCreate_def call_bind_def Let_def)
  moreover have "Reconcile map_api ''a1'' (Some demo_lab, m) = reconcileCreate map_api demo_lab ?ns (Some demo_lab, m)"
    by (simp add: Reconcile_def map_api_def demo_lab_def)
  ultimately show ?thesis using demo_provision[OF e, of ?ns sb] by simp
qed


theorem reconcile_confined_witness:
  "snd (snd (Reconcile map_api ''a1'' (Some demo_lab, [(KPod, ''rootenv-lab-a2'', ''vm'') \<mapsto> lab_namespace demo_lab ''x''])))
     (KPod, ''rootenv-lab-a2'', ''vm'') = Some (lab_namespace demo_lab ''x'')"
  using reconcile_confined[OF map_api_laws, of "''a1''" "(KPod, ''rootenv-lab-a2'', ''vm'')"
      "(Some demo_lab, [(KPod, ''rootenv-lab-a2'', ''vm'') \<mapsto> lab_namespace demo_lab ''x''])"]
  by (simp add: inside_def namespace_of_def)

theorem reconcile_keeps_objects_witness:
  "snd (snd (Reconcile map_api ''a1'' (Some demo_lab, [(KPod, ''rootenv-lab-a1'', ''vm'') \<mapsto> resource_quota ''x''])))
     (KPod, ''rootenv-lab-a1'', ''vm'') = Some (resource_quota ''x'')"
proof -
  let ?s = "(Some demo_lab, [(KPod, ''rootenv-lab-a1'', ''vm'') \<mapsto> resource_quota ''x''])"
  have "get_env map_api ''a1'' ?s = (Inr demo_lab, ?s)" by (simp add: map_api_def demo_lab_def)
  from reconcile_keeps_objects[OF map_api_laws(1) this, of "(KPod, ''rootenv-lab-a1'', ''vm'')" "resource_quota ''x''"]
  show ?thesis by (simp add: demo_lab_def)
qed


theorem written_status_wf_witness:
  "\<exists>env1 s0 r s1. finish_status map_api env1 s0 = (Inr r, s1) \<and> wf_status (Spec demo_lab) (Status env1)"
proof -
  let ?e = "start_status demo_lab ''ns''"
  have ttl: "ttl_duration 60 = 3600000000000" by code_simp
  have "SpecAssets (Spec ?e) = []" "LabExpiresAt (Status ?e) = Some 3600000000000" "Spec ?e = Spec demo_lab"
    by (simp_all add: start_status_def demo_lab_def ttl)
  then show ?thesis
    using demo_provision[of ?e 3600000000000 "''ns''" "(None, Map.empty)"] written_status_wf[of map_api ?e "''ns''"]
    by fastforce
qed

theorem ttl_exact_iff_witness:
  "ttl_duration 153722867 = 153722867 * minute \<and> ttl_duration 153722868 \<noteq> 153722868 * minute"
  using ttl_exact_iff[of 153722867] ttl_exact_iff[of 153722868] by simp

end
