(* ===== verification/LabQueue.thy ===== *)
theory LabQueue
  imports OperatorSpec Runs
begin

text \<open>
  The work queue in front of \<open>Reconcile\<close>, for one LabEnvironment: \<open>SetupWithManager\<close> in
  \<open>labenvironment_controller.go\<close> and what controller-runtime documents of its queue. The operator
  reads LabEnvironments from a cache that follows the API server: \<open>cached\<close> and \<open>actual\<close> are what each
  has of this one.
\<close>

section \<open>The queue\<close>

text \<open>\<open>waitingUntil\<close>: the delaying queue has one entry per lab, for the earliest of the times asked for.\<close>

record 's lab_queue =
  queueWorld :: 's
  queued :: bool
  waitingUntil :: "int option"

definition start_queue :: "'s \<Rightarrow> 's lab_queue" where
  "start_queue s = \<lparr>queueWorld = s, queued = True, waitingUntil = None\<rparr>"

text \<open>
  What the controller does with a result, at a time and with the rate limiter's next delay, is an
  argument: \<open>requeue_laws\<close> says what is documented of it.
\<close>

type_synonym ('s, 'e) requeueing =
  "int \<Rightarrow> int \<Rightarrow> 'e op_error + reconcile_result \<Rightarrow> 's lab_queue \<Rightarrow> 's lab_queue"

text \<open>
  \<open>Outside\<close>: time, the API server, other clients and the cache move on; a change of the cached
  object queues the lab, also one that comes while \<open>Reconcile\<close> runs. An object that has changed does
  not become what it was again - it carries a version - so a cache that is behind stays behind
  until it changes. \<open>PodChanged\<close>: an event of a pod
  with this metadata, filtered and mapped as \<open>SetupWithManager\<close> says.
\<close>

datatype 's queue_event = Outside 's | PodChanged object_meta | WaitOver | Work int

fun queue_step ::
  "('s \<Rightarrow> labenv option) \<Rightarrow> ('s \<Rightarrow> labenv option) \<Rightarrow> ('s, 'e) api \<Rightarrow> ('s, 'e) requeueing \<Rightarrow> string \<Rightarrow>
     's queue_event \<Rightarrow> 's lab_queue \<Rightarrow> 's lab_queue option" where
  "queue_step cached actual api rq nm (Outside s1) q =
     guarded (cached s1 = cached (queueWorld q) \<and> cached (queueWorld q) \<noteq> actual (queueWorld q) \<longrightarrow> cached s1 \<noteq> actual s1)
       (q\<lparr>queueWorld := s1, queued := (queued q \<or> cached s1 \<noteq> cached (queueWorld q))\<rparr>)"
| "queue_step cached actual api rq nm (PodChanged m) q =
     Some (q\<lparr>queued := (queued q \<or> pod_watched m \<and> nm \<in> set (podToLabEnv m))\<rparr>)"
| "queue_step cached actual api rq nm WaitOver q =
     (case waitingUntil q of
        None \<Rightarrow> None
      | Some t \<Rightarrow> guarded (t \<le> clock api (queueWorld q)) (q\<lparr>waitingUntil := None, queued := True\<rparr>))"
| "queue_step cached actual api rq nm (Work pause) q =
     (if queued q
      then (case Reconcile api nm (queueWorld q) of
         (r, s1) \<Rightarrow> Some (rq (clock api s1) pause r
            (q\<lparr>queueWorld := s1, queued := (cached s1 \<noteq> cached (queueWorld q))\<rparr>)))
      else None)"

section \<open>The API server and the cache\<close>

text \<open>
  A get of this LabEnvironment answers from the cache. A deletion that succeeds leaves the object
  gone or marked, one that fails with not found leaves none, and an update that succeeds leaves
  the finalizers and the deletion mark it was given, or nothing if that was the last finalizer.
\<close>

definition gone_or :: "(labenv \<Rightarrow> bool) \<Rightarrow> labenv option \<Rightarrow> bool" where
  "gone_or P env = (case env of None \<Rightarrow> True | Some e \<Rightarrow> P e)"

definition queue_laws :: "('s \<Rightarrow> labenv option) \<Rightarrow> ('s \<Rightarrow> labenv option) \<Rightarrow> ('s, 'e) api \<Rightarrow> string \<Rightarrow> bool" where
  "queue_laws cached actual api nm \<longleftrightarrow>
     (\<forall>s r s1. get_env api nm s = (r, s1) \<longrightarrow>
        (\<forall>env. r = Inr env \<longrightarrow> cached s = Some env) \<and> (r = Inl ErrNotFound \<longrightarrow> cached s = None)) \<and>
     (\<forall>env s r s1. EnvName env = nm \<and> delete_env api env s = (r, s1) \<longrightarrow>
        (r = Inr () \<longrightarrow> gone_or Deleting (actual s1)) \<and> (r = Inl ErrNotFound \<longrightarrow> actual s1 = None)) \<and>
     (\<forall>env s env1 s1. EnvName env = nm \<and> update_env api env s = (Inr env1, s1) \<longrightarrow>
        gone_or (\<lambda>e. Finalizers e = Finalizers env \<and> Deleting e = Deleting env) (actual s1))"

text \<open>A result that makes the controller come back.\<close>

definition comes_back :: "'err + reconcile_result \<Rightarrow> bool" where
  "comes_back r = (case r of Inl e \<Rightarrow> True | Inr res \<Rightarrow> RequeueAfter res > 0 \<or> Requeue res)"

text \<open>
  The queue keeps an entry, and puts one for a result that is an error, says \<open>Requeue\<close>, or has a
  positive \<open>RequeueAfter\<close>.
\<close>

definition requeue_laws :: "('s, 'e) requeueing \<Rightarrow> bool" where
  "requeue_laws rq \<longleftrightarrow>
     (\<forall>now pause r q. queueWorld (rq now pause r q) = queueWorld q \<and> (queued q \<longrightarrow> queued (rq now pause r q)) \<and>
        (comes_back r \<longrightarrow> queued (rq now pause r q) \<or> waitingUntil (rq now pause r q) \<noteq> None))"

lemma requeue_lawsD:
  assumes "requeue_laws rq"
  shows "queueWorld (rq now pause r q) = queueWorld q" "queued q \<Longrightarrow> queued (rq now pause r q)"
    "comes_back r \<Longrightarrow> queued (rq now pause r q) \<or> waitingUntil (rq now pause r q) \<noteq> None"
  using assms unfolding requeue_laws_def by blast+

text \<open>
  The clock does not read an expiry to the nanosecond just when the status has been written. Then
  \<open>RequeueAfter\<close> would be 0, which means never.
\<close>

definition never_exact :: "('s, 'e) api \<Rightarrow> bool" where
  "never_exact api \<longleftrightarrow>
     (\<forall>env s env1 s1. update_status api env s = (Inr env1, s1) \<longrightarrow> LabExpiresAt (Status env1) \<noteq> Some (clock api s1))"

section \<open>Which pods wake it up\<close>

lemma lab_pods_wake:
  assumes "EnvName env \<noteq> []"
  shows "queue_step cached actual api rq (EnvName env) (PodChanged (object_meta_of (lab_pod env ns a img))) q =
    Some (q\<lparr>queued := True\<rparr>)"
  using assms by (simp add: lab_pod_def pod_watched_def podToLabEnv_def env_labels_def)

text \<open>The pods of the relays carry the label \<open>app\<close> alone.\<close>

lemma relay_pods_do_not: "MetaLabels m = [''app'' \<mapsto> app] \<Longrightarrow> queue_step cached actual api rq nm (PodChanged m) q = Some q"
  by (simp add: pod_watched_def)

section \<open>Every lab is looked at again\<close>

text \<open>The operator has work to do with a lab until it has given up its finalizer.\<close>

definition unfinished :: "labenv \<Rightarrow> bool" where
  "unfinished env \<longleftrightarrow> \<not> Deleting env \<or> finalizerName \<in> set (Finalizers env)"

definition wake_pending :: "('s \<Rightarrow> labenv option) \<Rightarrow> ('s \<Rightarrow> labenv option) \<Rightarrow> 's lab_queue \<Rightarrow> bool" where
  "wake_pending cached actual q \<longleftrightarrow>
     queued q \<or> waitingUntil q \<noteq> None \<or> cached (queueWorld q) \<noteq> actual (queueWorld q)"

definition watched_over :: "('s \<Rightarrow> labenv option) \<Rightarrow> ('s \<Rightarrow> labenv option) \<Rightarrow> 's lab_queue \<Rightarrow> bool" where
  "watched_over cached actual q \<longleftrightarrow>
     (\<forall>env. cached (queueWorld q) = Some env \<and> unfinished env \<longrightarrow> wake_pending cached actual q)"

text \<open>
  A reconciliation either comes back, or there is no lab, or the operator is done with it, or it has just been
  deleted or released in the API server, so that the cache is behind.
\<close>

lemma finish_comes_back:
  assumes "never_exact api" "finish_status api env s = (r, s1)"
  shows "comes_back r"
  using assms unfolding never_exact_def finish_status_def
  by (fastforce simp: comes_back_def Let_def second_def split: prod.splits sum.splits option.splits if_splits)

lemma provision_comes_back:
  assumes "never_exact api" "provision api env ns s = (r, s1)"
  shows "comes_back r"
proof (cases r)
  case (Inr res)
  then show ?thesis
    using assms(2) finish_comes_back[OF assms(1)]
    by (auto simp: provision_def elim!: call_bind_InrE)
qed (simp add: comes_back_def)

lemma ensureFinalizer_name:
  assumes "env_laws api" "ensureFinalizer api env s = (Inr env1, s1)"
  shows "EnvName env1 = EnvName env"
proof (cases "finalizerName \<in> set (Finalizers env)")
  case True
  then show ?thesis using assms(2) by (simp add: ensureFinalizer_def call_return_def)
next
  case False
  let ?env = "env\<lparr>Finalizers := Finalizers env @ [finalizerName]\<rparr>"
  obtain x s2 where u: "update_env api ?env s = (x, s2)" by force
  then have "x = Inr env1" using assms(2) False by (simp add: ensureFinalizer_def lift_api_def split: sum.splits)
  then have "EnvName env1 = EnvName ?env" using assms(1) u unfolding env_laws_def by (metis fst_conv)
  then show ?thesis by simp
qed

text \<open>The three outcomes of a reconciliation that does not come back.\<close>

lemma create_comes_back:
  assumes "queue_laws cached actual api nm" "never_exact api" "env_laws api" "EnvName env = nm"
    "reconcileCreate api env ns s = (r, s1)"
  shows "comes_back r \<or> gone_or Deleting (actual s1)"
proof (cases r)
  case (Inr res)
  obtain env1 sa u sb where fin: "ensureFinalizer api env s = (Inr env1, sa)"
    and go: "(let e = start_status env1 ns in if expired e (clock api sb)
       then call_then (ignore_not_found (delete_env api e) ()) (call_return no_requeue) sb
       else provision api e ns sb) = (r, s1)"
    using assms(5)[unfolded reconcileCreate_def Inr] by (elim call_bind_InrE) (simp add: Inr)
  have nm1: "EnvName env1 = nm"
    using ensureFinalizer_name[OF assms(3) fin] assms(4) by simp
  show ?thesis
  proof (cases "expired (start_status env1 ns) (clock api sb)")
    case False
    then have "provision api (start_status env1 ns) ns sb = (r, s1)" using go by (simp add: Let_def)
    then show ?thesis by (rule provision_comes_back[OF assms(2), THEN disjI1])
  next
    case True
    let ?e = "start_status env1 ns"
    obtain d s2 where d: "delete_env api ?e sb = (d, s2)" by force
    have nme: "EnvName ?e = nm" using nm1 by (simp add: start_status_def)
    have "d = Inr () \<or> d = Inl ErrNotFound" "s1 = s2"
      using go True d Inr by (auto simp: call_bind_def ignore_not_found_def call_return_def split: sum.splits if_splits)
    moreover have "(d = Inr () \<longrightarrow> gone_or Deleting (actual s2)) \<and> (d = Inl ErrNotFound \<longrightarrow> actual s2 = None)"
      using assms(1) nme d unfolding queue_laws_def by blast
    ultimately show ?thesis by (auto simp: gone_or_def)
  qed
qed (simp add: comes_back_def)

lemma delete_comes_back:
  assumes "queue_laws cached actual api nm" "EnvName env = nm" "Deleting env" "unfinished env"
    "reconcileDelete api env ns s = (r, s1)"
  shows "comes_back r \<or> gone_or (\<lambda>e. \<not> unfinished e) (actual s1)"
proof -
  have fin: "finalizerName \<in> set (Finalizers env)" using assms(3,4) by (simp add: unfinished_def)
  obtain g s0 where g: "get_object api (KNamespace, [], ns) s = (g, s0)" by force
  let ?env = "env\<lparr>Finalizers := removeAll finalizerName (Finalizers env)\<rparr>"
  show ?thesis
  proof (cases "g = Inl ErrNotFound")
    case True
    obtain x s2 where u: "update_env api ?env s0 = (x, s2)" by force
    have "(r, s1) = (case x of Inl e \<Rightarrow> Inl (Api e) | Inr y \<Rightarrow> Inr no_requeue, s2)"
      using assms(5) fin g True u
      by (simp add: reconcileDelete_def call_bind_def lift_api_def call_return_def split: sum.splits)
    then have "s1 = s2" "\<not> isl x \<or> comes_back r" by (auto simp: comes_back_def split: sum.splits)
    moreover have "gone_or (\<lambda>e. \<not> unfinished e) (actual s2)" if "x = Inr y" for y
    proof -
      have "EnvName ?env = nm" using assms(2) by simp
      then have "gone_or (\<lambda>e. Finalizers e = Finalizers ?env \<and> Deleting e = Deleting ?env) (actual s2)"
        using assms(1) u that unfolding queue_laws_def by blast
      then show ?thesis using assms(3) by (auto simp: gone_or_def unfinished_def split: option.splits)
    qed
    ultimately show ?thesis by (cases x) auto
  next
    case False
    then have "isl r \<or> r = Inr deletion_pause"
      using assms(5) fin g
      by (cases g) (auto simp: reconcileDelete_def call_bind_def lift_api_def call_return_def mark_terminating_def
          split: sum.splits prod.splits if_splits)
    then show ?thesis by (auto simp: comes_back_def deletion_pause_def second_def split: sum.splits)
  qed
qed

lemma reconcile_comes_back:
  assumes "queue_laws cached actual api nm" "never_exact api" "env_laws api"
    "cached s = Some env" "unfinished env" "Reconcile api nm s = (r, s1)"
  shows "comes_back r \<or> actual s1 \<noteq> Some env"
proof -
  obtain g s0 where g: "get_env api nm s = (g, s0)" by force
  then have c: "\<And>e. g = Inr e \<Longrightarrow> e = env" "g \<noteq> Inl ErrNotFound"
    using assms(1,4) unfolding queue_laws_def by fastforce+
  show ?thesis
  proof (cases g)
    case (Inl e)
    then show ?thesis using g c(2) assms(6) by (auto simp: Reconcile_def comes_back_def)
  next
    case (Inr e)
    with c(1) have e: "g = Inr env" by simp
    have nm: "EnvName env = nm" using assms(3) g e unfolding env_laws_def by (metis fst_conv)
    show ?thesis
    proof (cases "Deleting env")
      case True
      then have "reconcileDelete api env (namespace_of nm) s0 = (r, s1)"
        using assms(6) g e nm by (simp add: Reconcile_def)
      from delete_comes_back[OF assms(1) nm True assms(5) this] show ?thesis
        using assms(5) by (auto simp: gone_or_def)
    next
      case False
      then have "reconcileCreate api env (namespace_of nm) s0 = (r, s1)"
        using assms(6) g e nm by (simp add: Reconcile_def)
      from create_comes_back[OF assms(1-3) nm this] show ?thesis
        using False by (auto simp: gone_or_def)
    qed
  qed
qed

lemma watched_over_step:
  assumes "queue_laws cached actual api nm" "never_exact api" "env_laws api" "requeue_laws rq"
    "queue_step cached actual api rq nm e q = Some q1" "watched_over cached actual q"
  shows "watched_over cached actual q1"
proof (cases e)
  case (Outside s1)
  then have "queueWorld q1 = s1" "queued q1 = (queued q \<or> cached s1 \<noteq> cached (queueWorld q))"
    "waitingUntil q1 = waitingUntil q"
    "cached s1 = cached (queueWorld q) \<and> cached (queueWorld q) \<noteq> actual (queueWorld q) \<longrightarrow> cached s1 \<noteq> actual s1"
    using assms(5) by auto
  then show ?thesis using assms(6) by (auto simp: watched_over_def wake_pending_def)
next
  case (PodChanged m)
  then show ?thesis using assms(5,6) by (auto simp: watched_over_def wake_pending_def)
next
  case WaitOver
  then have "queued q1" using assms(5) by (simp split: option.splits)
  then show ?thesis by (simp add: watched_over_def wake_pending_def)
next
  case (Work pause)
  obtain r s1 where rec: "Reconcile api nm (queueWorld q) = (r, s1)" by force
  let ?q = "q\<lparr>queueWorld := s1, queued := (cached s1 \<noteq> cached (queueWorld q))\<rparr>"
  have q1: "q1 = rq (clock api s1) pause r ?q" using Work assms(5) rec by (simp split: if_splits)
  have world: "queueWorld q1 = s1" unfolding q1 using requeue_lawsD(1)[OF assms(4)] by simp
  show ?thesis unfolding watched_over_def
  proof (intro allI impI)
    fix env
    assume env: "cached (queueWorld q1) = Some env \<and> unfinished env"
    show "wake_pending cached actual q1"
    proof (cases "cached s1 = cached (queueWorld q)")
      case False
      then have "queued q1" unfolding q1 by (intro requeue_lawsD(2)[OF assms(4)]) simp
      then show ?thesis by (simp add: wake_pending_def)
    next
      case True
      then have c: "cached (queueWorld q) = Some env" "cached s1 = Some env" using env by (simp_all add: world)
      consider "comes_back r" | "actual s1 \<noteq> Some env"
        using reconcile_comes_back[OF assms(1-3) c(1) _ rec] env by blast
      then show ?thesis
      proof cases
        case 1
        then show ?thesis unfolding wake_pending_def q1 using requeue_lawsD(3)[OF assms(4)] by blast
      next
        case 2
        then show ?thesis using c(2) by (simp add: wake_pending_def world)
      qed
    qed
  qed
qed

text \<open>When the operator comes back to a lab it has provisioned: by the expiry, or in a second once that has passed.\<close>

lemma provision_wakes_by_expiry:
  assumes "provision api env ns s = (Inr res, s1)" "\<not> Requeue res"
  shows "\<exists>env0 s0 env1 t. update_status api env0 s0 = (Inr env1, s1) \<and> LabExpiresAt (Status env1) = Some t \<and>
    clock api s1 + RequeueAfter res \<le> max t (clock api s1 + second)"
proof -
  obtain env0 s0 where "finish_status api env0 s0 = (Inr res, s1)"
    using assms(1) by (auto simp: provision_def elim!: call_bind_InrE)
  then obtain env1 t where "update_status api env0 s0 = (Inr env1, s1)" "LabExpiresAt (Status env1) = Some t"
    "RequeueAfter res = (if t - clock api s1 < 0 then second else t - clock api s1)"
    using assms(2) by (auto simp: finish_status_def Let_def split: prod.splits sum.splits option.splits if_splits)
  then show ?thesis by (intro exI[of _ env0] exI[of _ s0] exI[of _ env1] exI[of _ t]) auto
qed

text \<open>Why \<open>never_exact\<close> is needed: on the nanosecond of the expiry the result is that of a lab that needs nothing.\<close>

lemma exact_expiry_not_requeued:
  assumes "update_status api env s = (Inr env1, s1)" "LabExpiresAt (Status env1) = Some (clock api s1)"
  shows "finish_status api env s = (Inr no_requeue, s1)"
  using assms by (simp add: finish_status_def no_requeue_def)


text \<open>A delaying queue with one entry, for the earliest of the times asked for.\<close>

definition add_after :: "int \<Rightarrow> int \<Rightarrow> 's lab_queue \<Rightarrow> 's lab_queue" where
  "add_after now d q =
     (if d \<le> 0 then q\<lparr>queued := True\<rparr>
      else q\<lparr>waitingUntil := Some (case waitingUntil q of None \<Rightarrow> now + d | Some t \<Rightarrow> min t (now + d))\<rparr>)"

definition requeue :: "int \<Rightarrow> int \<Rightarrow> 'err + reconcile_result \<Rightarrow> 's lab_queue \<Rightarrow> 's lab_queue" where
  "requeue now pause r q =
     (case r of
        Inl e \<Rightarrow> add_after now pause q
      | Inr res \<Rightarrow>
          if RequeueAfter res > 0 then add_after now (RequeueAfter res) q
          else if Requeue res then add_after now pause q else q)"

lemma add_after_pending: "queued (add_after now d q) \<or> waitingUntil (add_after now d q) \<noteq> None"
  by (simp add: add_after_def)

lemma add_after_keeps [simp]:
  "queueWorld (add_after now d q) = queueWorld q" "queued q \<Longrightarrow> queued (add_after now d q)"
  by (simp_all add: add_after_def)

lemma requeue_keeps [simp]:
  "queueWorld (requeue now pause r q) = queueWorld q" "queued q \<Longrightarrow> queued (requeue now pause r q)"
  by (simp_all add: requeue_def split: sum.split)

lemma requeue_pending:
  "comes_back r \<Longrightarrow> queued (requeue now pause r q) \<or> waitingUntil (requeue now pause r q) \<noteq> None"
  using add_after_pending by (fastforce simp: requeue_def comes_back_def split: sum.splits)

lemma requeue_meets_laws: "requeue_laws requeue"
  using requeue_pending by (simp add: requeue_laws_def) blast

text \<open>
  The server on a map, which keeps times in whole seconds as \<open>metav1.Time\<close> does, read at an odd
  nanosecond, with a lab that is being deleted.
\<close>

definition whole_seconds :: "labenv \<Rightarrow> labenv" where
  "whole_seconds env = env\<lparr>Status := (Status env)
     \<lparr>LabExpiresAt := map_option (\<lambda>t. t div second * second) (LabExpiresAt (Status env))\<rparr>\<rparr>"

definition second_api :: "(map_state, unit) api" where
  "second_api = map_api\<lparr>clock := (\<lambda>_. 1),
     update_status := (\<lambda>env (e, m). (Inr (whole_seconds env), (Some (whole_seconds env), m)))\<rparr>"

definition doomed_lab :: labenv where
  "doomed_lab = demo_lab\<lparr>Deleting := True, Finalizers := [finalizerName],
     Status := (Status demo_lab)\<lparr>Phase := phaseTerminating\<rparr>\<rparr>"

definition lab_named :: "string \<Rightarrow> map_state \<Rightarrow> labenv option" where
  "lab_named nm s = (case fst s of None \<Rightarrow> None | Some env \<Rightarrow> if EnvName env = nm then Some env else None)"

lemma second_api_laws: "queue_laws (lab_named nm) (lab_named nm) second_api nm" "never_exact second_api" "env_laws second_api"
proof -
  have "t div second * second \<noteq> 1" for t :: int
  proof
    assume "t div second * second = 1"
    then have "second dvd 1" by (metis dvd_triv_right)
    then show False by (simp add: second_def)
  qed
  then show "never_exact second_api"
    by (auto simp: never_exact_def second_api_def whole_seconds_def map_api_def)
  show "queue_laws (lab_named nm) (lab_named nm) second_api nm" "env_laws second_api"
    by (auto simp: lab_named_def queue_laws_def env_laws_def second_api_def map_api_def gone_or_def split: option.splits if_splits)
qed


end
