(* ===== verification/DeepCopy.thy ===== *)
theory DeepCopy
  imports Kube
begin

text \<open>
  \<open>services/labenv-operator/api/v1alpha1/zz_generated.deepcopy.go\<close>: the copies that keep the objects
  of the client's cache apart from those the operator changes. Slices and pointers are addresses in a
  store here, so that sharing can be expressed; a struct is a record whose slices are addresses, nil
  being \<open>None\<close>. Every copy function satisfies the contract \<open>deep_copy\<close>, which the functions for
  structs get from those for their fields. The deep copies of apimachinery's own types are
  parameters.
\<close>

section \<open>The store\<close>

type_synonym addr = nat

record h_asset =
  haName :: string
  haImage :: string
  haCPU :: string
  haMemory :: string
  haDisk :: string
  haProtocols :: "addr option"
  haSetup :: string

record h_asset_status =
  hsName :: string
  hsPhase :: string
  hsReason :: string
  hsReady :: bool
  hsAddress :: string
  hsProtocols :: "addr option"

record h_spec =
  hOwnerId :: string
  hOwnerName :: string
  hLabId :: string
  hTTL :: int
  hAssets :: "addr option"
  hExercises :: "addr option"

record h_status =
  hConditions :: "addr option"
  hPhase :: string
  hNamespace :: string
  hExpiresAt :: "addr option"
  hTotalAssets :: nat
  hReadyAssets :: nat
  hReady :: string
  hStatusAssets :: "addr option"

record 'm h_env =
  hMeta :: 'm
  hSpec :: h_spec
  hStatus :: h_status

text \<open>What an address can hold; \<open>'m\<close> is the metadata of an object, and \<open>'c\<close> what it points to.\<close>

datatype ('m, 'c) cell =
    StringArray "string list"
  | AssetArray "h_asset list"
  | ExerciseArray "lab_exercise list"
  | ConditionArray "lab_condition list"
  | TimeCell int
  | StatusArray "h_asset_status list"
  | EnvArray "'m h_env list"
  | Foreign 'c

record ('m, 'c) store =
  mem :: "addr \<rightharpoonup> ('m, 'c) cell"
  fresh :: addr

definition store_ok :: "('m, 'c) store \<Rightarrow> bool" where
  "store_ok s \<longleftrightarrow> (\<forall>a. fresh s \<le> a \<longrightarrow> mem s a = None)"

definition alloc :: "('m, 'c) cell \<Rightarrow> ('m, 'c) store \<Rightarrow> addr \<times> ('m, 'c) store" where
  "alloc c s = (fresh s, s\<lparr>mem := (mem s)(fresh s \<mapsto> c), fresh := Suc (fresh s)\<rparr>)"

definition write_cell :: "addr \<Rightarrow> ('m, 'c) cell \<Rightarrow> ('m, 'c) store \<Rightarrow> ('m, 'c) store" where
  "write_cell a c s = s\<lparr>mem := (mem s)(a \<mapsto> c)\<rparr>"

definition extends :: "('m, 'c) store \<Rightarrow> ('m, 'c) store \<Rightarrow> bool" where
  "extends s s1 \<longleftrightarrow> fresh s \<le> fresh s1 \<and> (\<forall>a < fresh s. mem s1 a = mem s a)"

lemma extends_refl [simp]: "extends s s"
  by (simp add: extends_def)

lemma extends_trans: "extends s s1 \<Longrightarrow> extends s1 s2 \<Longrightarrow> extends s s2"
  by (auto simp: extends_def)

section \<open>The contract of a deep copy\<close>

text \<open>
  \<open>read\<close> is the value a struct stands for, if its addresses are allocated, and \<open>addrs\<close> the addresses
  it depends on. A copy has the same value, depends on new addresses only, and leaves what was there.
\<close>

locale deep_copy =
  fixes read :: "('m, 'c) store \<Rightarrow> 'h \<Rightarrow> 'v option"
    and addrs :: "('m, 'c) store \<Rightarrow> 'h \<Rightarrow> addr set"
    and copy :: "'h \<Rightarrow> ('m, 'c) store \<Rightarrow> 'h \<times> ('m, 'c) store"
  assumes read_frame: "read s x = Some v \<Longrightarrow> (\<And>a. a \<in> addrs s x \<Longrightarrow> mem s1 a = mem s a) \<Longrightarrow>
      read s1 x = Some v \<and> addrs s1 x = addrs s x"
    and read_allocated: "store_ok s \<Longrightarrow> read s x = Some v \<Longrightarrow> a \<in> addrs s x \<Longrightarrow> a < fresh s"
    and copy_result: "store_ok s \<Longrightarrow> read s x = Some v \<Longrightarrow> copy x s = (y, s1) \<Longrightarrow>
      extends s s1 \<and> store_ok s1 \<and> read s1 y = Some v \<and> (\<forall>a \<in> addrs s1 y. fresh s \<le> a)"
begin

lemma read_extends:
  assumes "store_ok s" "read s x = Some v" "extends s s1"
  shows "read s1 x = Some v \<and> addrs s1 x = addrs s x"
  by (rule read_frame[OF assms(2)]) (use assms(3) read_allocated[OF assms(1,2)] in \<open>auto simp: extends_def\<close>)

text \<open>Writing through the copy does not reach the original, nor the other way round.\<close>

lemma copy_independent:
  assumes "store_ok s" "read s x = Some v" "copy x s = (y, s1)"
  shows "a \<in> addrs s1 y \<Longrightarrow> read (write_cell a c s1) x = Some v"
    "a \<in> addrs s1 x \<Longrightarrow> read (write_cell a c s1) y = Some v"
proof -
  have r: "extends s s1" "store_ok s1" "read s1 y = Some v" "\<And>b. b \<in> addrs s1 y \<Longrightarrow> fresh s \<le> b"
    using copy_result[OF assms] by auto
  have x: "read s1 x = Some v" "addrs s1 x = addrs s x" using read_extends[OF assms(1,2) r(1)] by auto
  have old: "b < fresh s" if "b \<in> addrs s1 x" for b
    using that x(2) read_allocated[OF assms(1,2)] by auto
  show "read (write_cell a c s1) x = Some v" if "a \<in> addrs s1 y"
  proof (rule read_frame[OF x(1), THEN conjunct1])
    fix b
    assume "b \<in> addrs s1 x"
    then have "b \<noteq> a" using old[of b] r(4)[OF that] by auto
    then show "mem (write_cell a c s1) b = mem s1 b" by (simp add: write_cell_def)
  qed
  show "read (write_cell a c s1) y = Some v" if "a \<in> addrs s1 x"
  proof (rule read_frame[OF r(3), THEN conjunct1])
    fix b
    assume "b \<in> addrs s1 y"
    then have "b \<noteq> a" using old[OF that] r(4)[of b] by auto
    then show "mem (write_cell a c s1) b = mem s1 b" by (simp add: write_cell_def)
  qed
qed

end

text \<open>Plain values: strings, exercises, and apimachinery's conditions, which hold no references.\<close>

definition plain_read :: "('m, 'c) store \<Rightarrow> 'v \<Rightarrow> 'v option" where
  "plain_read s x = Some x"

definition plain_addrs :: "('m, 'c) store \<Rightarrow> 'v \<Rightarrow> addr set" where
  "plain_addrs s x = {}"

definition plain_copy :: "'v \<Rightarrow> ('m, 'c) store \<Rightarrow> 'v \<times> ('m, 'c) store" where
  "plain_copy x s = (x, s)"

lemma plain_deep_copy: "deep_copy plain_read plain_addrs plain_copy"
  by unfold_locales (auto simp: plain_read_def plain_addrs_def plain_copy_def)

section \<open>Slices\<close>

text \<open>The loop over the elements of a slice.\<close>

fun copy_list :: "('h \<Rightarrow> ('m, 'c) store \<Rightarrow> 'h \<times> ('m, 'c) store) \<Rightarrow> 'h list \<Rightarrow> ('m, 'c) store \<Rightarrow>
    'h list \<times> ('m, 'c) store" where
  "copy_list cp [] s = ([], s)"
| "copy_list cp (x # xs) s =
     (case cp x s of (y, s1) \<Rightarrow> (case copy_list cp xs s1 of (ys, s2) \<Rightarrow> (y # ys, s2)))"

text \<open>
  \<open>*out = make([]T, len(*in))\<close> and the copying of the elements. \<open>arr\<close> and \<open>elems\<close> make and read the
  cell of an array of \<open>T\<close>; the array is filled in when all its elements are copied, before anything
  else can know its address.
\<close>

definition elements :: "(('m, 'c) cell \<Rightarrow> 'h list option) \<Rightarrow> ('m, 'c) store \<Rightarrow> addr \<Rightarrow> 'h list option" where
  "elements elems s a = Option.bind (mem s a) elems"

definition copy_slice ::
  "('h list \<Rightarrow> ('m, 'c) cell) \<Rightarrow> (('m, 'c) cell \<Rightarrow> 'h list option) \<Rightarrow> 'h \<Rightarrow>
     ('h \<Rightarrow> ('m, 'c) store \<Rightarrow> 'h \<times> ('m, 'c) store) \<Rightarrow> addr option \<Rightarrow> ('m, 'c) store \<Rightarrow>
     addr option \<times> ('m, 'c) store" where
  "copy_slice arr elems zero cp p s =
     (case p of
        None \<Rightarrow> (None, s)
      | Some a \<Rightarrow>
         (case elements elems s a of
            None \<Rightarrow> (Some a, s)
          | Some xs \<Rightarrow>
             (case alloc (arr (replicate (length xs) zero)) s of
                (b, s1) \<Rightarrow> (case copy_list cp xs s1 of (ys, s2) \<Rightarrow> (Some b, write_cell b (arr ys) s2)))))"

definition read_list :: "('h \<Rightarrow> 'v option) \<Rightarrow> 'h list \<Rightarrow> 'v list option" where
  "read_list rd xs = those (map rd xs)"

definition read_slice ::
  "(('m, 'c) cell \<Rightarrow> 'h list option) \<Rightarrow> (('m, 'c) store \<Rightarrow> 'h \<Rightarrow> 'v option) \<Rightarrow>
     ('m, 'c) store \<Rightarrow> addr option \<Rightarrow> 'v list option" where
  "read_slice elems rd s p =
     (case p of None \<Rightarrow> Some [] | Some a \<Rightarrow> Option.bind (elements elems s a) (read_list (rd s)))"

definition slice_addrs ::
  "(('m, 'c) cell \<Rightarrow> 'h list option) \<Rightarrow> (('m, 'c) store \<Rightarrow> 'h \<Rightarrow> addr set) \<Rightarrow>
     ('m, 'c) store \<Rightarrow> addr option \<Rightarrow> addr set" where
  "slice_addrs elems ad s p =
     (case p of
        None \<Rightarrow> {}
      | Some a \<Rightarrow> insert a (case elements elems s a of None \<Rightarrow> {} | Some xs \<Rightarrow> \<Union> (ad s ` set xs)))"

lemma read_list_simps [simp]:
  "read_list rd [] = Some []"
  "read_list rd (x # xs) = Some vs \<longleftrightarrow> (\<exists>v ws. rd x = Some v \<and> read_list rd xs = Some ws \<and> vs = v # ws)"
  by (auto simp: read_list_def split: option.splits)

lemma read_list_mem: "read_list rd xs = Some vs \<Longrightarrow> x \<in> set xs \<Longrightarrow> \<exists>v. rd x = Some v"
  by (induction xs arbitrary: vs) auto

lemma read_list_cong:
  "read_list rd xs = Some vs \<Longrightarrow> (\<And>x v. x \<in> set xs \<Longrightarrow> rd x = Some v \<Longrightarrow> rd1 x = Some v) \<Longrightarrow>
     read_list rd1 xs = Some vs"
  by (induction xs arbitrary: vs) auto

locale deep_copy_slice = deep_copy read addrs copy
  for read :: "('m, 'c) store \<Rightarrow> 'h \<Rightarrow> 'v option"
    and addrs :: "('m, 'c) store \<Rightarrow> 'h \<Rightarrow> addr set"
    and copy :: "'h \<Rightarrow> ('m, 'c) store \<Rightarrow> 'h \<times> ('m, 'c) store" +
  fixes arr :: "'h list \<Rightarrow> ('m, 'c) cell"
    and elems :: "('m, 'c) cell \<Rightarrow> 'h list option"
    and zero :: 'h
  assumes elems_arr: "elems (arr xs) = Some xs"
begin

lemma read_list_extends:
  assumes "store_ok s" "read_list (read s) xs = Some vs" "extends s s1"
  shows "read_list (read s1) xs = Some vs"
  by (rule read_list_cong[OF assms(2)]) (use read_extends[OF assms(1) _ assms(3)] in blast)

lemma copy_list_result:
  "store_ok s \<Longrightarrow> read_list (read s) xs = Some vs \<Longrightarrow> copy_list copy xs s = (ys, s1) \<Longrightarrow>
     extends s s1 \<and> store_ok s1 \<and> read_list (read s1) ys = Some vs \<and>
     (\<forall>y \<in> set ys. \<forall>a \<in> addrs s1 y. fresh s \<le> a)"
proof (induction xs arbitrary: s vs ys)
  case (Cons x xs)
  obtain v ws where v: "read s x = Some v" "read_list (read s) xs = Some ws" "vs = v # ws"
    using Cons.prems(2) by auto
  obtain y sa where y: "copy x s = (y, sa)" by force
  obtain zs where zs: "copy_list copy xs sa = (zs, s1)" "ys = y # zs"
    using Cons.prems(3) y by (auto split: prod.splits)
  have c: "extends s sa" "store_ok sa" "read sa y = Some v" "\<forall>a \<in> addrs sa y. fresh s \<le> a"
    using copy_result[OF Cons.prems(1) v(1) y] by auto
  have l: "extends sa s1" "store_ok s1" "read_list (read s1) zs = Some ws"
    "\<forall>y \<in> set zs. \<forall>a \<in> addrs s1 y. fresh sa \<le> a"
    using Cons.IH[OF c(2) read_list_extends[OF Cons.prems(1) v(2) c(1)] zs(1)] by auto
  have "read s1 y = Some v" "addrs s1 y = addrs sa y" using read_extends[OF c(2,3) l(1)] by auto
  moreover have "fresh s \<le> fresh sa" using c(1) by (simp add: extends_def)
  ultimately show ?case using c l v(3) zs(2) extends_trans[OF c(1) l(1)] by fastforce
qed simp

lemma slice_copy_result:
  assumes "store_ok s" "read_slice elems read s p = Some vs" "copy_slice arr elems zero copy p s = (q, s1)"
  shows "extends s s1 \<and> store_ok s1 \<and> read_slice elems read s1 q = Some vs \<and>
    (\<forall>a \<in> slice_addrs elems addrs s1 q. fresh s \<le> a)"
proof (cases p)
  case None
  with assms show ?thesis by (simp add: read_slice_def copy_slice_def slice_addrs_def)
next
  case (Some a)
  obtain xs where xs: "elements elems s a = Some xs" "read_list (read s) xs = Some vs"
    using assms(2) Some by (cases "elements elems s a") (auto simp: read_slice_def)
  let ?b = "fresh s" and ?c = "arr (replicate (length xs) zero)"
  let ?s = "s\<lparr>mem := (mem s)(?b \<mapsto> ?c), fresh := Suc ?b\<rparr>"
  obtain ys s2 where ys: "copy_list copy xs ?s = (ys, s2)" by force
  have al: "extends s ?s" "store_ok ?s" using assms(1) by (auto simp: extends_def store_ok_def)
  have cl: "extends ?s s2" "store_ok s2" "read_list (read s2) ys = Some vs"
    "\<forall>y \<in> set ys. \<forall>a \<in> addrs s2 y. Suc ?b \<le> a"
    using copy_list_result[OF al(2) read_list_extends[OF assms(1) xs(2) al(1)] ys] by auto
  have q: "q = Some ?b" "s1 = write_cell ?b (arr ys) s2"
    using assms(3) Some xs(1) ys by (simp_all add: copy_slice_def alloc_def)
  have ext: "extends s s1" "store_ok s1"
    using extends_trans[OF al(1) cl(1)] cl(1,2) q(2) by (auto simp: extends_def store_ok_def write_cell_def)
  have same: "read s1 y = Some v \<and> addrs s1 y = addrs s2 y" if "y \<in> set ys" "read s2 y = Some v" for y v
    by (rule read_frame[OF that(2)]) (use cl(4) that(1) q(2) in \<open>fastforce simp: write_cell_def\<close>)
  have "read_list (read s1) ys = Some vs" by (rule read_list_cong[OF cl(3)]) (use same in blast)
  moreover have el: "elements elems s1 ?b = Some ys" using q(2) by (simp add: elements_def write_cell_def elems_arr)
  moreover have "addrs s1 y = addrs s2 y" if "y \<in> set ys" for y
    using read_list_mem[OF cl(3) that] same[OF that] by auto
  ultimately have "read_slice elems read s1 q = Some vs"
    "slice_addrs elems addrs s1 q = insert ?b (\<Union> (addrs s2 ` set ys))"
    using q(1) by (simp_all add: read_slice_def slice_addrs_def)
  moreover have "\<forall>a \<in> insert ?b (\<Union> (addrs s2 ` set ys)). ?b \<le> a"
    using cl(4) Suc_leD by (simp, blast)
  ultimately show ?thesis using ext by simp
qed

lemma slice_deep_copy:
  "deep_copy (read_slice elems read) (slice_addrs elems addrs) (copy_slice arr elems zero copy)"
proof
  fix s s1 :: "('m, 'c) store" and p :: "addr option" and vs
  assume r: "read_slice elems read s p = Some vs" and eq: "\<And>a. a \<in> slice_addrs elems addrs s p \<Longrightarrow> mem s1 a = mem s a"
  show "read_slice elems read s1 p = Some vs \<and> slice_addrs elems addrs s1 p = slice_addrs elems addrs s p"
  proof (cases p)
    case None
    with r show ?thesis by (simp add: read_slice_def slice_addrs_def)
  next
    case (Some a)
    obtain xs where xs: "elements elems s a = Some xs" "read_list (read s) xs = Some vs"
      using r Some by (cases "elements elems s a") (auto simp: read_slice_def)
    have el: "elements elems s1 a = Some xs" using eq[of a] Some xs(1) by (simp add: slice_addrs_def elements_def)
    have same: "read s1 x = Some v \<and> addrs s1 x = addrs s x" if "x \<in> set xs" "read s x = Some v" for x v
      by (rule read_frame[OF that(2)]) (use eq Some xs(1) that(1) in \<open>auto simp: slice_addrs_def\<close>)
    have "read_list (read s1) xs = Some vs" by (rule read_list_cong[OF xs(2)]) (use same in blast)
    moreover have "addrs s1 x = addrs s x" if "x \<in> set xs" for x
      using read_list_mem[OF xs(2) that] same[OF that] by auto
    ultimately show ?thesis using Some xs(1) el by (simp add: read_slice_def slice_addrs_def)
  qed
next
  fix s and p :: "addr option" and vs a
  assume ok: "store_ok s" and r: "read_slice elems read s p = Some vs" and a: "a \<in> slice_addrs elems addrs s p"
  show "a < fresh s"
  proof (cases p)
    case None
    with a show ?thesis by (simp add: slice_addrs_def)
  next
    case (Some b)
    obtain xs where xs: "elements elems s b = Some xs" "read_list (read s) xs = Some vs"
      using r Some by (cases "elements elems s b") (auto simp: read_slice_def)
    have "b < fresh s" using ok xs(1) by (fastforce simp: store_ok_def elements_def not_le[symmetric])
    moreover have "a < fresh s" if "x \<in> set xs" "a \<in> addrs s x" for x
      using read_list_mem[OF xs(2) that(1)] read_allocated[OF ok] that(2) by blast
    ultimately show ?thesis using a Some xs(1) by (auto simp: slice_addrs_def)
  qed
next
  fix s p vs q s1
  assume "store_ok s" "read_slice elems read s p = Some vs" "copy_slice arr elems zero copy p s = (q, s1)"
  then show "extends s s1 \<and> store_ok s1 \<and> read_slice elems read s1 q = Some vs \<and>
      (\<forall>a \<in> slice_addrs elems addrs s1 q. fresh s \<le> a)"
    by (rule slice_copy_result)
qed

end

sublocale deep_copy_slice \<subseteq> slice: deep_copy "read_slice elems read" "slice_addrs elems addrs"
  "copy_slice arr elems zero copy"
  by (rule slice_deep_copy)

section \<open>Structs from their fields\<close>

lemma deep_copyI:
  assumes "\<And>s x v s1. read s x = Some v \<Longrightarrow> (\<And>a. a \<in> addrs s x \<Longrightarrow> mem s1 a = mem s a) \<Longrightarrow>
      read s1 x = Some v \<and> addrs s1 x = addrs s x"
    "\<And>s x v a. store_ok s \<Longrightarrow> read s x = Some v \<Longrightarrow> a \<in> addrs s x \<Longrightarrow> a < fresh s"
    "\<And>s x v y s1. store_ok s \<Longrightarrow> read s x = Some v \<Longrightarrow> copy x s = (y, s1) \<Longrightarrow>
      extends s s1 \<and> store_ok s1 \<and> read s1 y = Some v \<and> (\<forall>a \<in> addrs s1 y. fresh s \<le> a)"
  shows "deep_copy read addrs copy"
  using assms unfolding deep_copy_def by blast

text \<open>Two fields, copied one after the other.\<close>

definition read_pair where
  "read_pair r1 r2 s p = (case r1 s (fst p) of
     None \<Rightarrow> None | Some v \<Rightarrow> (case r2 s (snd p) of None \<Rightarrow> None | Some w \<Rightarrow> Some (v, w)))"

definition pair_addrs where
  "pair_addrs a1 a2 s p = a1 s (fst p) \<union> a2 s (snd p)"

definition copy_pair where
  "copy_pair c1 c2 p s = (case c1 (fst p) s of (x, s1) \<Rightarrow> (case c2 (snd p) s1 of (y, s2) \<Rightarrow> ((x, y), s2)))"

lemma read_pair_Some:
  "read_pair r1 r2 s p = Some vw \<longleftrightarrow> r1 s (fst p) = Some (fst vw) \<and> r2 s (snd p) = Some (snd vw)"
  by (cases vw) (auto simp: read_pair_def split: option.splits)

lemma pair_deep_copy:
  fixes r1 :: "('m, 'c) store \<Rightarrow> 'h \<Rightarrow> 'v option"
  assumes "deep_copy r1 a1 c1" "deep_copy r2 a2 c2"
  shows "deep_copy (read_pair r1 r2) (pair_addrs a1 a2) (copy_pair c1 c2)"
proof (rule deep_copyI)
  fix s s1 :: "('m, 'c) store" and p vw
  assume r: "read_pair r1 r2 s p = Some vw" and eq: "\<And>a. a \<in> pair_addrs a1 a2 s p \<Longrightarrow> mem s1 a = mem s a"
  have "r1 s1 (fst p) = Some (fst vw) \<and> a1 s1 (fst p) = a1 s (fst p)"
    by (rule deep_copy.read_frame[OF assms(1)]) (use r eq in \<open>auto simp: read_pair_Some pair_addrs_def\<close>)
  moreover have "r2 s1 (snd p) = Some (snd vw) \<and> a2 s1 (snd p) = a2 s (snd p)"
    by (rule deep_copy.read_frame[OF assms(2)]) (use r eq in \<open>auto simp: read_pair_Some pair_addrs_def\<close>)
  ultimately show "read_pair r1 r2 s1 p = Some vw \<and> pair_addrs a1 a2 s1 p = pair_addrs a1 a2 s p"
    by (simp add: read_pair_Some pair_addrs_def)
next
  fix s p vw a
  assume "store_ok s" "read_pair r1 r2 s p = Some vw" "a \<in> pair_addrs a1 a2 s p"
  then show "a < fresh s"
    using deep_copy.read_allocated[OF assms(1)] deep_copy.read_allocated[OF assms(2)]
    by (auto simp: read_pair_Some pair_addrs_def)
next
  fix s p vw q s2
  assume ok: "store_ok s" and r: "read_pair r1 r2 s p = Some vw" and c: "copy_pair c1 c2 p s = (q, s2)"
  obtain x s1 where x: "c1 (fst p) s = (x, s1)" by force
  obtain y where y: "c2 (snd p) s1 = (y, s2)" "q = (x, y)"
    using c x by (auto simp: copy_pair_def split: prod.splits)
  have r12: "r1 s (fst p) = Some (fst vw)" "r2 s (snd p) = Some (snd vw)" using r by (simp_all add: read_pair_Some)
  have c1: "extends s s1" "store_ok s1" "r1 s1 x = Some (fst vw)" "\<forall>a \<in> a1 s1 x. fresh s \<le> a"
    using deep_copy.copy_result[OF assms(1) ok r12(1) x] by auto
  have r2: "r2 s1 (snd p) = Some (snd vw)" using deep_copy.read_extends[OF assms(2) ok r12(2) c1(1)] by blast
  have c2: "extends s1 s2" "store_ok s2" "r2 s2 y = Some (snd vw)" "\<forall>a \<in> a2 s2 y. fresh s1 \<le> a"
    using deep_copy.copy_result[OF assms(2) c1(2) r2 y(1)] by auto
  have x2: "r1 s2 x = Some (fst vw)" "a1 s2 x = a1 s1 x"
    using deep_copy.read_extends[OF assms(1) c1(2,3) c2(1)] by auto
  have "fresh s \<le> fresh s1" using c1(1) by (simp add: extends_def)
  then show "extends s s2 \<and> store_ok s2 \<and> read_pair r1 r2 s2 q = Some vw \<and>
      (\<forall>a \<in> pair_addrs a1 a2 s2 q. fresh s \<le> a)"
    using extends_trans[OF c1(1) c2(1)] c1(4) c2(2-4) x2 y(2)
    by (auto simp: read_pair_Some pair_addrs_def intro: order_trans)
qed

text \<open>\<open>*out = *in\<close>, then the fields that hold references: \<open>get\<close> and \<open>put\<close> are these, \<open>mk\<close> the value.\<close>

lemma struct_deep_copy:
  fixes r :: "('m, 'c) store \<Rightarrow> 'h \<Rightarrow> 'v option"
  assumes f: "deep_copy r a c" and gp: "\<And>y x. get (put y x) = y" and mk: "\<And>y x. mk (put y x) = mk x"
  shows "deep_copy (\<lambda>s x. map_option (mk x) (r s (get x))) (\<lambda>s x. a s (get x))
    (\<lambda>x s. case c (get x) s of (y, s1) \<Rightarrow> (put y x, s1))"
proof (rule deep_copyI)
  fix s s1 :: "('m, 'c) store" and x v
  assume "map_option (mk x) (r s (get x)) = Some v" "\<And>b. b \<in> a s (get x) \<Longrightarrow> mem s1 b = mem s b"
  then show "map_option (mk x) (r s1 (get x)) = Some v \<and> a s1 (get x) = a s (get x)"
    using deep_copy.read_frame[OF f, of s "get x" _ s1] by auto
next
  fix s x v b
  assume "store_ok s" "map_option (mk x) (r s (get x)) = Some v" "b \<in> a s (get x)"
  then show "b < fresh s" using deep_copy.read_allocated[OF f] by auto
next
  fix s x v y s1
  assume ok: "store_ok s" and "map_option (mk x) (r s (get x)) = Some v"
    and "(case c (get x) s of (y, s1) \<Rightarrow> (put y x, s1)) = (y, s1)"
  then obtain w z where "r s (get x) = Some w" "v = mk x w" "c (get x) s = (z, s1)" "y = put z x"
    by (auto split: prod.splits)
  then show "extends s s1 \<and> store_ok s1 \<and> map_option (mk y) (r s1 (get y)) = Some v \<and> (\<forall>b \<in> a s1 (get y). fresh s \<le> b)"
    using deep_copy.copy_result[OF f ok, of "get x" w z s1] by (simp add: gp mk)
qed

section \<open>The generated functions\<close>

text \<open>The arrays of each element type.\<close>

definition as_strings where "as_strings c = (case c of StringArray xs \<Rightarrow> Some xs | _ \<Rightarrow> None)"
definition as_assets where "as_assets c = (case c of AssetArray xs \<Rightarrow> Some xs | _ \<Rightarrow> None)"
definition as_exercises where "as_exercises c = (case c of ExerciseArray xs \<Rightarrow> Some xs | _ \<Rightarrow> None)"
definition as_conditions where "as_conditions c = (case c of ConditionArray xs \<Rightarrow> Some xs | _ \<Rightarrow> None)"
definition as_statuses where "as_statuses c = (case c of StatusArray xs \<Rightarrow> Some xs | _ \<Rightarrow> None)"
definition as_envs where "as_envs c = (case c of EnvArray xs \<Rightarrow> Some xs | _ \<Rightarrow> None)"

lemma as_array_simps [simp]:
  "as_strings (StringArray xs) = Some xs" "as_assets (AssetArray hs) = Some hs" "as_exercises (ExerciseArray es) = Some es"
  "as_conditions (ConditionArray cs) = Some cs" "as_statuses (StatusArray ss) = Some ss" "as_envs (EnvArray ev) = Some ev"
  by (simp_all add: as_strings_def as_assets_def as_exercises_def as_conditions_def as_statuses_def as_envs_def)

abbreviation copy_strings :: "addr option \<Rightarrow> ('m, 'c) store \<Rightarrow> addr option \<times> ('m, 'c) store" where
  "copy_strings \<equiv> copy_slice StringArray as_strings [] plain_copy"

definition zero_h_asset :: h_asset where
  "zero_h_asset = \<lparr>haName = [], haImage = [], haCPU = [], haMemory = [], haDisk = [], haProtocols = None, haSetup = []\<rparr>"

definition zero_h_status :: h_asset_status where
  "zero_h_status = \<lparr>hsName = [], hsPhase = [], hsReason = [], hsReady = False, hsAddress = [], hsProtocols = None\<rparr>"

definition zero_condition :: lab_condition where
  "zero_condition = \<lparr>CondType = [], CondStatus = False, CondReason = [], CondMessage = []\<rparr>"

definition copy_asset :: "h_asset \<Rightarrow> ('m, 'c) store \<Rightarrow> h_asset \<times> ('m, 'c) store" where
  "copy_asset x s = (case copy_strings (haProtocols x) s of (p, s1) \<Rightarrow> (x\<lparr>haProtocols := p\<rparr>, s1))"

definition copy_asset_status :: "h_asset_status \<Rightarrow> ('m, 'c) store \<Rightarrow> h_asset_status \<times> ('m, 'c) store" where
  "copy_asset_status x s = (case copy_strings (hsProtocols x) s of (p, s1) \<Rightarrow> (x\<lparr>hsProtocols := p\<rparr>, s1))"

definition copy_exercise :: "lab_exercise \<Rightarrow> ('m, 'c) store \<Rightarrow> lab_exercise \<times> ('m, 'c) store" where
  "copy_exercise = plain_copy"

definition copy_spec :: "h_spec \<Rightarrow> ('m, 'c) store \<Rightarrow> h_spec \<times> ('m, 'c) store" where
  "copy_spec x s =
     (case copy_slice AssetArray as_assets zero_h_asset copy_asset (hAssets x) s of
        (p, s1) \<Rightarrow>
          (case copy_slice ExerciseArray as_exercises zero_lab_exercise plain_copy (hExercises x) s1 of
             (q, s2) \<Rightarrow> (x\<lparr>hAssets := p, hExercises := q\<rparr>, s2)))"

text \<open>\<open>(*in).DeepCopy()\<close> of a \<open>metav1.Time\<close>: a new one, if there is one.\<close>

definition copy_time :: "addr option \<Rightarrow> ('m, 'c) store \<Rightarrow> addr option \<times> ('m, 'c) store" where
  "copy_time p s =
     (case p of
        None \<Rightarrow> (None, s)
      | Some a \<Rightarrow> (case mem s a of Some c \<Rightarrow> (case alloc c s of (b, s1) \<Rightarrow> (Some b, s1)) | None \<Rightarrow> (p, s)))"

definition copy_status :: "h_status \<Rightarrow> ('m, 'c) store \<Rightarrow> h_status \<times> ('m, 'c) store" where
  "copy_status x s =
     (case copy_slice ConditionArray as_conditions zero_condition plain_copy (hConditions x) s of
        (p, s1) \<Rightarrow>
          (case copy_time (hExpiresAt x) s1 of
             (t, s2) \<Rightarrow>
               (case copy_slice StatusArray as_statuses zero_h_status copy_asset_status (hStatusAssets x) s2 of
                  (q, s3) \<Rightarrow> (x\<lparr>hConditions := p, hExpiresAt := t, hStatusAssets := q\<rparr>, s3))))"

text \<open>\<open>copy_meta\<close> is \<open>ObjectMeta.DeepCopyInto\<close>; the rest of the metadata is plain.\<close>

definition copy_env ::
  "('m \<Rightarrow> ('m, 'c) store \<Rightarrow> 'm \<times> ('m, 'c) store) \<Rightarrow> 'm h_env \<Rightarrow> ('m, 'c) store \<Rightarrow> 'm h_env \<times> ('m, 'c) store" where
  "copy_env copy_meta x s =
     (case copy_meta (hMeta x) s of
        (m, s1) \<Rightarrow>
          (case copy_spec (hSpec x) s1 of
             (sp, s2) \<Rightarrow>
               (case copy_status (hStatus x) s2 of
                  (st, s3) \<Rightarrow> (x\<lparr>hMeta := m, hSpec := sp, hStatus := st\<rparr>, s3))))"

definition copy_envs ::
  "('m \<Rightarrow> ('m, 'c) store \<Rightarrow> 'm \<times> ('m, 'c) store) \<Rightarrow> 'm h_env \<Rightarrow> 'l \<times> addr option \<Rightarrow> ('m, 'c) store \<Rightarrow>
     ('l \<times> addr option) \<times> ('m, 'c) store" where
  "copy_envs copy_meta zero x s =
     (case copy_slice EnvArray as_envs zero (copy_env copy_meta) (snd x) s of (p, s1) \<Rightarrow> ((fst x, p), s1))"

text \<open>\<open>DeepCopy\<close>: nil for nil, else a new struct copied into.\<close>

definition deep_copy_pointer :: "('h \<Rightarrow> ('m, 'c) store \<Rightarrow> 'h \<times> ('m, 'c) store) \<Rightarrow> 'h option \<Rightarrow> ('m, 'c) store \<Rightarrow>
    'h option \<times> ('m, 'c) store" where
  "deep_copy_pointer cp p s =
     (case p of None \<Rightarrow> (None, s) | Some x \<Rightarrow> (case cp x s of (y, s1) \<Rightarrow> (Some y, s1)))"

definition asset_DeepCopy :: "h_asset option \<Rightarrow> ('m, 'c) store \<Rightarrow> h_asset option \<times> ('m, 'c) store" where
  "asset_DeepCopy = deep_copy_pointer copy_asset"

definition asset_status_DeepCopy ::
  "h_asset_status option \<Rightarrow> ('m, 'c) store \<Rightarrow> h_asset_status option \<times> ('m, 'c) store" where
  "asset_status_DeepCopy = deep_copy_pointer copy_asset_status"

definition exercise_DeepCopy :: "lab_exercise option \<Rightarrow> ('m, 'c) store \<Rightarrow> lab_exercise option \<times> ('m, 'c) store" where
  "exercise_DeepCopy = deep_copy_pointer copy_exercise"

definition spec_DeepCopy :: "h_spec option \<Rightarrow> ('m, 'c) store \<Rightarrow> h_spec option \<times> ('m, 'c) store" where
  "spec_DeepCopy = deep_copy_pointer copy_spec"

definition status_DeepCopy :: "h_status option \<Rightarrow> ('m, 'c) store \<Rightarrow> h_status option \<times> ('m, 'c) store" where
  "status_DeepCopy = deep_copy_pointer copy_status"

definition env_DeepCopy ::
  "('m \<Rightarrow> ('m, 'c) store \<Rightarrow> 'm \<times> ('m, 'c) store) \<Rightarrow> 'm h_env option \<Rightarrow> ('m, 'c) store \<Rightarrow>
     'm h_env option \<times> ('m, 'c) store" where
  "env_DeepCopy copy_meta = deep_copy_pointer (copy_env copy_meta)"

definition envs_DeepCopy ::
  "('m \<Rightarrow> ('m, 'c) store \<Rightarrow> 'm \<times> ('m, 'c) store) \<Rightarrow> 'm h_env \<Rightarrow> ('l \<times> addr option) option \<Rightarrow> ('m, 'c) store \<Rightarrow>
     ('l \<times> addr option) option \<times> ('m, 'c) store" where
  "envs_DeepCopy copy_meta zero = deep_copy_pointer (copy_envs copy_meta zero)"

text \<open>
  \<open>DeepCopyObject\<close>: the copy as a \<open>runtime.Object\<close>. A nil pointer gives the nil interface, not an
  interface that holds a nil pointer.
\<close>

datatype ('m, 'l) runtime_object = EnvObject "'m h_env option" | EnvListObject "('l \<times> addr option) option"

definition env_DeepCopyObject ::
  "('m \<Rightarrow> ('m, 'c) store \<Rightarrow> 'm \<times> ('m, 'c) store) \<Rightarrow> 'm h_env option \<Rightarrow> ('m, 'c) store \<Rightarrow>
     ('m, 'l) runtime_object option \<times> ('m, 'c) store" where
  "env_DeepCopyObject copy_meta p s =
     (case env_DeepCopy copy_meta p s of (c, s1) \<Rightarrow> (if c \<noteq> None then Some (EnvObject c) else None, s1))"

definition envs_DeepCopyObject ::
  "('m \<Rightarrow> ('m, 'c) store \<Rightarrow> 'm \<times> ('m, 'c) store) \<Rightarrow> 'm h_env \<Rightarrow> ('l \<times> addr option) option \<Rightarrow> ('m, 'c) store \<Rightarrow>
     ('m, 'l) runtime_object option \<times> ('m, 'c) store" where
  "envs_DeepCopyObject copy_meta zero p s =
     (case envs_DeepCopy copy_meta zero p s of (c, s1) \<Rightarrow> (if c \<noteq> None then Some (EnvListObject c) else None, s1))"

section \<open>What the structs stand for\<close>

definition read_asset :: "('m, 'c) store \<Rightarrow> h_asset \<Rightarrow> lab_asset option" where
  "read_asset s x = map_option (\<lambda>ps. \<lparr>AName = haName x, AImage = haImage x, ACPU = haCPU x, AMemory = haMemory x,
      ADisk = haDisk x, AProtocols = ps, ASetup = haSetup x\<rparr>) (read_slice as_strings plain_read s (haProtocols x))"

definition asset_addrs :: "('m, 'c) store \<Rightarrow> h_asset \<Rightarrow> addr set" where
  "asset_addrs s x = slice_addrs as_strings plain_addrs s (haProtocols x)"

definition read_asset_status :: "('m, 'c) store \<Rightarrow> h_asset_status \<Rightarrow> asset_status option" where
  "read_asset_status s x = map_option (\<lambda>ps. \<lparr>StName = hsName x, StPhase = hsPhase x, StReason = hsReason x,
      StReady = hsReady x, StAddress = hsAddress x, StProtocols = ps\<rparr>)
      (read_slice as_strings plain_read s (hsProtocols x))"

definition asset_status_addrs :: "('m, 'c) store \<Rightarrow> h_asset_status \<Rightarrow> addr set" where
  "asset_status_addrs s x = slice_addrs as_strings plain_addrs s (hsProtocols x)"

definition read_spec :: "('m, 'c) store \<Rightarrow> h_spec \<Rightarrow> lab_spec option" where
  "read_spec s x = map_option (\<lambda>(as, xs). \<lparr>OwnerId = hOwnerId x, OwnerName = hOwnerName x, LabId = hLabId x,
      TTL = hTTL x, SpecAssets = as, SpecExercises = xs\<rparr>)
      (read_pair (read_slice as_assets read_asset) (read_slice as_exercises plain_read) s (hAssets x, hExercises x))"

definition spec_addrs :: "('m, 'c) store \<Rightarrow> h_spec \<Rightarrow> addr set" where
  "spec_addrs s x = pair_addrs (slice_addrs as_assets asset_addrs) (slice_addrs as_exercises plain_addrs) s
      (hAssets x, hExercises x)"

definition read_time :: "('m, 'c) store \<Rightarrow> addr option \<Rightarrow> int option option" where
  "read_time s p = (case p of None \<Rightarrow> Some None | Some a \<Rightarrow> (case mem s a of Some (TimeCell t) \<Rightarrow> Some (Some t) | _ \<Rightarrow> None))"

definition time_addrs :: "('m, 'c) store \<Rightarrow> addr option \<Rightarrow> addr set" where
  "time_addrs s p = set_option p"

definition read_status :: "('m, 'c) store \<Rightarrow> h_status \<Rightarrow> lab_status option" where
  "read_status s x = map_option (\<lambda>(cs, t, as). \<lparr>Conditions = cs, Phase = hPhase x, StatusNamespace = hNamespace x,
      LabExpiresAt = t, TotalAssets = hTotalAssets x, ReadyAssets = hReadyAssets x, Ready = hReady x, StatusAssets = as\<rparr>)
      (read_pair (read_slice as_conditions plain_read) (read_pair read_time (read_slice as_statuses read_asset_status)) s
        (hConditions x, hExpiresAt x, hStatusAssets x))"

definition status_addrs :: "('m, 'c) store \<Rightarrow> h_status \<Rightarrow> addr set" where
  "status_addrs s x = pair_addrs (slice_addrs as_conditions plain_addrs)
      (pair_addrs time_addrs (slice_addrs as_statuses asset_status_addrs)) s
      (hConditions x, hExpiresAt x, hStatusAssets x)"

definition read_env ::
  "(('m, 'c) store \<Rightarrow> 'm \<Rightarrow> 'v option) \<Rightarrow> ('m, 'c) store \<Rightarrow> 'm h_env \<Rightarrow> ('v \<times> lab_spec \<times> lab_status) option" where
  "read_env read_meta s x =
     read_pair read_meta (read_pair read_spec read_status) s (hMeta x, hSpec x, hStatus x)"

definition env_addrs :: "(('m, 'c) store \<Rightarrow> 'm \<Rightarrow> addr set) \<Rightarrow> ('m, 'c) store \<Rightarrow> 'm h_env \<Rightarrow> addr set" where
  "env_addrs meta_addrs s x =
     pair_addrs meta_addrs (pair_addrs spec_addrs status_addrs) s (hMeta x, hSpec x, hStatus x)"

section \<open>Every copy is deep\<close>

interpretation strings: deep_copy_slice plain_read plain_addrs plain_copy StringArray as_strings "[]"
  by (intro deep_copy_slice.intro plain_deep_copy deep_copy_slice_axioms.intro) simp

interpretation exercises: deep_copy_slice plain_read plain_addrs plain_copy ExerciseArray as_exercises zero_lab_exercise
  by (intro deep_copy_slice.intro plain_deep_copy deep_copy_slice_axioms.intro) simp

interpretation conditions: deep_copy_slice plain_read plain_addrs plain_copy ConditionArray as_conditions zero_condition
  by (intro deep_copy_slice.intro plain_deep_copy deep_copy_slice_axioms.intro) simp

lemma asset_deep_copy: "deep_copy read_asset asset_addrs copy_asset"
  using struct_deep_copy[OF strings.slice.deep_copy_axioms, of haProtocols "\<lambda>p x. x\<lparr>haProtocols := p\<rparr>"
    "\<lambda>x ps. \<lparr>AName = haName x, AImage = haImage x, ACPU = haCPU x, AMemory = haMemory x,
      ADisk = haDisk x, AProtocols = ps, ASetup = haSetup x\<rparr>"]
  by (simp add: read_asset_def[abs_def] asset_addrs_def[abs_def] copy_asset_def[abs_def])

lemma asset_status_deep_copy: "deep_copy read_asset_status asset_status_addrs copy_asset_status"
  using struct_deep_copy[OF strings.slice.deep_copy_axioms, of hsProtocols "\<lambda>p x. x\<lparr>hsProtocols := p\<rparr>"
    "\<lambda>x ps. \<lparr>StName = hsName x, StPhase = hsPhase x, StReason = hsReason x,
      StReady = hsReady x, StAddress = hsAddress x, StProtocols = ps\<rparr>"]
  by (simp add: read_asset_status_def[abs_def] asset_status_addrs_def[abs_def] copy_asset_status_def[abs_def])

interpretation assets: deep_copy_slice read_asset asset_addrs copy_asset AssetArray as_assets zero_h_asset
  by (intro deep_copy_slice.intro asset_deep_copy deep_copy_slice_axioms.intro) simp

interpretation statuses: deep_copy_slice read_asset_status asset_status_addrs copy_asset_status
    StatusArray as_statuses zero_h_status
  by (intro deep_copy_slice.intro asset_status_deep_copy deep_copy_slice_axioms.intro) simp

interpretation time: deep_copy read_time time_addrs copy_time
proof
  fix s p v and t s1 :: "('a, 'b) store"
  assume "store_ok t" "read_time t p = Some v" "copy_time p t = (s, s1)"
  then show "extends t s1 \<and> store_ok s1 \<and> read_time s1 s = Some v \<and> (\<forall>a \<in> time_addrs s1 s. fresh t \<le> a)"
    by (auto simp: read_time_def copy_time_def time_addrs_def alloc_def extends_def store_ok_def
        split: option.splits)
qed (fastforce simp: read_time_def time_addrs_def store_ok_def not_le[symmetric] split: option.splits cell.splits)+

lemma copy_spec_eq:
  "copy_spec = (\<lambda>x s. case copy_pair (copy_slice AssetArray as_assets zero_h_asset copy_asset)
      (copy_slice ExerciseArray as_exercises zero_lab_exercise plain_copy) (hAssets x, hExercises x) s of
      (y, s1) \<Rightarrow> (x\<lparr>hAssets := fst y, hExercises := snd y\<rparr>, s1))"
  by (intro ext) (simp add: copy_spec_def copy_pair_def split: prod.split)

lemma spec_deep_copy: "deep_copy read_spec spec_addrs copy_spec"
  unfolding copy_spec_eq
    using struct_deep_copy[OF pair_deep_copy[OF assets.slice.deep_copy_axioms exercises.slice.deep_copy_axioms],
      of "\<lambda>x. (hAssets x, hExercises x)" "\<lambda>y x. x\<lparr>hAssets := fst y, hExercises := snd y\<rparr>"
      "\<lambda>x (as, xs). \<lparr>OwnerId = hOwnerId x, OwnerName = hOwnerName x, LabId = hLabId x,
        TTL = hTTL x, SpecAssets = as, SpecExercises = xs\<rparr>"]
    by (simp add: read_spec_def[abs_def] spec_addrs_def[abs_def])

lemma copy_status_eq:
  "copy_status = (\<lambda>x s. case copy_pair (copy_slice ConditionArray as_conditions zero_condition plain_copy)
      (copy_pair copy_time (copy_slice StatusArray as_statuses zero_h_status copy_asset_status))
      (hConditions x, hExpiresAt x, hStatusAssets x) s of
      (y, s1) \<Rightarrow> (x\<lparr>hConditions := fst y, hExpiresAt := fst (snd y), hStatusAssets := snd (snd y)\<rparr>, s1))"
  by (intro ext) (simp add: copy_status_def copy_pair_def split: prod.split)

lemma status_deep_copy: "deep_copy read_status status_addrs copy_status"
  unfolding copy_status_eq
    using struct_deep_copy[OF pair_deep_copy[OF conditions.slice.deep_copy_axioms
        pair_deep_copy[OF time.deep_copy_axioms statuses.slice.deep_copy_axioms]],
      of "\<lambda>x. (hConditions x, hExpiresAt x, hStatusAssets x)"
      "\<lambda>y x. x\<lparr>hConditions := fst y, hExpiresAt := fst (snd y), hStatusAssets := snd (snd y)\<rparr>"
      "\<lambda>x (cs, t, as). \<lparr>Conditions = cs, Phase = hPhase x, StatusNamespace = hNamespace x,
        LabExpiresAt = t, TotalAssets = hTotalAssets x, ReadyAssets = hReadyAssets x, Ready = hReady x, StatusAssets = as\<rparr>"]
    by (simp add: read_status_def[abs_def] status_addrs_def[abs_def])

lemma copy_env_eq:
  "copy_env copy_meta = (\<lambda>x s. case copy_pair copy_meta (copy_pair copy_spec copy_status)
      (hMeta x, hSpec x, hStatus x) s of
      (y, s1) \<Rightarrow> (x\<lparr>hMeta := fst y, hSpec := fst (snd y), hStatus := snd (snd y)\<rparr>, s1))"
  by (intro ext) (simp add: copy_env_def copy_pair_def split: prod.split)

lemma env_deep_copy:
  assumes "deep_copy read_meta meta_addrs copy_meta"
  shows "deep_copy (read_env read_meta) (env_addrs meta_addrs) (copy_env copy_meta)"
  unfolding copy_env_eq
    using struct_deep_copy[OF pair_deep_copy[OF assms pair_deep_copy[OF spec_deep_copy status_deep_copy]],
      of "\<lambda>x. (hMeta x, hSpec x, hStatus x)"
      "\<lambda>y x. x\<lparr>hMeta := fst y, hSpec := fst (snd y), hStatus := snd (snd y)\<rparr>" "\<lambda>x v. v"]
    by (simp add: read_env_def[abs_def] env_addrs_def[abs_def] option.map_ident)

text \<open>
  C33: A copy of a LabEnvironment has the value of the original and shares nothing with it: whatever is
  written to an array the copy refers to, the original keeps its value, and the other way round. So
  an object that the client's cache hands out as a copy can be changed as a value. (Provided the
  copying of the metadata, which is apimachinery's, is deep.)
\<close>
theorem labenv_copy_independent:
  assumes "deep_copy read_meta meta_addrs copy_meta" "store_ok s" "read_env read_meta s x = Some v"
    "copy_env copy_meta x s = (y, s1)"
  shows "read_env read_meta s1 x = Some v \<and> read_env read_meta s1 y = Some v \<and>
    (\<forall>a c. (a \<in> env_addrs meta_addrs s1 y \<longrightarrow> read_env read_meta (write_cell a c s1) x = Some v) \<and>
           (a \<in> env_addrs meta_addrs s1 x \<longrightarrow> read_env read_meta (write_cell a c s1) y = Some v))"
proof -
  note d = env_deep_copy[OF assms(1)]
  have r: "extends s s1" "read_env read_meta s1 y = Some v"
    using deep_copy.copy_result[OF d assms(2-4)] by auto
  then show ?thesis
    using deep_copy.read_extends[OF d assms(2,3) r(1)] deep_copy.copy_independent[OF d assms(2-4)] by blast
qed

text \<open>A store with one lab of one asset with one protocol.\<close>

definition demo_store :: "(string, unit) store" where
  "demo_store = \<lparr>mem = [0 \<mapsto> StringArray [''exec''], 1 \<mapsto> AssetArray [zero_h_asset\<lparr>haName := ''vm'', haProtocols := Some 0\<rparr>]],
     fresh = 2\<rparr>"

definition demo_env :: "string h_env" where
  "demo_env = \<lparr>hMeta = ''lab'',
     hSpec = \<lparr>hOwnerId = ''u'', hOwnerName = [], hLabId = ''l'', hTTL = 5, hAssets = Some 1, hExercises = None\<rparr>,
     hStatus = \<lparr>hConditions = None, hPhase = [], hNamespace = [], hExpiresAt = None, hTotalAssets = 0,
       hReadyAssets = 0, hReady = [], hStatusAssets = None\<rparr>\<rparr>"

lemmas store_defs = demo_store_def demo_env_def read_env_def read_pair_def plain_read_def read_spec_def read_status_def
  read_slice_def elements_def as_assets_def as_strings_def read_asset_def read_list_def read_time_def
  copy_env_def copy_spec_def copy_status_def copy_slice_def copy_asset_def copy_time_def plain_copy_def alloc_def
  write_cell_def zero_h_asset_def

theorem labenv_copy_independent_witness:
  "\<exists>y s1 v. copy_env plain_copy demo_env demo_store = (y, s1) \<and> hAssets (hSpec y) = Some 2 \<and>
     read_env plain_read demo_store demo_env = Some v \<and>
     read_env plain_read (write_cell 2 (AssetArray []) s1) demo_env = Some v \<and>
     read_env plain_read (write_cell 2 (AssetArray []) s1) y \<noteq> Some v"
proof -
  obtain v where v: "read_env plain_read demo_store demo_env = Some v" "SpecAssets (fst (snd v)) \<noteq> []"
    by (simp add: store_defs)
  obtain y s1 where y: "copy_env plain_copy demo_env demo_store = (y, s1)" "hAssets (hSpec y) = Some 2"
    by (simp add: store_defs)
  have "store_ok demo_store" by (simp add: store_ok_def demo_store_def)
  moreover have "2 \<in> env_addrs plain_addrs s1 y"
    using y(2) by (simp add: env_addrs_def pair_addrs_def spec_addrs_def slice_addrs_def)
  ultimately have "read_env plain_read (write_cell 2 (AssetArray []) s1) demo_env = Some v"
    using labenv_copy_independent[OF plain_deep_copy _ v(1) y(1)] by blast
  moreover have "read_env plain_read (write_cell 2 (AssetArray []) s1) y \<noteq> Some v"
    using v(2) y(2) by (auto simp: read_env_def read_pair_def read_spec_def read_slice_def elements_def
        write_cell_def as_assets_def split: option.splits)
  ultimately show ?thesis using v(1) y by blast
qed

lemma envs_deep_copy:
  assumes "deep_copy read_meta meta_addrs copy_meta"
  shows "deep_copy (read_slice as_envs (read_env read_meta)) (slice_addrs as_envs (env_addrs meta_addrs))
    (copy_slice EnvArray as_envs zero (copy_env copy_meta))"
  by (intro deep_copy_slice.slice_deep_copy deep_copy_slice.intro env_deep_copy[OF assms]
      deep_copy_slice_axioms.intro) simp

text \<open>An interface made from a pointer is nil exactly when the pointer is.\<close>

lemma deep_copy_pointer_nil: "fst (deep_copy_pointer cp p s) = None \<longleftrightarrow> p = None"
  by (simp add: deep_copy_pointer_def split: option.split prod.split)

lemma object_nil:
  "fst (env_DeepCopyObject copy_meta p s) = None \<longleftrightarrow> p = None"
  "fst (envs_DeepCopyObject copy_meta zero q s) = None \<longleftrightarrow> q = None"
  using deep_copy_pointer_nil[of "copy_env copy_meta" p s] deep_copy_pointer_nil[of "copy_envs copy_meta zero" q s]
  by (auto simp: env_DeepCopyObject_def envs_DeepCopyObject_def env_DeepCopy_def envs_DeepCopy_def split: prod.split)

end
