(* ===== verification/OperatorMain.thy ===== *)
theory OperatorMain
  imports RelayServe
begin

text \<open>
  \<open>services/labenv-operator/cmd/main.go\<close>: the flags, the options of the manager made from them, and
  the start of the operator. \<open>flag.Parse\<close> is modelled as package \<open>flag\<close> does it; the flags that zap
  and controller-runtime add are an argument, and so is every call of controller-runtime.
\<close>

section \<open>Flags\<close>

record operator_flags =
  metricsAddr :: string
  probeAddr :: string
  enableLeaderElection :: bool
  secureMetrics :: bool
  webhookCertPath :: string
  webhookCertName :: string
  webhookCertKey :: string
  metricsCertPath :: string
  metricsCertName :: string
  metricsCertKey :: string
  enableHTTP2 :: bool

definition default_flags :: operator_flags where
  "default_flags =
     \<lparr>metricsAddr = ''0'', probeAddr = '':8081'', enableLeaderElection = False, secureMetrics = True,
      webhookCertPath = [], webhookCertName = ''tls.crt'', webhookCertKey = ''tls.key'',
      metricsCertPath = [], metricsCertName = ''tls.crt'', metricsCertKey = ''tls.key'', enableHTTP2 = False\<rparr>"

text \<open>A flag sets a string or a truth value; one of another package takes a value if it accepts it.\<close>

datatype flag_value =
    StringVar "string \<Rightarrow> operator_flags \<Rightarrow> operator_flags"
  | BoolVar "bool \<Rightarrow> operator_flags \<Rightarrow> operator_flags"
  | OtherVar bool "string \<Rightarrow> bool" \<comment> \<open>whether it is a boolean flag, and what it accepts\<close>

definition operator_flag_table :: "(string \<times> flag_value) list" where
  "operator_flag_table =
     [(''metrics-bind-address'', StringVar (\<lambda>v. metricsAddr_update (\<lambda>_. v))),
      (''health-probe-bind-address'', StringVar (\<lambda>v. probeAddr_update (\<lambda>_. v))),
      (''leader-elect'', BoolVar (\<lambda>v. enableLeaderElection_update (\<lambda>_. v))),
      (''metrics-secure'', BoolVar (\<lambda>v. secureMetrics_update (\<lambda>_. v))),
      (''webhook-cert-path'', StringVar (\<lambda>v. webhookCertPath_update (\<lambda>_. v))),
      (''webhook-cert-name'', StringVar (\<lambda>v. webhookCertName_update (\<lambda>_. v))),
      (''webhook-cert-key'', StringVar (\<lambda>v. webhookCertKey_update (\<lambda>_. v))),
      (''metrics-cert-path'', StringVar (\<lambda>v. metricsCertPath_update (\<lambda>_. v))),
      (''metrics-cert-name'', StringVar (\<lambda>v. metricsCertName_update (\<lambda>_. v))),
      (''metrics-cert-key'', StringVar (\<lambda>v. metricsCertKey_update (\<lambda>_. v))),
      (''enable-http2'', BoolVar (\<lambda>v. enableHTTP2_update (\<lambda>_. v)))]"

definition parse_bool :: "string \<Rightarrow> bool option" where
  "parse_bool s =
     (if s \<in> {''1'', ''t'', ''T'', ''true'', ''TRUE'', ''True''} then Some True
      else if s \<in> {''0'', ''f'', ''F'', ''false'', ''FALSE'', ''False''} then Some False
      else None)"

definition set_flag :: "flag_value \<Rightarrow> string \<Rightarrow> operator_flags \<Rightarrow> operator_flags option" where
  "set_flag fv v fl =
     (case fv of
        StringVar f \<Rightarrow> Some (f v fl)
      | BoolVar f \<Rightarrow> (case parse_bool v of Some b \<Rightarrow> Some (f b fl) | None \<Rightarrow> None)
      | OtherVar b ok \<Rightarrow> (if ok v then Some fl else None))"

definition is_bool_flag :: "flag_value \<Rightarrow> bool" where
  "is_bool_flag fv = (case fv of StringVar f \<Rightarrow> False | BoolVar f \<Rightarrow> True | OtherVar b ok \<Rightarrow> b)"

text \<open>The name of a flag and the value after the first \<open>=\<close> that is not in front.\<close>

definition split_value :: "string \<Rightarrow> string \<times> string option" where
  "split_value name =
     (hd name # takeWhile (\<lambda>c. c \<noteq> CHR ''='') (tl name),
      case dropWhile (\<lambda>c. c \<noteq> CHR ''='') (tl name) of [] \<Rightarrow> None | e # v \<Rightarrow> Some v)"

text \<open>
  One argument: the flags are over, an error with the exit code of \<open>ExitOnError\<close>, or a flag that is
  to be set, with a value of its own or not.
\<close>

datatype flag_arg = FlagsOver | FlagError int | Flag flag_value "string option"

definition read_flag :: "(string \<rightharpoonup> flag_value) \<Rightarrow> string \<Rightarrow> flag_arg" where
  "read_flag table s =
     (if length s < 2 \<or> hd s \<noteq> CHR ''-'' \<or> s = ''--'' then FlagsOver
      else (let name = (if s ! 1 = CHR ''-'' then drop 2 s else drop 1 s) in
        if name = [] \<or> hd name = CHR ''-'' \<or> hd name = CHR ''='' then FlagError 2
        else (case split_value name of
          (n, v) \<Rightarrow>
            (case table n of
               None \<Rightarrow> FlagError (if n = ''help'' \<or> n = ''h'' then 0 else 2)
             | Some fv \<Rightarrow> Flag fv v))))"

fun parse_flags :: "(string \<rightharpoonup> flag_value) \<Rightarrow> string list \<Rightarrow> operator_flags \<Rightarrow> int + operator_flags" where
  "parse_flags table [] fl = Inr fl"
| "parse_flags table (s # args) fl =
     (case read_flag table s of
        FlagsOver \<Rightarrow> Inr fl
      | FlagError c \<Rightarrow> Inl c
      | Flag fv (Some v) \<Rightarrow> (case set_flag fv v fl of None \<Rightarrow> Inl 2 | Some fl1 \<Rightarrow> parse_flags table args fl1)
      | Flag fv None \<Rightarrow>
          (if is_bool_flag fv
           then (case set_flag fv ''true'' fl of None \<Rightarrow> Inl 2 | Some fl1 \<Rightarrow> parse_flags table args fl1)
           else (case args of
               [] \<Rightarrow> Inl 2
             | v # args1 \<Rightarrow>
                 (case set_flag fv v fl of None \<Rightarrow> Inl 2 | Some fl1 \<Rightarrow> parse_flags table args1 fl1))))"

definition parse_command_line :: "(string \<rightharpoonup> flag_value) \<Rightarrow> string list \<Rightarrow> int + operator_flags" where
  "parse_command_line others args = parse_flags (others ++ map_of operator_flag_table) args default_flags"

section \<open>The options of the manager\<close>

text \<open>Of a \<open>tls.Config\<close> only \<open>NextProtos\<close> is touched; a TLS option is a change to it.\<close>

type_synonym tls_option = "string list \<Rightarrow> string list"

definition disableHTTP2 :: tls_option where
  "disableHTTP2 nextProtos = [''http/1.1'']"

record server_options =
  TLSOpts :: "tls_option list"
  CertDir :: string
  CertName :: string
  KeyName :: string

record metrics_options = server_options +
  BindAddress :: string
  SecureServing :: bool
  AuthFilter :: bool

record manager_options =
  Metrics :: metrics_options
  WebhookServer :: server_options
  HealthProbeBindAddress :: string
  LeaderElection :: bool
  LeaderElectionID :: string

definition tls_opts :: "operator_flags \<Rightarrow> tls_option list" where
  "tls_opts fl = (if \<not> enableHTTP2 fl then [disableHTTP2] else [])"

definition with_certs :: "string \<Rightarrow> string \<Rightarrow> string \<Rightarrow> 'a server_options_scheme \<Rightarrow> 'a server_options_scheme" where
  "with_certs path cert key o1 =
     (if length path > 0 then o1\<lparr>CertDir := path, CertName := cert, KeyName := key\<rparr> else o1)"

definition manager_options_of :: "operator_flags \<Rightarrow> manager_options" where
  "manager_options_of fl =
     \<lparr>Metrics = with_certs (metricsCertPath fl) (metricsCertName fl) (metricsCertKey fl)
        \<lparr>TLSOpts = tls_opts fl, CertDir = [], CertName = [], KeyName = [], BindAddress = metricsAddr fl,
         SecureServing = secureMetrics fl, AuthFilter = secureMetrics fl\<rparr>,
      WebhookServer = with_certs (webhookCertPath fl) (webhookCertName fl) (webhookCertKey fl)
        \<lparr>TLSOpts = tls_opts fl, CertDir = [], CertName = [], KeyName = []\<rparr>,
      HealthProbeBindAddress = probeAddr fl, LeaderElection = enableLeaderElection fl,
      LeaderElectionID = ''49f1dc1e.rootenv.io''\<rparr>"

section \<open>Starting\<close>

text \<open>
  controller-runtime's calls on a world \<open>'w\<close>: making the manager, registering the reconciler and the
  two checks under their names, and running until a signal. \<open>main\<close> ends with an exit code.
\<close>

record ('w, 'e, 'm) runtime =
  new_manager :: "manager_options \<Rightarrow> ('w, 'e, 'm) call"
  setup_controller :: "'m \<Rightarrow> ('w, 'e, unit) call"
  add_healthz_check :: "'m \<Rightarrow> string \<Rightarrow> ('w, 'e, unit) call"
  add_readyz_check :: "'m \<Rightarrow> string \<Rightarrow> ('w, 'e, unit) call"
  start_manager :: "'m \<Rightarrow> ('w, 'e, unit) call"

definition run_manager :: "('w, 'e, 'm) runtime \<Rightarrow> manager_options \<Rightarrow> ('w, 'e, unit) call" where
  "run_manager rt opts =
     call_bind (new_manager rt opts) (\<lambda>mgr.
       call_then (setup_controller rt mgr)
         (call_then (add_healthz_check rt mgr ''healthz'')
           (call_then (add_readyz_check rt mgr ''readyz'') (start_manager rt mgr))))"

definition operator_main ::
  "('w, 'e, 'm) runtime \<Rightarrow> (string \<rightharpoonup> flag_value) \<Rightarrow> string list \<Rightarrow> 'w \<Rightarrow> int \<times> 'w" where
  "operator_main rt others args w =
     (case parse_command_line others args of
        Inl code \<Rightarrow> (code, w)
      | Inr fl \<Rightarrow> (case run_manager rt (manager_options_of fl) w of (Inl e, w1) \<Rightarrow> (1, w1) | (Inr u, w1) \<Rightarrow> (0, w1)))"

section \<open>What the flags decide\<close>

lemma dropWhile_name: "CHR ''='' \<notin> set n \<Longrightarrow> takeWhile (\<lambda>c. c \<noteq> CHR ''='') (n @ CHR ''='' # v) = n"
  "CHR ''='' \<notin> set n \<Longrightarrow> dropWhile (\<lambda>c. c \<noteq> CHR ''='') (n @ CHR ''='' # v) = CHR ''='' # v"
  by (induction n) auto

text \<open>An argument \<open>--name=value\<close> sets the flag of that name to that value, whatever the value.\<close>

lemma read_flag_value:
  assumes "n \<noteq> []" "hd n \<notin> {CHR ''-'', CHR ''=''}" "CHR ''='' \<notin> set (tl n)" "table n = Some fv"
  shows "read_flag table (''--'' @ n @ ''='' @ v) = Flag fv (Some v)"
proof -
  obtain c m where n: "n = c # m" using assms(1) by (cases n) auto
  have "split_value (n @ ''='' @ v) = (n, Some v)"
    using assms(3) by (simp add: split_value_def n dropWhile_name)
  then show ?thesis using assms(2,4) by (simp add: read_flag_def n)
qed

text \<open>HTTP/2 is off on both servers, and the metrics need authorization, unless a flag says otherwise.\<close>

lemma manager_http1:
  "opt \<in> set (TLSOpts (Metrics (manager_options_of fl))) \<union> set (TLSOpts (WebhookServer (manager_options_of fl))) \<Longrightarrow>
     opt protos = [''http/1.1'']"
  by (auto simp: manager_options_of_def with_certs_def tls_opts_def disableHTTP2_def split: if_splits)

lemma manager_options_default:
  "parse_command_line others [] = Inr default_flags"
  "TLSOpts (Metrics (manager_options_of default_flags)) = [disableHTTP2]"
  "AuthFilter (Metrics (manager_options_of default_flags))"
  by (simp_all add: parse_command_line_def manager_options_of_def with_certs_def tls_opts_def default_flags_def)

text \<open>
  Only the flag \<open>enable-http2\<close> turns HTTP/2 on: without an argument that names it the TLS options of
  both servers leave HTTP/1.1 alone, whatever else is on the command line.
\<close>

definition names_http2 :: "string \<Rightarrow> bool" where
  "names_http2 s \<longleftrightarrow> fst (split_value (if s ! 1 = CHR ''-'' then drop 2 s else drop 1 s)) = ''enable-http2''"

lemma set_flag_http2:
  "map_of operator_flag_table n = Some fv \<Longrightarrow> n \<noteq> ''enable-http2'' \<Longrightarrow> set_flag fv v fl = Some fl1 \<Longrightarrow>
     enableHTTP2 fl1 = enableHTTP2 fl"
  by (auto simp: operator_flag_table_def set_flag_def split: if_splits option.splits)

lemma parse_flags_http2:
  assumes "\<forall>n \<in> dom others. \<exists>b ok. others n = Some (OtherVar b ok)"
  shows "parse_flags (others ++ map_of operator_flag_table) args fl = Inr fl1 \<Longrightarrow>
    list_all (\<lambda>s. \<not> names_http2 s) args \<Longrightarrow> enableHTTP2 fl1 = enableHTTP2 fl"
proof (induction "others ++ map_of operator_flag_table" args fl rule: parse_flags.induct)
  case (2 s args fl)
  let ?t = "others ++ map_of operator_flag_table"
  have keep: "enableHTTP2 fl2 = enableHTTP2 fl" if f: "read_flag ?t s = Flag fv v" and st: "set_flag fv x fl = Some fl2"
    for fv v x fl2
  proof -
    obtain n where n: "?t n = Some fv" "n \<noteq> ''enable-http2''"
      using f 2(5) by (auto simp: read_flag_def names_http2_def Let_def split: if_splits option.splits prod.splits)
    show ?thesis
    proof (cases "map_of operator_flag_table n")
      case None
      then have "others n = Some fv" using n(1) by (simp add: map_add_def)
      then obtain b ok where "fv = OtherVar b ok" using bspec[OF assms domI[of others n fv]] by auto
      then show ?thesis using st by (simp add: set_flag_def split: if_splits)
    next
      case (Some fv')
      then have "fv' = fv" using n(1) by simp
      then show ?thesis using set_flag_http2[of n fv x fl fl2] Some n(2) st by simp
    qed
  qed
  show ?case
  proof (cases "read_flag ?t s")
    case (Flag fv v)
    show ?thesis
      using 2 Flag keep[OF Flag]
      by (auto split: option.splits if_splits list.splits)
  qed (use 2 in auto)
qed simp

lemma http2_only_by_flag:
  assumes "\<forall>n \<in> dom others. \<exists>b ok. others n = Some (OtherVar b ok)"
    "parse_command_line others args = Inr fl" "list_all (\<lambda>s. \<not> names_http2 s) args"
  shows "TLSOpts (Metrics (manager_options_of fl)) = [disableHTTP2] \<and>
    TLSOpts (WebhookServer (manager_options_of fl)) = [disableHTTP2]"
  using parse_flags_http2[OF assms(1)] assms(2,3)
  by (simp add: parse_command_line_def manager_options_of_def with_certs_def tls_opts_def default_flags_def)

end
