(* ===== verification/Isolation.thy ===== *)
theory Isolation
  imports Operator
begin

text \<open>
  What the three network policies of a lab allow. Kubernetes documents their meaning: the policies of
  a pod's namespace that select the pod add up; with none for a direction everything is allowed,
  otherwise what some rule of some of them allows; a connection needs the egress of its source and
  the ingress of its target. Namespaces carry their name as the label \<open>kubernetes.io/metadata.name\<close>.
\<close>

record net_pod =
  PodNS :: string
  PodLabels :: labels

datatype party = InPod net_pod | External string

definition selects :: "selector \<Rightarrow> labels \<Rightarrow> bool" where
  "selects sel ls \<longleftrightarrow> MatchLabels sel \<subseteq>\<^sub>m ls \<and>
     list_all (\<lambda>(k, vs). case ls k of None \<Rightarrow> True | Some v \<Rightarrow> v \<notin> set vs) (NotIn sel)"

fun peer_matches :: "string \<Rightarrow> peer \<Rightarrow> party \<Rightarrow> bool" where
  "peer_matches ns (Pods nsel psel) (InPod p) \<longleftrightarrow>
     (case nsel of None \<Rightarrow> PodNS p = ns | Some sel \<Rightarrow> selects sel [''kubernetes.io/metadata.name'' \<mapsto> PodNS p]) \<and>
     (case psel of None \<Rightarrow> True | Some sel \<Rightarrow> selects sel (PodLabels p))"
| "peer_matches ns (IPBlock cidr) (External ip) \<longleftrightarrow> cidr = ip @ ''/32''"
| "peer_matches ns _ _ \<longleftrightarrow> False"

definition rule_allows :: "string \<Rightarrow> np_rule \<Rightarrow> party \<Rightarrow> string \<times> int \<Rightarrow> bool" where
  "rule_allows ns r other pp \<longleftrightarrow>
     list_ex (\<lambda>p. peer_matches ns p other) (Peers r) \<and> (Ports r = [] \<or> pp \<in> set (Ports r))"

text \<open>The policies of an object list that are in the pod's namespace and select it.\<close>

definition policies_for :: "kube_object list \<Rightarrow> net_pod \<Rightarrow> network_policy list" where
  "policies_for objs p = List.map_filter (\<lambda>obj. case obj of
     NetworkPolicy m np \<Rightarrow>
       if MetaNamespace m = PodNS p \<and> selects (PodSelector np) (PodLabels p) then Some np else None
   | _ \<Rightarrow> None) objs"

definition ingress_allowed :: "kube_object list \<Rightarrow> party \<Rightarrow> net_pod \<Rightarrow> string \<times> int \<Rightarrow> bool" where
  "ingress_allowed objs src p pp \<longleftrightarrow>
     (let nps = filter (\<lambda>np. ''Ingress'' \<in> set (PolicyTypes np)) (policies_for objs p)
      in nps = [] \<or> list_ex (\<lambda>np. list_ex (\<lambda>r. rule_allows (PodNS p) r src pp) (IngressRules np)) nps)"

definition egress_allowed :: "kube_object list \<Rightarrow> net_pod \<Rightarrow> party \<Rightarrow> string \<times> int \<Rightarrow> bool" where
  "egress_allowed objs p dst pp \<longleftrightarrow>
     (let nps = filter (\<lambda>np. ''Egress'' \<in> set (PolicyTypes np)) (policies_for objs p)
      in nps = [] \<or> list_ex (\<lambda>np. list_ex (\<lambda>r. rule_allows (PodNS p) r dst pp) (EgressRules np)) nps)"

definition connects :: "kube_object list \<Rightarrow> net_pod \<Rightarrow> net_pod \<Rightarrow> string \<times> int \<Rightarrow> bool" where
  "connects objs p q pp \<longleftrightarrow> egress_allowed objs p (InPod q) pp \<and> ingress_allowed objs (InPod p) q pp"

text \<open>The policies of a lab and its pods.\<close>

definition lab_policies :: "string \<Rightarrow> relay_config \<Rightarrow> relay_config \<Rightarrow> string \<times> int \<Rightarrow> kube_object list" where
  "lab_policies ns cfg gcfg ep = [denyall_policy ns, relay_network_policy ns cfg ep, grader_network_policy ns gcfg]"

definition asset_pod :: "labenv \<Rightarrow> string \<Rightarrow> lab_asset \<Rightarrow> net_pod" where
  "asset_pod env ns a = \<lparr>PodNS = ns, PodLabels = MetaLabels (object_meta_of (lab_pod env ns a []))\<rparr>"

definition relay_pod_of :: "string \<Rightarrow> string \<Rightarrow> net_pod" where
  "relay_pod_of ns app = \<lparr>PodNS = ns, PodLabels = [''app'' \<mapsto> app]\<rparr>"

lemma selects_any [simp]: "selects any_pod ls"
  by (simp add: selects_def any_pod_def map_le_def)

lemma selects_label [simp]: "selects (with_label k v) ls \<longleftrightarrow> ls k = Some v"
  by (auto simp: selects_def with_label_def map_le_def)

lemma selects_not_exec [simp]: "selects not_relay_exec ls \<longleftrightarrow> ls ''app'' \<noteq> Some ''relay-exec''"
  by (auto simp: selects_def not_relay_exec_def map_le_def split: option.splits)

lemma namespace_label_simp [simp]:
  "selects (namespace_label ns) [''kubernetes.io/metadata.name'' \<mapsto> ns'] \<longleftrightarrow> ns' = ns"
  by (simp add: namespace_label_def)

lemma asset_pod_label [simp]: "PodLabels (asset_pod env ns a) ''app'' = None" "PodNS (asset_pod env ns a) = ns"
  by (simp_all add: asset_pod_def lab_pod_def named_def env_labels_def)

lemma relay_pod_label [simp]: "PodLabels (relay_pod_of ns app) = [''app'' \<mapsto> app]" "PodNS (relay_pod_of ns app) = ns"
  by (simp_all add: relay_pod_of_def)

lemma policies_for_asset:
  "policies_for (lab_policies ns cfg gcfg ep) p =
     (if PodNS p \<noteq> ns then [] else
      (case denyall_policy ns of NetworkPolicy m np \<Rightarrow> [np]) @
      (if PodLabels p ''app'' = Some ''relay-exec''
       then (case relay_network_policy ns cfg ep of NetworkPolicy m np \<Rightarrow> [np]) else []) @
      (if PodLabels p ''app'' = Some ''relay-grader''
       then (case grader_network_policy ns gcfg of NetworkPolicy m np \<Rightarrow> [np]) else []))"
  by (simp add: policies_for_def lab_policies_def List.map_filter_simps denyall_policy_def
      relay_network_policy_def grader_network_policy_def named_def)

lemmas policy_defs = egress_allowed_def ingress_allowed_def policies_for_asset rule_allows_def denyall_policy_def
  relay_network_policy_def grader_network_policy_def kube_dns_def Let_def


text \<open>
  A terminal's relay is reached only through the ingress: a pod can connect to relay-exec exactly
  if it is outside the lab's namespace, in the ingress controller's or the default controller's, and
  asks for TCP port 8080. No pod of the lab reaches it, the relay itself included.
\<close>
theorem relay_exec_reached_by_ingress_only:
  "connects (lab_policies ns cfg gcfg ep) p (relay_pod_of ns ''relay-exec'') pp \<longleftrightarrow>
     PodNS p \<noteq> ns \<and> PodNS p \<in> {ingressControllerNamespace cfg, defaultIngressControllerNS} \<and> pp = (''TCP'', 8080)"
  by (cases "PodNS p = ns") (auto simp: connects_def policy_defs)

text \<open>
  C40: The port on which relay-grader takes terminal output without authentication, 8081, is open to
  every pod of the lab: policies add up, and the policy for all pods allows what the grader's own
  policy leaves out. A student can therefore feed the grader any output from a lab's terminal.
\<close>
theorem lab_pod_reaches_grader:
  "connects (lab_policies ns cfg gcfg ep) (asset_pod env ns a) (relay_pod_of ns ''relay-grader'') (''TCP'', 8081)"
  by (simp add: connects_def policy_defs)

end
