(* ===== verification/RelayHandler.thy ===== *)
theory RelayHandler
  imports Limiter GoStrings
begin

text \<open>
  \<open>services/relay/pkg/relaybase/handler.go\<close>: one WebSocket request to a relay. The WebSocket
  library is the record of operations \<open>ops\<close> over a world \<open>'w\<close>; the backend's \<open>Serve\<close> is the
  argument \<open>serve\<close>, which acts on the handler's whole state since other requests run while it
  blocks. Logging is left out.
\<close>

record handler =
  AttemptID :: string
  OwnerID :: string
  SkipAuth :: bool
  AllowedOrigins :: "string list"
  AuthTimeout :: int
  HasWG :: bool

record request =
  PathValue :: "string \<Rightarrow> string"
  Header :: "string \<Rightarrow> string"

datatype accept_options = OriginPatterns "string list" | InsecureSkipVerify

datatype status_code = StatusPolicyViolation | StatusNormalClosure

record ('w, 'c, 'e) ws_ops =
  ws_accept :: "accept_options \<Rightarrow> request \<Rightarrow> ('w, 'e, 'c) call"
  ws_read :: "'c \<Rightarrow> int \<Rightarrow> ('w, 'e, bytes) call"
  ws_close :: "'c \<Rightarrow> status_code \<Rightarrow> string \<Rightarrow> 'w \<Rightarrow> 'w"

record 'w hstate =
  limiter :: conn_limiter
  wg :: int
  world :: 'w

text \<open>Durations are in nanoseconds.\<close>

definition second :: int where "second = 1000000000"

definition accept_options_of :: "handler \<Rightarrow> accept_options" where
  "accept_options_of h =
     (if length (AllowedOrigins h) > 0 then OriginPatterns (AllowedOrigins h) else InsecureSkipVerify)"

definition auth_timeout :: "handler \<Rightarrow> int" where
  "auth_timeout h = (if AuthTimeout h = 0 then 10 * second else AuthTimeout h)"

text \<open>The header checks: \<open>None\<close> closes the connection as unauthorized.\<close>

definition authorize :: "handler \<Rightarrow> request \<Rightarrow> (string \<times> string) option" where
  "authorize h r =
     (let userID = Header r ''X-User-Id''; attemptID = Header r ''X-Attempt-Id'' in
      if SkipAuth h
      then Some (if userID = [] then ''anonymous'' else userID,
                 if attemptID = [] then ''anonymous'' else attemptID)
      else if attemptID \<noteq> AttemptID h then None
      else if userID \<noteq> OwnerID h then None
      else if userID = [] then None
      else Some (userID, attemptID))"

text \<open>From the granted slot to the end of the request, with the two deferred calls at the end.\<close>

definition serve_session ::
  "('w, 'c, 'e) ws_ops \<Rightarrow> ('c \<Rightarrow> string \<Rightarrow> string \<Rightarrow> ('w hstate, 'e, unit) call) \<Rightarrow> handler \<Rightarrow>
     'c \<Rightarrow> string \<Rightarrow> string \<Rightarrow> 'w hstate \<Rightarrow> 'w hstate" where
  "serve_session ops serve h conn assetName userID s =
     (let s1 = (if HasWG h then s\<lparr>wg := wg s + 1\<rparr> else s);
          s2 = snd (serve conn assetName userID s1);
          s3 = s2\<lparr>world := ws_close ops conn StatusNormalClosure [] (world s2)\<rparr>;
          s4 = (if HasWG h then s3\<lparr>wg := wg s3 - 1\<rparr> else s3)
      in s4\<lparr>limiter := Release userID (limiter s4)\<rparr>)"

definition ServeHTTP ::
  "('w, 'c, 'e) ws_ops \<Rightarrow> ('c \<Rightarrow> string \<Rightarrow> string \<Rightarrow> ('w hstate, 'e, unit) call) \<Rightarrow> handler \<Rightarrow>
     request \<Rightarrow> 'w hstate \<Rightarrow> 'w hstate" where
  "ServeHTTP ops serve h r s =
     (let assetName = trim_char CHR ''/'' (PathValue r ''assetName'') in
      case ws_accept ops (accept_options_of h) r (world s) of
        (Inl e, w1) \<Rightarrow> s\<lparr>world := w1\<rparr>
      | (Inr conn, w1) \<Rightarrow>
         (case ws_read ops conn (auth_timeout h) w1 of
            (Inl e, w2) \<Rightarrow> s\<lparr>world := ws_close ops conn StatusPolicyViolation ''unauthorized'' w2\<rparr>
          | (Inr msg, w2) \<Rightarrow>
             (case authorize h r of
                None \<Rightarrow> s\<lparr>world := ws_close ops conn StatusPolicyViolation ''unauthorized'' w2\<rparr>
              | Some (userID, attemptID) \<Rightarrow>
                 (case Acquire userID (limiter s) of
                    (Inl e, l1) \<Rightarrow> s\<lparr>limiter := l1,
                      world := ws_close ops conn StatusPolicyViolation ''too many connections'' w2\<rparr>
                  | (Inr u, l1) \<Rightarrow>
                      serve_session ops serve h conn assetName userID (s\<lparr>limiter := l1, world := w2\<rparr>)))))"

lemma authorize_Some:
  "authorize h r = Some (u, a) \<longleftrightarrow>
     (if SkipAuth h
      then u = (if Header r ''X-User-Id'' = [] then ''anonymous'' else Header r ''X-User-Id'') \<and>
           a = (if Header r ''X-Attempt-Id'' = [] then ''anonymous'' else Header r ''X-Attempt-Id'')
      else a = AttemptID h \<and> Header r ''X-Attempt-Id'' = AttemptID h \<and> u = OwnerID h \<and>
           Header r ''X-User-Id'' = OwnerID h \<and> OwnerID h \<noteq> [])"
  by (auto simp: authorize_def Let_def)

lemma authorize_user_nonempty: "authorize h r = Some (u, a) \<Longrightarrow> u \<noteq> []"
  by (auto simp: authorize_Some split: if_splits)

text \<open>The five ways a request can end.\<close>

lemma ServeHTTP_cases:
  obtains (no_upgrade) e w1 where "ws_accept ops (accept_options_of h) r (world s) = (Inl e, w1)"
      "ServeHTTP ops serve h r s = s\<lparr>world := w1\<rparr>"
  | (no_message) conn w1 e w2 where "ws_accept ops (accept_options_of h) r (world s) = (Inr conn, w1)"
      "ws_read ops conn (auth_timeout h) w1 = (Inl e, w2)"
      "ServeHTTP ops serve h r s = s\<lparr>world := ws_close ops conn StatusPolicyViolation ''unauthorized'' w2\<rparr>"
  | (unauthorized) conn w1 msg w2 where
      "ws_accept ops (accept_options_of h) r (world s) = (Inr conn, w1)"
      "ws_read ops conn (auth_timeout h) w1 = (Inr msg, w2)" "authorize h r = None"
      "ServeHTTP ops serve h r s = s\<lparr>world := ws_close ops conn StatusPolicyViolation ''unauthorized'' w2\<rparr>"
  | (limited) conn w1 msg w2 u a e l1 where
      "ws_accept ops (accept_options_of h) r (world s) = (Inr conn, w1)"
      "ws_read ops conn (auth_timeout h) w1 = (Inr msg, w2)" "authorize h r = Some (u, a)"
      "Acquire u (limiter s) = (Inl e, l1)"
      "ServeHTTP ops serve h r s = s\<lparr>limiter := l1,
         world := ws_close ops conn StatusPolicyViolation ''too many connections'' w2\<rparr>"
  | (served) conn w1 msg w2 u a x l1 where
      "ws_accept ops (accept_options_of h) r (world s) = (Inr conn, w1)"
      "ws_read ops conn (auth_timeout h) w1 = (Inr msg, w2)" "authorize h r = Some (u, a)"
      "Acquire u (limiter s) = (Inr x, l1)"
      "ServeHTTP ops serve h r s = serve_session ops serve h conn
         (trim_char CHR ''/'' (PathValue r ''assetName'')) u (s\<lparr>limiter := l1, world := w2\<rparr>)"
proof -
  obtain r1 w1 where acc: "ws_accept ops (accept_options_of h) r (world s) = (r1, w1)" by force
  obtain r2 w2 where rd: "ws_read ops (projr r1) (auth_timeout h) w1 = (r2, w2)" by force
  obtain r3 l1 where acq: "Acquire (fst (the (authorize h r))) (limiter s) = (r3, l1)" by force
  note outcome = acc rd acq
  show ?thesis
  proof (cases r1; cases r2; cases "authorize h r"; cases r3)
    fix conn msg ids e
    assume "r1 = Inr conn" "r2 = Inr msg" "authorize h r = Some ids" "r3 = Inl e"
    then show ?thesis using limited[of conn w1 msg w2 "fst ids" "snd ids" e l1] outcome
      by (cases ids) (simp add: ServeHTTP_def Let_def)
  next
    fix conn msg ids x
    assume "r1 = Inr conn" "r2 = Inr msg" "authorize h r = Some ids" "r3 = Inr x"
    then show ?thesis using served[of conn w1 msg w2 "fst ids" "snd ids" x l1] outcome
      by (cases ids) (simp add: ServeHTTP_def Let_def)
  qed (use no_upgrade[of _ w1] no_message[of _ w1 _ w2] unauthorized[of _ w1 _ w2] outcome in \<open>auto simp: ServeHTTP_def Let_def\<close>)
qed

section \<open>Who reaches the backend\<close>

text \<open>
  C17: The backend can have an effect on a request only if the request is authorized and a slot
  was free: without \<open>SkipAuth\<close>, both injected headers must equal the relay's own attempt and
  owner, and the owner must not be empty. If two backends make any difference to a request,
  these conditions held.
\<close>
theorem backend_reached_only_if_authorized:
  assumes "ServeHTTP ops serve h r s \<noteq> ServeHTTP ops serve' h r s" "limiter_ok (limiter s)"
  shows "\<exists>u a. authorize h r = Some (u, a) \<and> u \<noteq> [] \<and> slots (limiter s) u < sint (lim_max (limiter s)) \<and>
    (SkipAuth h \<or> (Header r ''X-Attempt-Id'' = AttemptID h \<and> Header r ''X-User-Id'' = OwnerID h \<and>
       u = OwnerID h \<and> a = AttemptID h))"
proof (cases rule: ServeHTTP_cases[of ops h r s serve])
  case (served conn w1 msg w2 u a x l1)
  then have "slots (limiter s) u < sint (lim_max (limiter s))"
    using lim.acquire_granted[OF assms(2)] by blast
  moreover have "u \<noteq> []" using served(3) by (rule authorize_user_nonempty)
  ultimately show ?thesis using served(3) by (auto simp: authorize_Some split: if_splits)
qed (use assms(1) in \<open>simp_all add: ServeHTTP_def Let_def\<close>)

text \<open>A request with a world that records which users were served.\<close>

definition demo_ops :: "(string list, nat, unit) ws_ops" where
  "demo_ops = \<lparr>ws_accept = (\<lambda>_ _ w. (Inr 7, w)), ws_read = (\<lambda>_ _ w. (Inr ''hi'', w)),
     ws_close = (\<lambda>_ _ m w. w @ [m])\<rparr>"

definition demo_handler :: handler where
  "demo_handler = \<lparr>AttemptID = ''a1'', OwnerID = ''u1'', SkipAuth = False, AllowedOrigins = [],
     AuthTimeout = 0, HasWG = True\<rparr>"

definition demo_request :: request where
  "demo_request = \<lparr>PathValue = (\<lambda>_. ''vm/''),
     Header = (\<lambda>k. if k = ''X-User-Id'' then ''u1'' else if k = ''X-Attempt-Id'' then ''a1'' else [])\<rparr>"

definition demo_hstate :: "string list hstate" where
  "demo_hstate = \<lparr>limiter = NewConnLimiter 16, wg = 0, world = []\<rparr>"

definition demo_serve :: "nat \<Rightarrow> string \<Rightarrow> string \<Rightarrow> (string list hstate, unit, unit) call" where
  "demo_serve c asset u s = (Inr (), s\<lparr>world := world s @ [asset]\<rparr>)"

lemma demo_served:
  "world (ServeHTTP demo_ops demo_serve demo_handler demo_request demo_hstate) = [''vm'', []]"
  "world (ServeHTTP demo_ops (\<lambda>_ _ _ s. (Inr (), s)) demo_handler demo_request demo_hstate) = [[]]"
  by code_simp+

theorem backend_reached_only_if_authorized_witness:
  "\<exists>u a. authorize demo_handler demo_request = Some (u, a) \<and> u = ''u1''"
proof -
  have "ServeHTTP demo_ops demo_serve demo_handler demo_request demo_hstate \<noteq>
      ServeHTTP demo_ops (\<lambda>_ _ _ s. (Inr (), s)) demo_handler demo_request demo_hstate"
    using demo_served by auto
  moreover have "limiter_ok (limiter demo_hstate)"
    by (simp add: demo_hstate_def NewConnLimiter_ok)
  ultimately show ?thesis
    using backend_reached_only_if_authorized[of demo_ops demo_serve demo_handler demo_request demo_hstate
        "\<lambda>_ _ _ s. (Inr (), s)"]
    by (auto simp: demo_handler_def)
qed

section \<open>Slots and the wait group are given back\<close>

text \<open>A backend that leaves the holdings and the wait group as it found them, whatever else ran.\<close>

definition balanced :: "('c \<Rightarrow> string \<Rightarrow> string \<Rightarrow> ('w hstate, 'e, unit) call) \<Rightarrow> bool" where
  "balanced serve \<longleftrightarrow> (\<forall>c a u s. limiter_ok (limiter s) \<longrightarrow>
     limiter_ok (limiter (snd (serve c a u s))) \<and>
     slots (limiter (snd (serve c a u s))) = slots (limiter s) \<and> wg (snd (serve c a u s)) = wg s)"

lemma serve_session_balanced:
  fixes ops h conn asset w2
  assumes "balanced serve" "limiter_ok (limiter s)" "Acquire u (limiter s) = (Inr x, l1)"
  defines "t \<equiv> serve_session ops serve h conn asset u (s\<lparr>limiter := l1, world := w2\<rparr>)"
  shows "limiter_ok (limiter t) \<and> slots (limiter t) = slots (limiter s) \<and> wg t = wg s"
proof -
  define s1 where "s1 = (if HasWG h then s\<lparr>limiter := l1, world := w2, wg := wg s + 1\<rparr>
    else s\<lparr>limiter := l1, world := w2\<rparr>)"
  define s2 where "s2 = snd (serve conn asset u s1)"
  have l1: "limiter s1 = l1" by (simp add: s1_def)
  have ok1: "limiter_ok l1" using lim.acquire_granted[OF assms(2,3)] by blast
  have s2: "limiter_ok (limiter s2)" "slots (limiter s2) = slots l1" "wg s2 = wg s1"
    using assms(1) ok1 l1 unfolding balanced_def s2_def by metis+
  have "limiter_ok (Release u (limiter s2)) \<and> (\<forall>v. slots (Release u (limiter s2)) v = slots (limiter s) v + 0)"
    using lim.session_balanced[of "limiter s" u x l1 "\<lambda>_. limiter s2" "\<lambda>_. 0"] assms(2,3) s2
      lim.held_nonneg[OF assms(2)] by simp
  moreover have "limiter t = Release u (limiter s2)"
    by (simp add: t_def serve_session_def Let_def s2_def s1_def)
  moreover have "wg t = wg s"
    using s2(3) by (cases "HasWG h") (simp_all add: t_def serve_session_def Let_def s2_def s1_def)
  ultimately show ?thesis by (simp add: fun_eq_iff)
qed

text \<open>
  C28: Whatever happens to a request - no upgrade, no first message, unauthorized, over the limit,
  served, the backend failing or not - the slots every user holds and the wait group are
  afterwards what they were before, and the limiter's invariant holds.
\<close>
theorem request_gives_back_slot:
  assumes "balanced serve" "limiter_ok (limiter s)"
  shows "limiter_ok (limiter (ServeHTTP ops serve h r s)) \<and>
    slots (limiter (ServeHTTP ops serve h r s)) = slots (limiter s) \<and> wg (ServeHTTP ops serve h r s) = wg s"
proof (cases rule: ServeHTTP_cases[of ops h r s serve])
  case (limited conn w1 msg w2 u a e l1)
  then show ?thesis using lim.acquire_refused[OF assms(2) limited(4)] by simp
next
  case (served conn w1 msg w2 u a x l1)
  then show ?thesis using serve_session_balanced[OF assms served(4)] by simp
qed (simp_all add: assms)

theorem request_gives_back_slot_witness:
  "slots (limiter (ServeHTTP demo_ops demo_serve demo_handler demo_request demo_hstate)) ''u1'' = 0"
proof -
  have "balanced demo_serve" by (simp add: balanced_def demo_serve_def)
  moreover have "limiter_ok (limiter demo_hstate)" by (simp add: demo_hstate_def NewConnLimiter_ok)
  ultimately have "slots (limiter (ServeHTTP demo_ops demo_serve demo_handler demo_request demo_hstate)) =
      slots (limiter demo_hstate)"
    using request_gives_back_slot by blast
  then show ?thesis by (simp add: demo_hstate_def NewConnLimiter_def slots_def)
qed

section \<open>How the connection ends\<close>

text \<open>
  Operations that keep a list of the closes, over a library that upgrades and reads as \<open>acc\<close> and
  \<open>rd\<close> say.
\<close>

definition close_logging ::
  "(accept_options \<Rightarrow> request \<Rightarrow> 'e + 'c) \<Rightarrow> ('c \<Rightarrow> int \<Rightarrow> 'e + bytes) \<Rightarrow>
     (('c \<times> status_code \<times> string) list, 'c, 'e) ws_ops" where
  "close_logging acc rd =
     \<lparr>ws_accept = (\<lambda>opts r w. (acc opts r, w)), ws_read = (\<lambda>c t w. (rd c t, w)),
      ws_close = (\<lambda>c st m w. w @ [(c, st, m)])\<rparr>"


definition demo_log_state :: "(nat \<times> status_code \<times> string) list hstate" where
  "demo_log_state = \<lparr>limiter = NewConnLimiter 16, wg = 0, world = []\<rparr>"

definition demo_idle :: "nat \<Rightarrow> string \<Rightarrow> string \<Rightarrow> ((nat \<times> status_code \<times> string) list hstate, unit, unit) call" where
  "demo_idle c asset u s = (Inr (), s)"


end
