(* ===== verification/RelayConfig.thy ===== *)
theory RelayConfig
  imports RelayHandler GraderServe Forwarder
begin

text \<open>
  \<open>services/relay/cmd/relay-exec/main.go\<close> and \<open>services/relay/cmd/relay-grader/main.go\<close>: the
  configuration from the environment and what \<open>main\<close> builds from it before it serves. The
  environment is a function that gives the empty string for an unset variable, as \<open>os.Getenv\<close>
  does; a failed check is the name of the variable it complains of.
\<close>

datatype log_level = LevelInfo | LevelDebug

record config =
  port :: string
  namespace :: string
  attemptID :: string
  ownerID :: string
  skipAuth :: bool
  allowedOrigins :: "string list"
  logLevel :: log_level

record exec_config = config +
  graderAddr :: string

record grader_config = config +
  internalPort :: string
  tasksFile :: string

definition default_to :: "string \<Rightarrow> string \<Rightarrow> string" where
  "default_to d s = (if s = [] then d else s)"

text \<open>The loop over \<open>RELAY_ALLOWED_ORIGINS\<close>.\<close>

fun collect_origins :: "string list \<Rightarrow> string list" where
  "collect_origins [] = []"
| "collect_origins (x # xs) =
     (let o1 = trim_space x in if o1 \<noteq> [] then o1 # collect_origins xs else collect_origins xs)"

definition parse_origins :: "string \<Rightarrow> string list" where
  "parse_origins raw = (if raw \<noteq> [] then collect_origins (split_on CHR '','' raw) else [])"

definition level_of :: "string \<Rightarrow> log_level" where
  "level_of s = (if s = ''debug'' then LevelDebug else LevelInfo)"

definition loadExecConfig :: "(string \<Rightarrow> string) \<Rightarrow> string + exec_config" where
  "loadExecConfig env =
     (let level = level_of (env ''LOG_LEVEL'');
          skip = (env ''RELAY_SKIP_AUTH'' = ''true'');
          attempt = env ''RELAY_MY_ATTEMPT_ID'';
          owner = env ''RELAY_MY_OWNER_ID'';
          ns = env ''RELAY_MY_NAMESPACE''
      in if attempt = [] \<and> \<not> skip then Inl ''RELAY_MY_ATTEMPT_ID''
         else if owner = [] \<and> \<not> skip then Inl ''RELAY_MY_OWNER_ID''
         else if ns = [] then Inl ''RELAY_MY_NAMESPACE''
         else Inr \<lparr>port = default_to ''8080'' (env ''RELAY_LISTEN_PORT''), namespace = ns, attemptID = attempt,
                ownerID = owner, skipAuth = skip,
                allowedOrigins = parse_origins (env ''RELAY_ALLOWED_ORIGINS''), logLevel = level,
                graderAddr = env ''RELAY_GRADER_ADDR''\<rparr>)"

definition loadGraderMainConfig :: "(string \<Rightarrow> string) \<Rightarrow> string + grader_config" where
  "loadGraderMainConfig env =
     (let level = level_of (env ''LOG_LEVEL'');
          skip = (env ''RELAY_SKIP_AUTH'' = ''true'');
          attempt = env ''RELAY_MY_ATTEMPT_ID'';
          owner = env ''RELAY_MY_OWNER_ID'';
          ns = env ''RELAY_MY_NAMESPACE'';
          tasks = env ''RELAY_TASKS_FILE''
      in if attempt = [] \<and> \<not> skip then Inl ''RELAY_MY_ATTEMPT_ID''
         else if owner = [] \<and> \<not> skip then Inl ''RELAY_MY_OWNER_ID''
         else if ns = [] then Inl ''RELAY_MY_NAMESPACE''
         else if tasks = [] then Inl ''RELAY_TASKS_FILE''
         else Inr \<lparr>port = default_to ''8080'' (env ''RELAY_LISTEN_PORT''), namespace = ns, attemptID = attempt,
                ownerID = owner, skipAuth = skip,
                allowedOrigins = parse_origins (env ''RELAY_ALLOWED_ORIGINS''), logLevel = level,
                internalPort = default_to ''8081'' (env ''RELAY_GRADER_INTERNAL_PORT''), tasksFile = tasks\<rparr>)"

text \<open>The handler both programs build: sixteen connections per user, a wait group, the default timeout.\<close>

definition handler_of :: "'a config_scheme \<Rightarrow> handler" where
  "handler_of cfg =
     \<lparr>AttemptID = attemptID cfg, OwnerID = ownerID cfg, SkipAuth = skipAuth cfg,
      AllowedOrigins = allowedOrigins cfg, AuthTimeout = 0, HasWG = True\<rparr>"

definition relay_limiter :: conn_limiter where
  "relay_limiter = NewConnLimiter 16"

text \<open>
  How far \<open>main\<close> gets: an exit code, or a server with what it is made of. \<open>healthz\<close> is the
  status of a GET of \<open>http://localhost:8080/healthz\<close>, if there was an answer.
\<close>

datatype 'a startup = Exit int | Running 'a

definition healthcheck :: "int option \<Rightarrow> int" where
  "healthcheck healthz = (if healthz = Some 200 then 0 else 1)"

definition exec_main ::
  "string list \<Rightarrow> int option \<Rightarrow> (string \<Rightarrow> string) \<Rightarrow> 'e + 'k \<Rightarrow> (exec_config \<times> handler \<times> 'k \<times> fwd_sys) startup" where
  "exec_main args healthz env new_kube_execer =
     (if length args = 2 \<and> args ! 1 = ''--healthcheck'' then Exit (healthcheck healthz)
      else (case loadExecConfig env of
        Inl e \<Rightarrow> Exit 1
      | Inr cfg \<Rightarrow>
         (case new_kube_execer of
            Inl e \<Rightarrow> Exit 1
          | Inr k \<Rightarrow> Running (cfg, handler_of cfg, k, NewForwarder (graderAddr cfg)))))"

definition grader_main ::
  "string list \<Rightarrow> int option \<Rightarrow> (string \<Rightarrow> string) \<Rightarrow> (string \<Rightarrow> 'e + bytes) \<Rightarrow> (string \<Rightarrow> 're option) \<Rightarrow>
     (grader_config \<times> handler \<times> ('re, 'c) backend) startup" where
  "grader_main args healthz env read_file compile =
     (if length args = 2 \<and> args ! 1 = ''--healthcheck'' then Exit (healthcheck healthz)
      else (case loadGraderMainConfig env of
        Inl e \<Rightarrow> Exit 1
      | Inr cfg \<Rightarrow>
         (case LoadTasks (read_file (tasksFile cfg)) of
            Inl e \<Rightarrow> Exit 1
          | Inr tasks \<Rightarrow> Running (cfg, handler_of cfg, NewBackend compile tasks))))"

text \<open>The answer of \<open>/healthz\<close>: status, content type and the body \<open>Encode\<close> writes.\<close>

definition health_response :: "int \<times> string \<times> bytes" where
  "health_response =
     (200, ''application/json'', print_json (JObj [(''status'', JStr ''ok'')]) @ [newline])"

lemma collect_origins_eq: "collect_origins xs = filter (\<lambda>x. x \<noteq> []) (map trim_space xs)"
  by (induction xs) (simp_all add: Let_def)

lemma default_to_nonempty: "d \<noteq> [] \<Longrightarrow> default_to d s \<noteq> []"
  by (simp add: default_to_def)

lemma loadExecConfig_Inr:
  assumes "loadExecConfig env = Inr cfg"
  shows "attemptID cfg = env ''RELAY_MY_ATTEMPT_ID'' \<and>
     ownerID cfg = env ''RELAY_MY_OWNER_ID'' \<and> skipAuth cfg = (env ''RELAY_SKIP_AUTH'' = ''true'') \<and>
     (skipAuth cfg \<or> (attemptID cfg \<noteq> [] \<and> ownerID cfg \<noteq> [])) \<and> namespace cfg \<noteq> [] \<and> port cfg \<noteq> []"
proof -
  note guards = assms[unfolded loadExecConfig_def Let_def guard_Inr sum.inject]
  note g = guards[THEN conjunct1] guards[THEN conjunct2, THEN conjunct1] guards[THEN conjunct2, THEN conjunct2, THEN conjunct1]
  note cfg = guards[THEN conjunct2, THEN conjunct2, THEN conjunct2, symmetric]
  show ?thesis unfolding cfg using g by (simp add: default_to_nonempty) blast
qed

lemma loadGraderMainConfig_Inr:
  assumes "loadGraderMainConfig env = Inr cfg"
  shows "attemptID cfg = env ''RELAY_MY_ATTEMPT_ID'' \<and>
     ownerID cfg = env ''RELAY_MY_OWNER_ID'' \<and> skipAuth cfg = (env ''RELAY_SKIP_AUTH'' = ''true'') \<and>
     (skipAuth cfg \<or> (attemptID cfg \<noteq> [] \<and> ownerID cfg \<noteq> [])) \<and> namespace cfg \<noteq> [] \<and> port cfg \<noteq> [] \<and>
     tasksFile cfg \<noteq> [] \<and> internalPort cfg \<noteq> []"
proof -
  note guards = assms[unfolded loadGraderMainConfig_def Let_def guard_Inr sum.inject]
  note g = guards[THEN conjunct1] guards[THEN conjunct2, THEN conjunct1] guards[THEN conjunct2, THEN conjunct2, THEN conjunct1] guards[THEN conjunct2, THEN conjunct2, THEN conjunct2, THEN conjunct1]
  note cfg = guards[THEN conjunct2, THEN conjunct2, THEN conjunct2, THEN conjunct2, symmetric]
  show ?thesis unfolding cfg using g by (simp add: default_to_nonempty) blast
qed

text \<open>What a started relay grants: the shared fact behind both programs.\<close>

lemma started_handler_authorize:
  assumes "skipAuth cfg \<or> (attemptID cfg \<noteq> [] \<and> ownerID cfg \<noteq> [])"
  shows "authorize (handler_of cfg) r = Some (u, a) \<and> \<not> skipAuth cfg \<longleftrightarrow>
    \<not> skipAuth cfg \<and> Header r ''X-Attempt-Id'' = attemptID cfg \<and> Header r ''X-User-Id'' = ownerID cfg \<and>
    u = ownerID cfg \<and> a = attemptID cfg"
  using assms by (auto simp: authorize_Some handler_of_def)

text \<open>
  A relay-exec that starts is bound to one attempt and one owner, neither empty, unless it was
  told \<open>RELAY_SKIP_AUTH=true\<close>: its handler authorizes a request exactly when both injected
  headers are these two, so a request without headers is never authorized. Without a namespace it
  does not start at all.
\<close>
theorem exec_main_bound_to_owner:
  assumes "exec_main args healthz env kube = Running (cfg, h, k, f)"
  shows "env ''RELAY_MY_NAMESPACE'' \<noteq> [] \<and> f = NewForwarder (env ''RELAY_GRADER_ADDR'') \<and>
    (if env ''RELAY_SKIP_AUTH'' = ''true'' then \<forall>r. authorize h r \<noteq> None
     else env ''RELAY_MY_ATTEMPT_ID'' \<noteq> [] \<and> env ''RELAY_MY_OWNER_ID'' \<noteq> [] \<and>
       (\<forall>r. authorize h r = (if Header r ''X-Attempt-Id'' = env ''RELAY_MY_ATTEMPT_ID'' \<and>
            Header r ''X-User-Id'' = env ''RELAY_MY_OWNER_ID''
          then Some (env ''RELAY_MY_OWNER_ID'', env ''RELAY_MY_ATTEMPT_ID'') else None)))"
proof -
  have load: "loadExecConfig env = Inr cfg" and h: "h = handler_of cfg" and f: "f = NewForwarder (graderAddr cfg)"
    using assms by (auto simp: exec_main_def split: if_splits sum.splits)
  note c = loadExecConfig_Inr[OF load]
  have g: "graderAddr cfg = env ''RELAY_GRADER_ADDR''" "namespace cfg = env ''RELAY_MY_NAMESPACE''"
    using load by (auto simp: loadExecConfig_def Let_def guard_Inr)
  show ?thesis
    using c g by (auto simp: h f authorize_def handler_of_def Let_def)
qed

theorem exec_main_bound_to_owner_witness:
  "authorize (handler_of \<lparr>port = ''8080'', namespace = ''labs'', attemptID = ''a1'', ownerID = ''u1'', skipAuth = False,
      allowedOrigins = [], logLevel = LevelInfo\<rparr>) \<lparr>PathValue = (\<lambda>_. []), Header = (\<lambda>_. [])\<rparr> = None"
proof -
  let ?env = "(\<lambda>_. [])(''RELAY_MY_ATTEMPT_ID'' := ''a1'', ''RELAY_MY_OWNER_ID'' := ''u1'', ''RELAY_MY_NAMESPACE'' := ''labs'')"
  have "exec_main [''relay''] None ?env (Inr () :: unit + unit) =
      Running (\<lparr>port = ''8080'', namespace = ''labs'', attemptID = ''a1'', ownerID = ''u1'', skipAuth = False,
        allowedOrigins = [], logLevel = LevelInfo, graderAddr = []\<rparr>,
        handler_of \<lparr>port = ''8080'', namespace = ''labs'', attemptID = ''a1'', ownerID = ''u1'', skipAuth = False,
          allowedOrigins = [], logLevel = LevelInfo\<rparr>, (), NewForwarder [])"
    by (simp add: exec_main_def loadExecConfig_def level_of_def default_to_def parse_origins_def handler_of_def)
  from exec_main_bound_to_owner[OF this] show ?thesis by simp
qed

text \<open>
  The probe of both programs asks port 8080 whatever \<open>RELAY_LISTEN_PORT\<close> says.
\<close>

lemma healthcheck_ignores_config:
  "exec_main [prog, ''--healthcheck''] healthz env kube = Exit (if healthz = Some 200 then 0 else 1) \<and>
   (grader_main [prog, ''--healthcheck''] healthz env read_file compile :: (_ \<times> _ \<times> ('re, 'c) backend) startup) =
     Exit (if healthz = Some 200 then 0 else 1)"
  by (simp add: exec_main_def grader_main_def healthcheck_def)

end
