(* ===== verification/Authenticator.thy ===== *)
theory Authenticator
  imports Http
begin

text \<open>
  \<open>services/relay-authenticator\<close>: the forward-auth endpoint in front of every relay
  (\<open>internal/auth/handler.go\<close>), its PocketBase client (\<open>internal/pbclient/client.go\<close>) and the
  start of \<open>cmd/main.go\<close>. PocketBase and the network are the argument \<open>do\<close>. The interface
  \<open>PocketBase\<close> of the handler is a locale; the client is interpreted as a provider of it.
\<close>

section \<open>The attempt id in the forwarded URI\<close>

definition parseAttemptID :: "string \<Rightarrow> string option" where
  "parseAttemptID uri =
     (let parts = split_n 4 CHR ''/'' (trim_prefix uri ''/'') in
      if length parts < 3 \<or> parts ! 0 \<noteq> ''relay'' \<or> (parts ! 1 \<noteq> ''exec'' \<and> parts ! 1 \<noteq> ''grade'') \<or>
         parts ! 2 = []
      then None else Some (parts ! 2))"

section \<open>The handler\<close>

record auth_request =
  Cookie :: "string option"
  ForwardedURI :: string

record auth_response =
  auth_status :: int
  auth_headers :: "(string \<times> string) list"

definition http_error :: "int \<Rightarrow> auth_response" where
  "http_error code = \<lparr>auth_status = code, auth_headers = []\<rparr>"

definition serve_auth ::
  "(string \<Rightarrow> ('w, 'e, string) call) \<Rightarrow> (string \<Rightarrow> string \<Rightarrow> ('w, 'e, string) call) \<Rightarrow>
     auth_request \<Rightarrow> 'w \<Rightarrow> auth_response \<times> 'w" where
  "serve_auth validate get_attempt r w =
     (case Cookie r of
        None \<Rightarrow> (http_error StatusUnauthorized, w)
      | Some token \<Rightarrow>
          if ForwardedURI r = [] then (http_error StatusBadRequest, w)
          else (case parseAttemptID (ForwardedURI r) of
            None \<Rightarrow> (http_error StatusBadRequest, w)
          | Some attemptID \<Rightarrow>
             (case validate token w of
                (Inl e, w1) \<Rightarrow> (http_error StatusUnauthorized, w1)
              | (Inr userID, w1) \<Rightarrow>
                 (case get_attempt token attemptID w1 of
                    (Inl e, w2) \<Rightarrow> (http_error StatusForbidden, w2)
                  | (Inr ownerID, w2) \<Rightarrow>
                      if ownerID \<noteq> userID then (http_error StatusForbidden, w2)
                      else (\<lparr>auth_status = StatusOK,
                             auth_headers = [(''X-User-Id'', userID), (''X-Attempt-Id'', attemptID)]\<rparr>, w2)))))"

section \<open>The PocketBase client\<close>

record pb_client = baseURL :: string

definition new_client :: "string \<Rightarrow> pb_client" where
  "new_client url = \<lparr>baseURL = trim_right_char CHR ''/'' url\<rparr>"

definition id_fields :: "string fields" where
  "id_fields = [(''id'', dec_string)]"

definition token_record_fields :: "string fields" where
  "token_record_fields = [(''record'', dec_struct id_fields)]"

definition user_fields :: "string fields" where
  "user_fields = [(''user'', dec_string)]"

definition refresh_request :: "pb_client \<Rightarrow> string \<Rightarrow> http_request" where
  "refresh_request c token =
     \<lparr>Method = ''POST'', URL = baseURL c @ ''/api/collections/users/auth-refresh'',
      ReqHeader = [(''Authorization'', token)], ReqBody = []\<rparr>"

definition attempt_request :: "pb_client \<Rightarrow> string \<Rightarrow> string \<Rightarrow> http_request" where
  "attempt_request c token attemptID =
     \<lparr>Method = ''GET'', URL = baseURL c @ ''/api/collections/attempts/records/'' @ path_escape attemptID,
      ReqHeader = [(''Authorization'', token)], ReqBody = []\<rparr>"

definition ValidateToken ::
  "(string \<Rightarrow> bool) \<Rightarrow> ('w, 'e) transport \<Rightarrow> pb_client \<Rightarrow> string \<Rightarrow> ('w, 'e client_error, string) call" where
  "ValidateToken url_ok do c token =
     call_bind (send_request url_ok do (refresh_request c token)) (\<lambda>resp.
       if StatusCode resp = StatusUnauthorized \<or> StatusCode resp = StatusForbidden
       then call_fail (UnexpectedStatus (StatusCode resp))
       else if StatusCode resp \<noteq> StatusOK then call_fail (UnexpectedStatus (StatusCode resp))
       else (case decode_body (dec_struct token_record_fields) [] (Body resp) of
               None \<Rightarrow> call_fail MalformedBody
             | Some uid \<Rightarrow> if uid = [] then call_fail EmptyResult else call_return uid))"

definition GetAttempt_owner ::
  "(string \<Rightarrow> bool) \<Rightarrow> ('w, 'e) transport \<Rightarrow> pb_client \<Rightarrow> string \<Rightarrow> string \<Rightarrow> ('w, 'e client_error, string) call" where
  "GetAttempt_owner url_ok do c token attemptID =
     call_bind (send_request url_ok do (attempt_request c token attemptID)) (\<lambda>resp.
       if StatusCode resp = StatusForbidden \<or> StatusCode resp = StatusNotFound \<or>
          StatusCode resp = StatusUnauthorized
       then call_fail (UnexpectedStatus (StatusCode resp))
       else if StatusCode resp \<noteq> StatusOK then call_fail (UnexpectedStatus (StatusCode resp))
       else (case decode_body (dec_struct user_fields) [] (Body resp) of
               None \<Rightarrow> call_fail MalformedBody
             | Some user \<Rightarrow> call_return user))"

section \<open>Startup\<close>

text \<open>\<open>main\<close>: the exit code, or the port, the client and whether TLS is verified.\<close>

definition authenticator_main ::
  "string list \<Rightarrow> (string \<Rightarrow> int option) \<Rightarrow> (string \<Rightarrow> string) \<Rightarrow> int + (string \<times> pb_client \<times> bool)" where
  "authenticator_main args http_get env =
     (let port = (if env ''INGAUTH_PORT'' = [] then ''8080'' else env ''INGAUTH_PORT'') in
      if length args = 2 \<and> args ! 1 = ''--healthcheck''
      then Inl (if http_get (''http://localhost:'' @ port @ ''/healthz'') = Some 200 then 0 else 1)
      else if env ''RELAUTH_POCKETBASE_URL'' = [] then Inl 1
      else Inr (port, new_client (env ''RELAUTH_POCKETBASE_URL''),
                env ''INGAUTH_POCKETBASE_TLS_VERIFY'' \<noteq> ''false''))"

text \<open>\<open>/readyz\<close>: the status answered, from the status of PocketBase's health endpoint.\<close>

definition readyz :: "(string \<Rightarrow> int option) \<Rightarrow> pb_client \<Rightarrow> int" where
  "readyz http_get c =
     (case http_get (baseURL c @ ''/api/health'') of
        None \<Rightarrow> StatusServiceUnavailable
      | Some code \<Rightarrow> if code \<noteq> StatusOK then StatusServiceUnavailable else StatusOK)"

section \<open>Lemmas\<close>

lemma split_n_4:
  "split_n 4 d s =
     (case cut d s of None \<Rightarrow> [s] | Some (a, s1) \<Rightarrow>
      a # (case cut d s1 of None \<Rightarrow> [s1] | Some (b, s2) \<Rightarrow>
      b # (case cut d s2 of None \<Rightarrow> [s2] | Some (c, s3) \<Rightarrow> [c, s3])))"
  by (simp del: cut_None add: numeral_eq_Suc split: option.split prod.split)

definition relay_kinds :: "string list" where
  "relay_kinds = [''exec'', ''grade'']"

lemma relay_kinds_no_slash: "k \<in> set relay_kinds \<Longrightarrow> CHR ''/'' \<notin> set k"
  by (auto simp: relay_kinds_def)

text \<open>The URIs an id is read from: \<open>relay/kind/id\<close>, with an optional slash before and anything after the next.\<close>

lemma split_n_relay:
  assumes "k \<in> set relay_kinds" "CHR ''/'' \<notin> set aid"
  shows "split_n 4 CHR ''/'' (''relay/'' @ k @ CHR ''/'' # aid) = [''relay'', k, aid]"
    "split_n 4 CHR ''/'' (''relay/'' @ k @ CHR ''/'' # aid @ CHR ''/'' # rest) = [''relay'', k, aid, rest]"
proof -
  note k = relay_kinds_no_slash[OF assms(1)]
  have "cut CHR ''/'' aid = None" using assms(2) by simp
  then show "split_n 4 CHR ''/'' (''relay/'' @ k @ CHR ''/'' # aid) = [''relay'', k, aid]"
    using k by (simp add: split_n_4)
  show "split_n 4 CHR ''/'' (''relay/'' @ k @ CHR ''/'' # aid @ CHR ''/'' # rest) = [''relay'', k, aid, rest]"
    using k assms(2) by (simp add: split_n_4)
qed

lemma parseAttemptID_from:
  assumes "trim_prefix uri ''/'' = ''relay/'' @ k @ CHR ''/'' # aid @ tail" "k \<in> set relay_kinds"
    "aid \<noteq> []" "CHR ''/'' \<notin> set aid" "tail = [] \<or> hd tail = CHR ''/''"
  shows "parseAttemptID uri = Some aid"
proof -
  have "tail = [] \<or> (\<exists>rest. tail = CHR ''/'' # rest)" using assms(5) by (cases tail) auto
  then have "\<exists>ps. split_n 4 CHR ''/'' (trim_prefix uri ''/'') = ''relay'' # k # aid # ps"
    using assms(1,2,4) split_n_relay by (auto simp del: append.simps)
  then show ?thesis using assms(2,3) by (auto simp: parseAttemptID_def relay_kinds_def)
qed

lemma parseAttemptID_shape:
  assumes "parseAttemptID uri = Some aid"
  shows "\<exists>k tail. trim_prefix uri ''/'' = ''relay/'' @ k @ CHR ''/'' # aid @ tail \<and> k \<in> set relay_kinds \<and>
    aid \<noteq> [] \<and> CHR ''/'' \<notin> set aid \<and> (tail = [] \<or> hd tail = CHR ''/'')"
proof -
  let ?s = "trim_prefix uri ''/''"
  note p = assms[unfolded parseAttemptID_def Let_def guard_None]
  obtain a s1 where 1: "cut CHR ''/'' ?s = Some (a, s1)"
    using p by (cases "cut CHR ''/'' ?s") (auto simp: split_n_4)
  obtain b s2 where 2: "cut CHR ''/'' s1 = Some (b, s2)"
    using p 1 by (cases "cut CHR ''/'' s1") (auto simp: split_n_4)
  note s = cut_SomeD[OF 1] cut_SomeD[OF 2]
  show ?thesis
  proof (cases "cut CHR ''/'' s2")
    case None
    then have "aid = s2" "a = ''relay''" "b \<in> set relay_kinds" "s2 \<noteq> []"
      using p 1 2 by (auto simp: split_n_4 relay_kinds_def)
    then show ?thesis using s None by (intro exI[of _ b] exI[of _ "[]"]) auto
  next
    case (Some cs)
    obtain c s3 where cs: "cs = (c, s3)" by force
    then have "aid = c" "a = ''relay''" "b \<in> set relay_kinds" "c \<noteq> []"
      using p 1 2 Some by (auto simp: split_n_4 relay_kinds_def)
    then show ?thesis
      using s cut_SomeD[OF Some[unfolded cs]] by (intro exI[of _ b] exI[of _ "CHR ''/'' # s3"]) auto
  qed
qed

text \<open>
  \<open>parseAttemptID\<close> accepts exactly the URIs whose path is \<open>relay\<close>, then \<open>exec\<close> or \<open>grade\<close>,
  then a non-empty segment, with one optional leading slash and anything after the segment's
  closing slash, and returns that segment: no other place in the URI can supply the id.
\<close>
theorem parseAttemptID_iff:
  "parseAttemptID uri = Some aid \<longleftrightarrow>
     (\<exists>k tail. trim_prefix uri ''/'' = ''relay/'' @ k @ CHR ''/'' # aid @ tail \<and> k \<in> {''exec'', ''grade''} \<and>
        aid \<noteq> [] \<and> CHR ''/'' \<notin> set aid \<and> (tail = [] \<or> hd tail = CHR ''/''))"
  using parseAttemptID_shape[of uri aid] parseAttemptID_from[of uri _ aid]
  by (auto simp: relay_kinds_def)

section \<open>The interface between handler and client\<close>

text \<open>
  What the handler needs of its provider: a validated token names a user. Everything else it
  checks itself.
\<close>

locale pocketbase =
  fixes validate :: "string \<Rightarrow> ('w, 'e, string) call"
    and get_attempt :: "string \<Rightarrow> string \<Rightarrow> ('w, 'e, string) call"
  assumes validated_user: "validate token w = (Inr u, w1) \<Longrightarrow> u \<noteq> []"
begin

lemma serve_auth_granted:
  "auth_status (fst (serve_auth validate get_attempt r w)) = StatusOK \<longleftrightarrow>
     (\<exists>token aid u w1 w2. Cookie r = Some token \<and> parseAttemptID (ForwardedURI r) = Some aid \<and>
        validate token w = (Inr u, w1) \<and> get_attempt token aid w1 = (Inr u, w2) \<and> u \<noteq> [] \<and>
        auth_headers (fst (serve_auth validate get_attempt r w)) = [(''X-User-Id'', u), (''X-Attempt-Id'', aid)])"
  (is "?l \<longleftrightarrow> ?r")
proof
  have nil: "parseAttemptID [] = None" by code_simp
  {
    assume ?l
    then obtain token aid u w1 w2 where *: "Cookie r = Some token" "ForwardedURI r \<noteq> []"
      "parseAttemptID (ForwardedURI r) = Some aid" "validate token w = (Inr u, w1)"
      "get_attempt token aid w1 = (Inr u, w2)"
      by (auto simp: serve_auth_def http_error_def status_defs split: option.splits prod.splits sum.splits if_splits)
    then show ?r using validated_user[OF *(4)] by (auto simp: serve_auth_def)
  next
    assume ?r
    then show ?l using nil by (auto simp: serve_auth_def)
  }
qed

end

interpretation pb: pocketbase "ValidateToken url_ok do c" "GetAttempt_owner url_ok do c" for url_ok do c
proof unfold_locales
  fix token w u w1
  assume "ValidateToken url_ok do c token w = (Inr u, w1)"
  then show "u \<noteq> []"
    by (auto simp: ValidateToken_def call_fail_def call_return_def elim!: call_bind_InrE
        split: if_splits option.splits)
qed

section \<open>End to end\<close>

lemma send_request_Inr:
  "send_request url_ok do req w = (Inr resp, w1) \<longleftrightarrow> url_ok (URL req) \<and> do req w = (Inr resp, w1)"
  by (auto simp: send_request_def split: prod.splits sum.splits)

lemma ValidateToken_Inr:
  "ValidateToken url_ok do c token w = (Inr u, w1) \<longleftrightarrow>
     u \<noteq> [] \<and> url_ok (URL (refresh_request c token)) \<and>
     (\<exists>resp. do (refresh_request c token) w = (Inr resp, w1) \<and> StatusCode resp = StatusOK \<and>
        decode_body (dec_struct token_record_fields) [] (Body resp) = Some u)" (is "?l \<longleftrightarrow> ?r")
proof
  assume ?l
  then show ?r
    unfolding ValidateToken_def
    by (elim call_bind_InrE)
      (auto simp: send_request_Inr call_fail_def call_return_def split: if_splits option.splits)
next
  assume ?r
  then show ?l
    by (auto simp: ValidateToken_def call_bind_def send_request_def call_return_def status_defs)
qed

lemma GetAttempt_owner_Inr:
  "GetAttempt_owner url_ok do c token aid w = (Inr u, w1) \<longleftrightarrow> url_ok (URL (attempt_request c token aid)) \<and>
     (\<exists>resp. do (attempt_request c token aid) w = (Inr resp, w1) \<and> StatusCode resp = StatusOK \<and>
        decode_body (dec_struct user_fields) [] (Body resp) = Some u)" (is "?l \<longleftrightarrow> ?r")
proof
  assume ?l
  then show ?r
    unfolding GetAttempt_owner_def
    by (elim call_bind_InrE)
      (auto simp: send_request_Inr call_fail_def call_return_def split: if_splits option.splits)
next
  assume ?r
  then show ?l
    by (auto simp: GetAttempt_owner_def call_bind_def send_request_def call_return_def status_defs)
qed

text \<open>
  C18: The authenticator grants a request exactly when the \<open>pb_auth\<close> cookie is a token PocketBase
  refreshes with status 200 to a record with a non-empty user id, the forwarded URI names an
  attempt, and PocketBase answers the same token's request for that attempt with status 200 and
  the same user as owner; the headers it then sets are that user and that attempt.
\<close>
theorem authenticator_grants:
  "auth_status (fst (serve_auth (ValidateToken url_ok do c) (GetAttempt_owner url_ok do c) r w)) = StatusOK \<longleftrightarrow>
     (\<exists>token aid u resp1 w1 resp2 w2. Cookie r = Some token \<and> parseAttemptID (ForwardedURI r) = Some aid \<and>
        url_ok (URL (refresh_request c token)) \<and> do (refresh_request c token) w = (Inr resp1, w1) \<and>
        StatusCode resp1 = StatusOK \<and> decode_body (dec_struct token_record_fields) [] (Body resp1) = Some u \<and> u \<noteq> [] \<and>
        url_ok (URL (attempt_request c token aid)) \<and> do (attempt_request c token aid) w1 = (Inr resp2, w2) \<and>
        StatusCode resp2 = StatusOK \<and> decode_body (dec_struct user_fields) [] (Body resp2) = Some u \<and>
        auth_headers (fst (serve_auth (ValidateToken url_ok do c) (GetAttempt_owner url_ok do c) r w)) =
          [(''X-User-Id'', u), (''X-Attempt-Id'', aid)])"
  unfolding pb.serve_auth_granted ValidateToken_Inr GetAttempt_owner_Inr by blast

text \<open>
  The record an attempt lookup asks for is one segment under the attempts collection,
  whatever the id in the URI contains: the escaped id has no slash, question mark or hash, so it
  cannot address another endpoint or add a query, and an id of URL-safe characters is sent as
  it is.
\<close>
theorem attempt_lookup_confined:
  "\<exists>seg. URL (attempt_request c token aid) = baseURL c @ ''/api/collections/attempts/records/'' @ seg \<and>
     set seg \<inter> set ''/?#'' = {} \<and> (list_all url_unreserved aid \<longrightarrow> seg = aid)"
  using path_escape_segment[of aid] path_escape_id[of aid]
  by (auto simp: attempt_request_def list_all_iff)

theorem attempt_lookup_confined_witness:
  "URL (attempt_request (new_client ''http://pb/'') ''t'' ''abc'') = ''http://pb/api/collections/attempts/records/abc''"
proof -
  have "list_all url_unreserved ''abc''" "baseURL (new_client ''http://pb/'') = ''http://pb''" by code_simp+
  then show ?thesis using attempt_lookup_confined[of "new_client ''http://pb/''" "''t''" "''abc''"] by auto
qed

end
