(* ===== verification/Handover.thy ===== *)
theory Handover
  imports ControllerMain OperatorSpec RelayConfig Authenticator
begin

text \<open>
  What one service hands to the next: the controller's custom resource to the operator
  (\<open>toLabEnvironment\<close> and the types of \<open>labenvironment_types.go\<close>), the operator's tasks and environment
  variables to the relays, and its ingress paths to the authenticator.
\<close>

section \<open>From the controller to the operator\<close>

text \<open>The specification an attempt stands for.\<close>

definition lab_asset_of :: "asset \<Rightarrow> lab_asset" where
  "lab_asset_of a = \<lparr>AName = asset.Name a, AImage = Image a, ACPU = CPU a, AMemory = Memory a, ADisk = Disk a,
     AProtocols = RelayProtocols a, ASetup = Setup a\<rparr>"

definition lab_exercise_of :: "exercise \<Rightarrow> lab_exercise" where
  "lab_exercise_of x = \<lparr>XID = ExID x, XDescription = ExDescription x, XType = ExType x, XAsset = ExAsset x,
     XTemplate = ExTemplate x\<rparr>"

definition lab_spec_of :: "attempt \<Rightarrow> lab_spec" where
  "lab_spec_of a = \<lparr>OwnerId = UserID a, OwnerName = UserName a, LabId = LabID a,
     TTL = Duration (Environment a), SpecAssets = map lab_asset_of (Assets (Environment a)),
     SpecExercises = map lab_exercise_of (Exercises a)\<rparr>"

text \<open>
  The interface between a writer and a reader of JSON: what \<open>encode\<close> writes, \<open>dec\<close> reads as \<open>view\<close>,
  element by element in an array; and with integers only and bounded nesting, through text too.
\<close>

locale value_codec =
  fixes encode :: "'a \<Rightarrow> json" and dec :: "'b decoder" and zero :: 'b and view :: "'a \<Rightarrow> 'b"
  assumes decode: "dec zero (encode x) = Some (view x)"
begin

lemma elems: "dec_elems zero dec (map encode xs) = Some (map view xs)"
  by (rule dec_elems_map) (rule decode)

lemma slice: "dec_slice zero dec old (JArr (map encode xs)) = Some (map view xs)"
  by (simp add: dec_slice_def elems)

end

locale text_codec = value_codec +
  fixes depth :: nat
  assumes numbers: "good_numbers (encode x)"
    and shallow: "json_depth (encode x) \<le> depth"
begin

lemma array_depth: "json_depth (JArr (map encode xs)) \<le> Suc depth"
  using shallow by auto

lemma through_text:
  assumes "json_clean (encode x) = encode x" "depth \<le> max_nesting"
  shows "unmarshal dec zero (print_json (encode x)) = Some (view x)"
proof -
  have "json_depth (encode x) \<le> max_nesting" using shallow assms(2) by (rule le_trans)
  then show ?thesis by (simp only: unmarshal_print numbers assms(1) decode)
qed

lemma array_through_text:
  assumes "json_clean (JArr (map encode xs)) = JArr (map encode xs)" "Suc depth \<le> max_nesting"
  shows "unmarshal (dec_slice zero dec) [] (print_json (JArr (map encode xs))) = Some (map view xs)"
proof -
  have "good_numbers (JArr (map encode xs))" using numbers by simp
  moreover have "json_depth (JArr (map encode xs)) \<le> max_nesting" using array_depth assms(2) by (rule le_trans)
  ultimately show ?thesis by (simp only: unmarshal_print assms(1) slice)
qed

end

lemma dec_asset: "dec_struct lab_asset_fields zero_lab_asset (asset_object a) = Some (lab_asset_of a)"
  using dec_elems_map[of "RelayProtocols a" dec_string "[]" JStr "\<lambda>x. x"]
  by (simp add: dec_struct_def asset_object_def find_field_def lab_asset_fields_def field_def dec_string_def
      dec_slice_def zero_lab_asset_def lab_asset_of_def)

lemma dec_exercise: "dec_struct lab_exercise_fields zero_lab_exercise (exercise_object x) = Some (lab_exercise_of x)"
  by (simp add: dec_struct_def exercise_object_def find_field_def lab_exercise_fields_def field_def dec_string_def
      zero_lab_exercise_def lab_exercise_of_def)

lemma depth_le_obj: "(\<And>k v. (k, v) \<in> set ms \<Longrightarrow> json_depth v \<le> n) \<Longrightarrow> json_depth (JObj ms) \<le> Suc n"
  by auto

lemma depth_le_arr: "(\<And>v. v \<in> set vs \<Longrightarrow> json_depth v \<le> n) \<Longrightarrow> json_depth (JArr vs) \<le> Suc n"
  by auto

lemma strings_depth: "json_depth (JArr (map JStr xs)) \<le> 1"
  unfolding One_nat_def by (rule depth_le_arr) auto

interpretation asset_codec: text_codec asset_object "dec_struct lab_asset_fields" zero_lab_asset lab_asset_of 2
proof unfold_locales
  show "json_depth (asset_object a) \<le> 2" for a
    unfolding asset_object_def using depth_le_obj[of _ 1] strings_depth
    by (auto simp: numeral_2_eq_2 simp del: json_depth.simps(1,2) intro!: depth_le_obj)
qed (simp_all add: dec_asset, simp add: asset_object_def)

interpretation exercise_codec: text_codec exercise_object "dec_struct lab_exercise_fields" zero_lab_exercise lab_exercise_of 2
  by unfold_locales (simp_all add: dec_exercise, simp_all add: exercise_object_def)

lemma spec_depth: "json_depth (spec_object a) \<le> 4"
  using depth_le_obj[of _ 3] asset_codec.array_depth[of "Assets (Environment a)"]
    exercise_codec.array_depth[of "Exercises a"]
  unfolding spec_object_def by (auto simp del: json_depth.simps(1))

lemma spec_numbers: "good_numbers (spec_object a)"
  using good_number_int[of "Duration (Environment a)"] asset_codec.numbers exercise_codec.numbers
  by (auto simp: spec_object_def simp del: good_numbers.simps(1))

lemma dec_spec:
  assumes "- (2 ^ 31) \<le> Duration (Environment a)" "Duration (Environment a) < 2 ^ 31"
  shows "dec_struct lab_spec_fields zero_lab_spec (spec_object a) = Some (lab_spec_of a)"
  using assms
  by (simp add: dec_struct_def spec_object_def find_field_def lab_spec_fields_def field_def dec_string_def
      dec_int_str asset_codec.slice exercise_codec.slice zero_lab_spec_def lab_spec_of_def)

text \<open>
  C10: What the controller writes for an attempt is what the operator reads: the specification's JSON
  text, decoded with the operator's types, gives the attempt's owner, lab, time to live, every asset
  and every exercise, in order - for text in UTF-8 and a duration that fits the operator's 32 bits.
\<close>
theorem spec_reaches_operator:
  assumes "json_clean (spec_object a) = spec_object a"
    "- (2 ^ 31) \<le> Duration (Environment a)" "Duration (Environment a) < 2 ^ 31"
  shows "unmarshal (dec_struct lab_spec_fields) zero_lab_spec (print_json (spec_object a)) = Some (lab_spec_of a)"
proof -
  have d: "json_depth (spec_object a) \<le> max_nesting" using spec_depth[of a] by (simp add: max_nesting_def)
  show ?thesis unfolding unmarshal_print[OF spec_numbers d] assms(1) by (rule dec_spec[OF assms(2,3)])
qed

theorem spec_reaches_operator_witness:
  "unmarshal (dec_struct lab_spec_fields) zero_lab_spec
     (print_json (spec_object (zero_attempt\<lparr>UserID := ''u1'', Environment := \<lparr>Duration = 90, Assets = [zero_asset]\<rparr>\<rparr>))) =
   Some (lab_spec_of (zero_attempt\<lparr>UserID := ''u1'', Environment := \<lparr>Duration = 90, Assets = [zero_asset]\<rparr>\<rparr>))"
proof (rule spec_reaches_operator)
  show "json_clean (spec_object (zero_attempt\<lparr>UserID := ''u1'', Environment := \<lparr>Duration = 90, Assets = [zero_asset]\<rparr>\<rparr>)) =
      spec_object (zero_attempt\<lparr>UserID := ''u1'', Environment := \<lparr>Duration = 90, Assets = [zero_asset]\<rparr>\<rparr>)"
    by code_simp
qed (simp_all add: zero_attempt_def)

section \<open>From the operator to the grader\<close>

definition task_of :: "lab_exercise \<Rightarrow> task" where
  "task_of x = \<lparr>task.ID = XID x, Type = XType x, Template = XTemplate x, task.Asset = XAsset x\<rparr>"

lemma dec_task: "dec_struct task_fields zero_task (task_json x) = Some (task_of x)"
  by (simp add: dec_struct_def task_json_def find_field_def task_fields_def field_def dec_string_def
      zero_task_def task_of_def)

interpretation task_codec: text_codec task_json "dec_struct task_fields" zero_task task_of 1
  by unfold_locales (simp_all add: dec_task, auto simp: task_json_def)

lemma tasks_decode:
  assumes "json_clean (JArr (map task_json xs)) = JArr (map task_json xs)"
  shows "unmarshal dec_tasks [] (tasks_json xs) = Some (map task_of xs)"
  unfolding tasks_json_def dec_tasks_def
  by (rule task_codec.array_through_text[OF assms]) (simp add: max_nesting_def)

text \<open>
  C25: The grader starts from exactly the lab's exercises: reading the file the operator mounts for it
  gives their ids, types, templates and assets in order, provided each has an id, a template and the
  type \<open>term\<close>. One exercise that does not makes reading the whole file fail, so that no exercise of
  the lab is graded.
\<close>
theorem exercises_reach_grader:
  assumes "json_clean (JArr (map task_json xs)) = JArr (map task_json xs)"
  shows "if list_all (\<lambda>x. XID x \<noteq> [] \<and> XTemplate x \<noteq> [] \<and> XType x = ''term'') xs
    then LoadTasks (Inr (tasks_json xs) :: unit + bytes) = Inr (map task_of xs)
    else LoadTasks (Inr (tasks_json xs) :: unit + bytes) \<in> range Inl"
proof -
  have v: "list_all (\<lambda>x. XID x \<noteq> [] \<and> XTemplate x \<noteq> [] \<and> XType x = ''term'') xs \<longleftrightarrow>
      (\<forall>t \<in> set (map task_of xs). valid_task t)"
    by (auto simp: list_all_iff valid_task_def task_of_def)
  show ?thesis
    unfolding v check_tasks_None[of 0, symmetric, where ?'a = unit]
    by (auto simp: LoadTasks_def tasks_decode[OF assms])
qed

theorem exercises_reach_grader_witness:
  "LoadTasks (Inr (tasks_json [zero_lab_exercise\<lparr>XID := ''1.1'', XType := ''term'', XTemplate := ''chown''\<rparr>]) :: unit + bytes) =
     Inr [\<lparr>task.ID = ''1.1'', Type = ''term'', Template = ''chown'', task.Asset = []\<rparr>]"
proof -
  let ?xs = "[zero_lab_exercise\<lparr>XID := ''1.1'', XType := ''term'', XTemplate := ''chown''\<rparr>]"
  have "json_clean (JArr (map task_json ?xs)) = JArr (map task_json ?xs)" by code_simp
  from exercises_reach_grader[OF this] show ?thesis by (simp add: task_of_def zero_lab_exercise_def)
qed

section \<open>From the operator to the relays\<close>

text \<open>What \<open>os.Getenv\<close> gives in a container: the value of the variable, or nothing.\<close>

definition container_env :: "(string \<times> string) list \<Rightarrow> string \<Rightarrow> string" where
  "container_env es v = (case map_of es v of None \<Rightarrow> [] | Some x \<Rightarrow> x)"

lemma exec_env:
  "container_env (relay_exec_env env ns) ''RELAY_MY_NAMESPACE'' = ns"
  "container_env (relay_exec_env env ns) ''RELAY_MY_ATTEMPT_ID'' = EnvName env"
  "container_env (relay_exec_env env ns) ''RELAY_MY_OWNER_ID'' = OwnerId (Spec env)"
  "container_env (relay_exec_env env ns) ''RELAY_GRADER_ADDR'' = ''relay-grader:8081''"
  "container_env (relay_exec_env env ns) ''RELAY_SKIP_AUTH'' = []"
  by (simp_all add: container_env_def relay_exec_env_def)

lemma grader_env_values:
  "container_env (grader_env env ns) ''RELAY_MY_NAMESPACE'' = ns"
  "container_env (grader_env env ns) ''RELAY_MY_ATTEMPT_ID'' = EnvName env"
  "container_env (grader_env env ns) ''RELAY_MY_OWNER_ID'' = OwnerId (Spec env)"
  "container_env (grader_env env ns) ''RELAY_TASKS_FILE'' = ''/etc/grader/tasks.json''"
  "container_env (grader_env env ns) ''RELAY_GRADER_INTERNAL_PORT'' = ''8081''"
  "container_env (grader_env env ns) ''RELAY_SKIP_AUTH'' = []"
  by (simp_all add: container_env_def grader_env_def)

text \<open>The handler that relay-exec builds in the pod the operator deploys for a lab.\<close>

definition deployed_exec_handler :: "labenv \<Rightarrow> string + exec_config" where
  "deployed_exec_handler env = loadExecConfig (container_env (relay_exec_env env (namespace_of (EnvName env))))"

lemma deployed_exec:
  assumes "EnvName env \<noteq> []" "OwnerId (Spec env) \<noteq> []"
  shows "\<exists>cfg. deployed_exec_handler env = Inr cfg \<and> AttemptID (handler_of cfg) = EnvName env \<and>
    OwnerID (handler_of cfg) = OwnerId (Spec env) \<and> \<not> SkipAuth (handler_of cfg) \<and>
    graderAddr cfg = ''relay-grader:8081''"
proof -
  have "namespace_of (EnvName env) \<noteq> []" by (simp add: namespace_of_def)
  then show ?thesis
    using assms by (simp add: deployed_exec_handler_def loadExecConfig_def exec_env Let_def handler_of_def)
qed

text \<open>
  The request that Traefik forwards once the authenticator has answered 200: the two headers named
  in \<open>deploy/base/62-relay-auth-middleware.yaml\<close> are replaced by the authenticator's.
\<close>

definition forwarded :: "auth_response \<Rightarrow> request \<Rightarrow> request" where
  "forwarded resp r = r\<lparr>Header := (\<lambda>k. if k \<in> {''X-User-Id'', ''X-Attempt-Id''}
     then (case map_of (auth_headers resp) k of Some v \<Rightarrow> v | None \<Rightarrow> []) else Header r k)\<rparr>"

end
