(* ===== verification/Routing.thy ===== *)
theory Routing
  imports Handover ExecBackend
begin

text \<open>
  The way of a terminal's URL: the prefix the operator gives the ingress (\<open>relay.go\<close>, \<open>grader.go\<close>), the
  attempt the authenticator reads from it, the routes the relays register (\<open>relay/cmd\<close>), and the pod
  that \<open>relay-exec\<close> then asks for.
\<close>

section \<open>Routes\<close>

text \<open>\<open>cleanPath\<close> of \<open>net/http\<close>\<close>

definition clean_path :: "string \<Rightarrow> string" where
  "clean_path p =
     (if p = [] then ''/''
      else (let q = (if hd p \<noteq> CHR ''/'' then CHR ''/'' # p else p); np = path_clean q
            in if last q = CHR ''/'' \<and> np \<noteq> ''/'' then np @ ''/'' else np))"

definition exec_pattern :: "segment list" where
  "exec_pattern = [Lit ''relay'', Lit ''exec'', Wild ''attemptID'', Wild ''assetName'']"

definition grade_pattern :: "segment list" where
  "grade_pattern = [Lit ''relay'', Lit ''grade'', Wild ''attemptID'']"

definition exec_mux :: "string \<Rightarrow> routed" where
  "exec_mux = serve_mux clean_path [''healthz''] (Some exec_pattern)"

definition grade_mux :: "string \<Rightarrow> routed" where
  "grade_mux = serve_mux clean_path [''healthz''] (Some grade_pattern)"

definition auth_mux :: "string \<Rightarrow> routed" where
  "auth_mux = serve_mux clean_path [''auth'', ''healthz'', ''readyz''] None"

text \<open>
  What an Ingress with path type \<open>Prefix\<close> documents: the elements of its path come first in those of the
  request's path.
\<close>

definition ingress_routes :: "kube_object \<Rightarrow> string \<Rightarrow> bool" where
  "ingress_routes obj p =
     (case obj of
        Ingress m i \<Rightarrow>
          (let pre = split_on CHR ''/'' (trim_right_char CHR ''/'' (IngressPath i))
           in IngressPathType i = ''Prefix'' \<and> take (length pre) (split_on CHR ''/'' p) = pre)
      | _ \<Rightarrow> False)"

section \<open>Clean paths\<close>

lemma split_path_of: "list_all (\<lambda>s. CHR ''/'' \<notin> set s) segs \<Longrightarrow> split_on CHR ''/'' (path_of segs) = [] # segs @ [[]]"
proof (induction segs)
  case (Cons s ss)
  obtain r where r: "path_of ss = CHR ''/'' # r" using path_of_Cons by blast
  have "split_on CHR ''/'' (s @ CHR ''/'' # r) = s # split_on CHR ''/'' r"
    using Cons.prems by (intro split_on_append) simp
  moreover have "split_on CHR ''/'' r = ss @ [[]]" using Cons r by simp
  ultimately show ?case by (simp add: r)
qed simp

lemma join_path_of: "segs \<noteq> [] \<Longrightarrow> CHR ''/'' # join ''/'' segs @ ''/'' = path_of segs"
proof (induction segs)
  case (Cons s ss)
  then show ?case by (cases ss) auto
qed simp

lemma clean_path_of:
  assumes "list_all plain_name segs" "segs \<noteq> []"
  shows "clean_path (path_of segs) = path_of segs"
proof -
  obtain r where r: "path_of segs = CHR ''/'' # r" using path_of_Cons by blast
  have "list_all (\<lambda>s. CHR ''/'' \<notin> set s) segs" using assms(1) by (simp add: list_all_iff plain_name_def slash_def)
  then have "clean_elems True [] (split_on slash (path_of segs)) = segs"
    using clean_plain[OF assms(1), of True "[]"]
    by (simp add: split_path_of slash_def clean_elems_append)
  moreover have "has_prefix (path_of segs) ''/''" by (simp add: r has_prefix_def)
  ultimately have c: "path_clean (path_of segs) = CHR ''/'' # join ''/'' segs"
    by (simp add: path_clean_def slash_def)
  have "last (path_of segs) = CHR ''/''" by (simp add: path_of_def)
  moreover have "join ''/'' segs \<noteq> []" using assms by (cases segs; cases "tl segs") (auto simp: plain_name_def)
  ultimately show ?thesis using c join_path_of[OF assms(2)] by (simp add: clean_path_def r Let_def)
qed

lemma plain_segment_name: "plain_segment s \<Longrightarrow> plain_name s"
  by (auto simp: plain_segment_def plain_name_def slash_def list_all_iff)

text \<open>What relay-exec's mux makes of a path with an attempt and an asset.\<close>

lemma exec_mux_asset:
  assumes "plain_segment aid" "plain_name raw" "path_unescape raw = Some asset" "asset \<noteq> ''/''"
  shows "exec_mux (path_of [''relay'', ''exec'', aid, raw]) = Routed [(''attemptID'', aid), (''assetName'', asset)]"
proof -
  have lit: "plain_segment ''relay''" "plain_segment ''exec''" by code_simp+
  have raw: "CHR ''/'' \<notin> set raw" "raw \<noteq> []" using assms(2) by (simp_all add: plain_name_def slash_def)
  note aid = plain_segmentD[OF assms(1)]
  have "aid \<noteq> ''/''" using aid(2) by auto
  have "match_path exec_pattern (path_of [''relay'', ''exec'', aid, raw]) =
      Some [(''attemptID'', aid), (''assetName'', asset)]"
    unfolding exec_pattern_def match_path_Lit[OF lit(1)] match_path_Lit[OF lit(2)]
      match_path_Wild[OF aid(2,1,6) \<open>aid \<noteq> ''/''\<close>] match_path_Wild[OF raw assms(3,4)] by simp
  moreover have "clean_path (path_of [''relay'', ''exec'', aid, raw]) = path_of [''relay'', ''exec'', aid, raw]"
    using plain_segment_name lit assms(1,2) by (intro clean_path_of) simp_all
  moreover have "fixed_route [''healthz''] (path_of [''relay'', ''exec'', aid, raw]) = None"
    by (rule fixed_route_path_of) simp_all
  moreover have "last (path_of [''relay'', ''exec'', aid, raw]) = CHR ''/''" by (simp add: path_of_def)
  ultimately show ?thesis by (simp del: path_of_simps add: exec_mux_def serve_mux_def Let_def)
qed

lemma grade_mux_attempt:
  assumes "plain_segment aid"
  shows "grade_mux (path_of [''relay'', ''grade'', aid]) = Routed [(''attemptID'', aid)]"
proof -
  have lit: "plain_segment ''relay''" "plain_segment ''grade''" by code_simp+
  note aid = plain_segmentD[OF assms]
  have "aid \<noteq> ''/''" using aid(2) by auto
  have "match_path grade_pattern (path_of [''relay'', ''grade'', aid]) = Some [(''attemptID'', aid)]"
    unfolding grade_pattern_def match_path_Lit[OF lit(1)] match_path_Lit[OF lit(2)]
      match_path_Wild[OF aid(2,1,6) \<open>aid \<noteq> ''/''\<close>] by simp
  moreover have "clean_path (path_of [''relay'', ''grade'', aid]) = path_of [''relay'', ''grade'', aid]"
    using plain_segment_name lit assms by (intro clean_path_of) simp_all
  moreover have "fixed_route [''healthz''] (path_of [''relay'', ''grade'', aid]) = None"
    by (rule fixed_route_path_of) simp_all
  moreover have "last (path_of [''relay'', ''grade'', aid]) = CHR ''/''" by (simp add: path_of_def)
  ultimately show ?thesis by (simp del: path_of_simps add: grade_mux_def serve_mux_def Let_def)
qed

text \<open>The authenticator's routes, and what becomes of a path that is not clean or lacks its final slash.\<close>

lemma mux_examples:
  "auth_mux ''/auth'' = RoutedTo ''auth''" "auth_mux ''/auth/'' = NotRouted"
  "exec_mux ''/healthz'' = RoutedTo ''healthz''" "exec_mux ''/relay/exec/a1/vm'' = Redirected"
  "exec_mux ''/relay/exec/../exec/a1/vm/'' = Redirected" "exec_mux ''/relay/grade/a1/'' = NotRouted"
  by code_simp+

section \<open>The ingress and the authenticator\<close>

text \<open>
  With its default base path, whatever path a lab's ingress routes to its relay is one for which the
  authenticator looks up this lab's attempt.
\<close>

lemma split_prefix:
  assumes "take (length pre) (split_on d s) = pre" "pre \<noteq> []"
  shows "\<exists>tail. s = join [d] pre @ tail \<and> (tail = [] \<or> hd tail = d)"
proof -
  have s: "s = join [d] (pre @ drop (length pre) (split_on d s))"
    using append_take_drop_id[of "length pre" "split_on d s"] assms(1) join_split_on[of d s] by simp
  have "\<exists>tail. join [d] (pre @ post) = join [d] pre @ tail \<and> (tail = [] \<or> hd tail = d)" for post
    using assms(2)
  proof (induction pre)
    case (Cons x pre)
    show ?case
    proof (cases pre)
      case Nil
      then show ?thesis by (cases post) auto
    next
      case (Cons y ys)
      with Cons.IH show ?thesis by fastforce
    qed
  qed simp
  with s show ?thesis by metis
qed

lemma ingress_attempt:
  assumes "ingress_routes (ingress_of ns nm env cfg) p" "k \<in> {''exec'', ''grade''}"
    "ingressBasePath cfg = ''/relay/'' @ k" "plain_segment (EnvName env)"
  shows "parseAttemptID p = Some (EnvName env)"
proof -
  note env = plain_segmentD[OF assms(4)]
  have last: "last (EnvName env) \<noteq> CHR ''/''" using env(1,2) last_in_set by metis
  have "trim_right_char CHR ''/'' (''/relay/'' @ k @ ''/'' @ EnvName env) = ''/relay/'' @ k @ ''/'' @ EnvName env"
    using last env(1) unfolding trim_right_char_def
    by (cases "EnvName env" rule: rev_cases) simp_all
  moreover have "split_on CHR ''/'' (''/relay/'' @ k @ ''/'' @ EnvName env) = [[], ''relay'', k, EnvName env]"
    using assms(2) env(2) by (auto simp: split_on_single)
  ultimately have "take (length [[], ''relay'', k, EnvName env]) (split_on CHR ''/'' p) = [[], ''relay'', k, EnvName env]"
    using assms(1,3) by (simp add: ingress_routes_def ingress_of_def)
  from split_prefix[OF this] obtain tail where p: "p = ''/relay/'' @ k @ ''/'' @ EnvName env @ tail"
    "tail = [] \<or> hd tail = CHR ''/''"
    by auto
  have "trim_prefix p ''/'' = ''relay/'' @ k @ CHR ''/'' # EnvName env @ tail" by (simp add: p(1) trim_prefix_def has_prefix_def)
  from parseAttemptID_from[OF this _ env(1,2) p(2)] show ?thesis using assms(2) by (simp add: relay_kinds_def)
qed

text \<open>With another base path it does not: the authenticator then answers 400 to every request for the lab.\<close>

lemma other_base_path_rejected:
  assumes "ingress_routes (ingress_of ns nm env cfg) p" "ingressBasePath cfg = ''/relay''"
    "plain_segment (EnvName env)" "EnvName env \<notin> {''exec'', ''grade''}"
  shows "parseAttemptID p = None"
proof -
  note env = plain_segmentD[OF assms(3)]
  have last: "last (EnvName env) \<noteq> CHR ''/''" using env(1,2) last_in_set by metis
  have "trim_right_char CHR ''/'' (''/relay/'' @ EnvName env) = ''/relay/'' @ EnvName env"
    using last env(1) unfolding trim_right_char_def by (cases "EnvName env" rule: rev_cases) simp_all
  moreover have "split_on CHR ''/'' (''/relay/'' @ EnvName env) = [[], ''relay'', EnvName env]"
    using env(2) by (simp add: split_on_single)
  ultimately have "take (length [[], ''relay'', EnvName env]) (split_on CHR ''/'' p) = [[], ''relay'', EnvName env]"
    using assms(1,2) by (simp add: ingress_routes_def ingress_of_def)
  from split_prefix[OF this] obtain tail where p: "p = ''/relay/'' @ EnvName env @ tail" "tail = [] \<or> hd tail = CHR ''/''"
    by auto
  show ?thesis
  proof (rule ccontr)
    assume "parseAttemptID p \<noteq> None"
    then obtain aid where "parseAttemptID p = Some aid" by blast
    from parseAttemptID_shape[OF this] obtain k t where
      kt: "trim_prefix p ''/'' = ''relay/'' @ k @ CHR ''/'' # aid @ t" "k \<in> set relay_kinds" by blast
    then have eq: "EnvName env @ tail = k @ CHR ''/'' # aid @ t" by (simp add: p(1) trim_prefix_def has_prefix_def)
    have k: "CHR ''/'' \<notin> set k" using relay_kinds_no_slash[OF kt(2)] .
    have "cut CHR ''/'' (EnvName env @ tail) = (if tail = [] then None else Some (EnvName env, tl tail))"
      using p(2) env(2) by (cases tail) auto
    then have "EnvName env = k" using eq k by (auto split: if_splits)
    then show False using kt(2) assms(4) by (simp add: relay_kinds_def)
  qed
qed

section \<open>From the URL to the pod\<close>

lemma deployed_namespace:
  assumes "deployed_exec_handler env = Inr cfg"
  shows "namespace cfg = namespace_of (EnvName env)"
  using assms by (auto simp: deployed_exec_handler_def loadExecConfig_def exec_env Let_def split: if_splits)

lemma plain_namespace: "plain_segment nm \<Longrightarrow> plain_segment (namespace_of nm)"
  by (auto simp: plain_segment_def namespace_of_def control_byte_def byte_def)

lemma trim_plain: "CHR ''/'' \<notin> set s \<Longrightarrow> trim_char CHR ''/'' s = s"
proof -
  have "CHR ''/'' \<notin> set t \<Longrightarrow> dropWhile (\<lambda>x. x = CHR ''/'') t = t" for t :: string by (cases t) auto
  then show "CHR ''/'' \<notin> set s \<Longrightarrow> ?thesis" by (simp add: trim_char_def trim_left_char_def trim_right_char_def)
qed

lemma ingress_routes_below:
  assumes "plain_segment (EnvName env)" "ingressBasePath cfg = ''/relay/exec''" "CHR ''/'' \<notin> set x"
  shows "ingress_routes (relay_ingress env ns cfg) (path_of [''relay'', ''exec'', EnvName env, x])"
proof -
  note env = plain_segmentD[OF assms(1)]
  have last: "last (EnvName env) \<noteq> CHR ''/''" using env(1,2) last_in_set by metis
  have "trim_right_char CHR ''/'' (''/relay/exec/'' @ EnvName env) = ''/relay/exec/'' @ EnvName env"
    using last env(1) unfolding trim_right_char_def by (cases "EnvName env" rule: rev_cases) simp_all
  moreover have "split_on CHR ''/'' (''/relay/exec/'' @ EnvName env) = [[], ''relay'', ''exec'', EnvName env]"
    using env(2) by (simp add: split_on_single)
  moreover have "split_on CHR ''/'' (path_of [''relay'', ''exec'', EnvName env, x]) = [[], ''relay'', ''exec'', EnvName env, x, []]"
    using env(2) assms(3) by (subst split_path_of) simp_all
  ultimately show ?thesis using assms(2) by (simp del: path_of_simps add: ingress_routes_def relay_ingress_def ingress_of_def)
qed

lemma bad_pod_name:
  assumes "plain_segment ns"
  shows "podExecURL host ns ''%zz'' = None"
proof -
  note ns = plain_segmentD[OF assms]
  have "path_unescape ((''/api/v1/namespaces/'' @ ns @ ''/pods/'') @ ''%zz/exec'') = None"
    using ns(3) by (subst path_unescape_append) (simp_all add: hex_val_def byte_def)
  then have "parse_after_host (''/api/v1/namespaces/'' @ ns @ ''/pods/'' @ ''%zz'' @ ''/exec'') = None"
    using ns(4,5) by (simp add: parse_after_host_def)
  then show ?thesis by (simp add: podExecURL_def)
qed

text \<open>
  C2: The URL the web client opens for an asset leads to that asset's pod: the lab's ingress routes it,
  the authenticator looks up the lab's attempt, relay-exec's mux hands the attempt and the asset to
  the handler, and what it asks the API server for is \<open>exec\<close> in the pod the operator created for the
  asset. (For names that need no escaping, as those of Kubernetes objects are, and the base path of
  the deployments.)
\<close>
theorem terminal_url_reaches_pod:
  assumes "plain_segment (EnvName env)" "OwnerId (Spec env) \<noteq> []" "plain_segment (AName a)"
    "loadRelayConfig vars = (Inr cfg :: 'e op_error + relay_config)"
    "vars ''RELAY_EXEC_INGRESS_BASE_PATH'' \<in> {[], ''/relay/exec''}"
    "uri = ''/relay/exec/'' @ EnvName env @ ''/'' @ AName a @ ''/''"
    "key_of (lab_pod env (namespace_of (EnvName env)) a img) = (KPod, ns, pod)"
  shows "\<exists>ecfg query. deployed_exec_handler env = Inr ecfg \<and> ingress_routes (relay_ingress env ns cfg) uri \<and>
    parseAttemptID uri = Some (EnvName env) \<and>
    exec_mux uri = Routed [(''attemptID'', EnvName env), (''assetName'', AName a)] \<and>
    podExecURL host (namespace ecfg) (trim_char CHR ''/'' (AName a)) =
      Some (trim_right_char CHR ''/'' host, ''/api/v1/namespaces/'' @ ns @ ''/pods/'' @ pod @ ''/exec'', query)"
proof -
  note env = plain_segmentD[OF assms(1)]
  note a = plain_segmentD[OF assms(3)]
  obtain ecfg where e: "deployed_exec_handler env = Inr ecfg" using deployed_exec[OF env(1) assms(2)] by blast
  have ns: "ns = namespace ecfg" "pod = AName a"
    using assms(7) by (simp_all add: lab_pod_def key_of_def named_def deployed_namespace[OF e])
  have base: "ingressBasePath cfg = ''/relay/'' @ ''exec''"
    using assms(4,5) by (auto simp: loadRelayConfig_def load_config_def Let_def split: if_splits)
  have uri: "uri = path_of [''relay'', ''exec'', EnvName env, AName a]" using assms(6) by simp
  have route: "ingress_routes (relay_ingress env ns cfg) uri"
    unfolding uri by (rule ingress_routes_below[OF assms(1)]) (use base a(2) in simp_all)
  have "parseAttemptID uri = Some (EnvName env)"
    using ingress_attempt[OF route[unfolded relay_ingress_def] _ base assms(1)] by simp
  moreover have "exec_mux uri = Routed [(''attemptID'', EnvName env), (''assetName'', AName a)]"
    unfolding uri using a(2) by (intro exec_mux_asset assms(1) plain_segment_name assms(3) a(6)) auto
  ultimately show ?thesis
    using route e ns trim_plain[OF a(2)] podExecURL_plain[of "namespace ecfg" "AName a" host] assms(3)
      plain_namespace[OF assms(1)] deployed_namespace[OF e] by simp
qed

theorem terminal_url_reaches_pod_witness:
  "exec_mux ''/relay/exec/a1/vm/'' = Routed [(''attemptID'', ''a1''), (''assetName'', ''vm'')]"
proof -
  let ?a = "zero_lab_asset\<lparr>AName := ''vm''\<rparr>"
  obtain cfg where c: "loadRelayConfig demo_getenv = (Inr cfg :: unit op_error + relay_config)" using demo_configs(1) by blast
  have p: "plain_segment (EnvName demo_lab)" "plain_segment (AName ?a)" by code_simp+
  have "key_of (lab_pod demo_lab (namespace_of (EnvName demo_lab)) ?a []) = (KPod, ''rootenv-lab-a1'', ''vm'')"
    by (simp add: lab_pod_def key_of_def named_def demo_lab_def namespace_of_def)
  from terminal_url_reaches_pod[OF p(1) _ p(2) c _ refl this, of "[]"] show ?thesis by (auto simp: demo_lab_def demo_getenv_def)
qed

text \<open>
  C38: The owner of a lab can end its relay-exec with a URL: the ingress routes it, the authenticator
  accepts it as one of the lab, the mux decodes \<open>%25zz\<close> to the asset name \<open>%zz\<close>, and \<open>url.Parse\<close> fails on
  the pod's URL, whose error is dropped. The nil URL makes \<open>Exec\<close> panic in a goroutine of its own,
  which ends the process and with it all terminals of the lab.
\<close>
theorem asset_name_ends_relay:
  assumes "plain_segment (EnvName env)" "ingressBasePath cfg = ''/relay/exec''"
    "uri = ''/relay/exec/'' @ EnvName env @ ''/%25zz/''"
  shows "ingress_routes (relay_ingress env ns cfg) uri \<and> parseAttemptID uri = Some (EnvName env) \<and>
    (\<exists>asset. exec_mux uri = Routed [(''attemptID'', EnvName env), (''assetName'', asset)] \<and>
       fst (Exec spdy_executor stream k (namespace_of (EnvName env)) (trim_char CHR ''/'' asset) w) = Inl ProcessPanics)"
proof -
  note env = plain_segmentD[OF assms(1)]
  have uri: "uri = path_of [''relay'', ''exec'', EnvName env, ''%25zz'']" using assms(3) by simp
  have route: "ingress_routes (relay_ingress env ns cfg) uri"
    unfolding uri by (rule ingress_routes_below[OF assms(1,2)]) simp
  have "path_unescape ''%25zz'' = Some ''%zz''" "plain_name ''%25zz''" by code_simp+
  then have "exec_mux uri = Routed [(''attemptID'', EnvName env), (''assetName'', ''%zz'')]"
    unfolding uri by (intro exec_mux_asset assms(1)) simp_all
  moreover have "trim_char CHR ''/'' ''%zz'' = ''%zz''" by (rule trim_plain) simp
  ultimately show ?thesis
    using route ingress_attempt[OF route[unfolded relay_ingress_def], of "''exec''"] assms(1,2)
      bad_pod_name[OF plain_namespace[OF assms(1)], of "execHost k"] by (simp add: Exec_panics_iff)
qed

theorem asset_name_ends_relay_witness:
  "\<exists>cfg. loadRelayConfig demo_getenv = (Inr cfg :: unit op_error + relay_config) \<and>
     ingress_routes (relay_ingress demo_lab ''rootenv-lab-a1'' cfg) ''/relay/exec/a1/%25zz/''"
proof -
  obtain cfg where c: "loadRelayConfig demo_getenv = (Inr cfg :: unit op_error + relay_config)" using demo_configs(1) by blast
  then have "ingressBasePath cfg = ''/relay/exec''" by (auto simp: loadRelayConfig_def load_config_def demo_getenv_def Let_def)
  moreover have "plain_segment (EnvName demo_lab)" by code_simp
  ultimately show ?thesis using asset_name_ends_relay[of demo_lab cfg, OF _ _ refl, THEN conjunct1] c by (simp add: demo_lab_def)
qed

end
