(* ===== verification/Spec2Isabelle.thy ===== *)
theory Spec2Isabelle
  imports LimiterConc GraderListener ExecSession RelayServe AttemptLoop ControllerStart LabQueue DeepCopy OperatorMain
    Isolation Routing
begin

text \<open>
  Verification development of rootenv, the Go services under \<open>src/services\<close>.

  \<^bold>\<open>The program.\<close> A user's attempt at a lab is a record in PocketBase. \<open>attempt-controller\<close> turns
  attempts into LabEnvironment resources and writes their status back. \<open>labenv-operator\<close> turns a
  LabEnvironment into a namespace with one pod per asset, a terminal relay (\<open>relay-exec\<close>), a grader
  (\<open>relay-grader\<close>) and the policies that isolate them. Browsers reach the relays through an ingress
  that first asks \<open>relay-authenticator\<close>. \<open>relay-exec\<close> bridges a WebSocket to a pod's shell and copies
  the terminal output to \<open>relay-grader\<close>, which matches the exercises' expressions against it.

  \<^bold>\<open>The theories,\<close> by what they model:
  \<^item> \<open>Prelude\<close>, \<open>GoStrings\<close>, \<open>Utf8\<close>, \<open>Json\<close>, \<open>JsonText\<close>, \<open>JsonStruct\<close>, \<open>Decimal\<close>, \<open>GoTime\<close>, \<open>Http\<close>, \<open>Urls\<close>: what the services
    use of Go's library. JSON has its text, reader and printer, with the round trip
    \<open>parse_print\<close>, and the decoding of values into records by their tags.
  \<^item> \<open>Runs\<close>: machines of goroutines, with the interfaces \<open>step_invariant\<close> and \<open>bounded_progress\<close>.
  \<^item> \<open>Limiter\<close>, \<open>LimiterConc\<close> (\<open>relay/pkg/relaybase/limiter.go\<close>): the per-user connection limit, run alone
    and as atomic steps of any number of goroutines. \<open>RelayHandler\<close> (\<open>handler.go\<close>): one WebSocket
    request. \<open>RelayConfig\<close> (\<open>relay/cmd\<close>): settings and startup of both relays. \<open>RelayServe\<close>: serving
    and shutdown of the three programs with an HTTP server.
  \<^item> \<open>GraderLines\<close>, \<open>GraderTasks\<close>, \<open>GraderBackend\<close>, \<open>GraderServe\<close>, \<open>GraderListener\<close> (\<open>relay/grader\<close>): the line buffer,
    the tasks file, grading, the clients' states and the internal listener.
  \<^item> \<open>ForwardWire\<close>, \<open>Forwarder\<close>, \<open>ExecBackend\<close> (\<open>relay/exec\<close>): the line protocol between the relays, the
    forwarder as a step relation, and the two directions of a terminal session and the executor.
    \<open>ExecSession\<close>: a session as its goroutines.
  \<^item> \<open>Authenticator\<close> (\<open>relay-authenticator\<close>): the forward-auth handler and its PocketBase client.
  \<^item> \<open>AttemptTypes\<close>, \<open>PbClient\<close>, \<open>Realtime\<close>, \<open>Downstream\<close>, \<open>Upstream\<close>, \<open>ControllerMain\<close>, \<open>ControllerStart\<close>
    (\<open>attempt-controller\<close>): the attempt, the PocketBase client with its single retry after a 401, the
    event stream, attempts to LabEnvironments, LabEnvironments to attempts, the program that runs
    them, and its start. \<open>AttemptLoop\<close> interleaves its goroutines, call by call, for one attempt.
  \<^item> \<open>Kube\<close>, \<open>LabImages\<close>, \<open>RelayObjects\<close>, \<open>Operator\<close> (\<open>labenv-operator\<close>): the resource, the objects with the fields
    the code sets, and \<open>Reconcile\<close> as the code has it. \<open>OperatorSpec\<close> holds what a reconciliation
    guarantees, \<open>LabQueue\<close> which events bring it about, \<open>Isolation\<close> what the network policies allow.
    \<open>DeepCopy\<close> is the generated copying on a store of addresses, \<open>OperatorMain\<close> flags and start.
  \<^item> \<open>Handover\<close>, \<open>Routing\<close> and this theory: what one service hands to the next, and the way of a terminal's
    URL through the ingress, the authenticator and the relay's routes to the pod.

  \<^bold>\<open>How the code is read.\<close> A Go string is a list of bytes. A fallible call with effects is a function
  from a world to a sum, \<open>Inl\<close> the error, and the new world (\<open>call\<close>, \<open>call_bind\<close>). Structs are records,
  Go maps partial functions, or association lists where the code iterates. Counters of the limiter
  are 64-bit words; durations wrap at 64 bits where the code multiplies them; JSON integers are
  checked against the width of their variable. Loops over input are recursive functions with a
  length measure; the one loop that waits for others (\<open>Acquire\<close>) is a step relation beside the
  function. Goroutines are interleaved step by step: those of the limiter and the forwarder by a
  step relation, those of a session, a server, the controller and the operator's queue by a step
  function and \<open>run_steps\<close>. Code
  outside the repository - the network, the WebSocket library, the Kubernetes API server, the clock,
  the regular expressions, the pod's shell - is an argument, with what is relied on as a named
  predicate (\<open>cluster_laws\<close>, \<open>api_laws\<close>, \<open>env_laws\<close>, \<open>queue_laws\<close>, \<open>requeue_laws\<close>, \<open>pb_separate\<close>), and each property that assumes one
  has a witness on a concrete instance. Interfaces between components are locales, interpreted on
  the model's definitions: \<open>step_invariant\<close>, \<open>bounded_progress\<close>, \<open>deep_copy\<close> with \<open>deep_copy_slice\<close>, \<open>slot_provider\<close>, \<open>line_codec\<close>, \<open>output_sink\<close>, \<open>pocketbase\<close>, \<open>value_codec\<close> and
  \<open>text_codec\<close>.

  \<^bold>\<open>What is shown.\<close> End to end: only a lab's owner reaches its terminals, and the URL of an asset leads to its pod; the specification the
  controller writes and the exercises the operator mounts are what their readers get; what
  relay-exec forwards is what relay-grader ingests. The limiter never exceeds its maximum under any
  interleaving and refines an atomic counter. The line buffer does not depend on how the stream is
  cut, with the exact proviso, and which tasks pass is determined by the stream. Every connection is
  closed once with the right status, and slots are given back on every path. A session passes input and
  output on unchanged and in order, whatever the interleaving; when the shell ends it returns, after
  all output has been sent. A relay that reports its sessions drained has drained those it waited for, and a shutdown ends. The controller's
  resync and event handler bring the cluster to what the attempts ask, its status patches follow the
  cluster through failures and deduplication, and the expiry is written once. When nothing is under
  way, PocketBase and the cluster agree on an attempt, however the controller, the operator and the
  user interleaved. The operator stays in
  the lab's namespace, never replaces objects other than its two policies, leaves everything a lab
  needs when it succeeds, keeps the finalizer until the namespace is gone, and never forgets a lab
  it is not done with. A copy of a LabEnvironment shares nothing with it. Lab pods reach only
  their own namespace and DNS.

  Where the code falls short of its documents, a theorem says so: every lab pod reaches the grader's
  unauthenticated port (\<open>lab_pod_reaches_grader\<close>); a snapshot can be overtaken by a broadcast
  (\<open>snapshot_overtaken_by_broadcast\<close>); in a burst the first resize wins (\<open>burst_first_resize_wins\<close>); a
  browser that goes away is not noticed while the shell does not read (\<open>disconnect_unnoticed\<close>); a
  URL ends the relay by a panic (\<open>asset_name_ends_relay\<close>); a
  session that starts during the shutdown is not waited for (\<open>shutdown_misses_handshake\<close>); events
  lost with their connection can leave a lab running for an attempt that has ended (\<open>lost_events_leave_lab\<close>); some
  passwords can never authenticate (\<open>some_passwords_never_authenticate\<close>); a time to live above
  153722867 minutes wraps around (\<open>ttl_exact_iff\<close>).

  \<^bold>\<open>Bounds.\<close> JSON nesting is 10000 as in \<open>encoding/json\<close>; scanner lines end at 1 MiB, reads from a
  terminal at 32 KiB. No definition uses fuel except the tries of
  \<open>connect_pocketbase\<close>, which stand for the time until the context ends. Machines are given schedules
  of any length; that a session and a shutdown end is a bound on their own steps with the absence of
  deadlock (\<open>bounded_progress\<close>).

  \<^bold>\<open>Not modelled.\<close> Logging; TLS beyond which protocols and files are
  chosen; the scheme and client-go's and controller-runtime's own code, which are arguments; the
  frontend, the PocketBase hooks, the deployment files, the labs and the scripts, which are not Go.
  A reconciliation of the operator runs as one step among the events of its queue: other clients of
  the cluster act only between reconciliations. Defaulting and validation by the API server are left
  out. The goroutines of the controller are interleaved for one attempt at a time; for several,
  \<open>ControllerMain\<close> handles one event after the other.
\<close>

section \<open>Across the services\<close>

lemma forwarded_headers:
  assumes "auth_headers resp = [(''X-User-Id'', u), (''X-Attempt-Id'', aid)]"
  shows "Header (forwarded resp r) ''X-User-Id'' = u" "Header (forwarded resp r) ''X-Attempt-Id'' = aid"
  using assms by (simp_all add: forwarded_def)

text \<open>
  C1: Only a lab's owner reaches its terminals. Take the relay the operator deploys for a lab and a
  request that passed the authenticator, with whatever headers its sender wrote: the relay authorizes
  it exactly when the URI names this lab's attempt and PocketBase takes the cookie's token for the
  user who owns the LabEnvironment.
\<close>
theorem only_owner_reaches_terminal:
  assumes "EnvName env \<noteq> []" "OwnerId (Spec env) \<noteq> []" "deployed_exec_handler env = Inr cfg"
    "serve_auth (ValidateToken valid_url do c) (GetAttempt_owner valid_url do c) ar w = (resp, w1)"
    "auth_status resp = StatusOK"
  shows "authorize (handler_of cfg) (forwarded resp r) \<noteq> None \<longleftrightarrow>
    parseAttemptID (ForwardedURI ar) = Some (EnvName env) \<and>
    (\<exists>token w2. Cookie ar = Some token \<and> ValidateToken valid_url do c token w = (Inr (OwnerId (Spec env)), w2))"
proof -
  have h: "AttemptID (handler_of cfg) = EnvName env" "OwnerID (handler_of cfg) = OwnerId (Spec env)"
    "\<not> SkipAuth (handler_of cfg)"
    using deployed_exec[OF assms(1,2)] assms(3) by auto
  obtain token aid u w2 w3 where a: "Cookie ar = Some token" "parseAttemptID (ForwardedURI ar) = Some aid"
    "ValidateToken valid_url do c token w = (Inr u, w2)" "u \<noteq> []"
    "auth_headers resp = [(''X-User-Id'', u), (''X-Attempt-Id'', aid)]"
    using pb.serve_auth_granted[of valid_url "do" c ar w] assms(4,5) by auto
  show ?thesis
    using a assms(2) by (auto simp: authorize_def Let_def h forwarded_headers[OF a(5)])
qed

text \<open>A PocketBase that knows one user and one attempt.\<close>

definition one_user_pb :: "http_request \<Rightarrow> (unit, unit, http_response) call" where
  "one_user_pb req w = (Inr \<lparr>StatusCode = StatusOK,
     Body = print_json (if Method req = ''POST'' then JObj [(''record'', JObj [(''id'', JStr ''u1'')])]
                        else JObj [(''user'', JStr ''u1'')])\<rparr>, w)"

lemma one_user_pb_decodes:
  "decode_body (dec_struct token_record_fields) [] (print_json (JObj [(''record'', JObj [(''id'', JStr ''u1'')])])) = Some ''u1''"
  "decode_body (dec_struct user_fields) [] (print_json (JObj [(''user'', JStr ''u1'')])) = Some ''u1''"
  by code_simp+

theorem only_owner_reaches_terminal_witness:
  "\<exists>cfg resp. deployed_exec_handler demo_lab = Inr cfg \<and>
     serve_auth (ValidateToken (\<lambda>_. True) one_user_pb (new_client ''http://pb''))
       (GetAttempt_owner (\<lambda>_. True) one_user_pb (new_client ''http://pb''))
       \<lparr>Cookie = Some ''t'', ForwardedURI = ''/relay/exec/a1/vm''\<rparr> () = (resp, ()) \<and>
     authorize (handler_of cfg) (forwarded resp \<lparr>PathValue = (\<lambda>_. []), Header = (\<lambda>_. ''forged'')\<rparr>) \<noteq> None"
proof -
  let ?v = "ValidateToken (\<lambda>_. True) one_user_pb (new_client ''http://pb'')"
  let ?g = "GetAttempt_owner (\<lambda>_. True) one_user_pb (new_client ''http://pb'')"
  let ?ar = "\<lparr>Cookie = Some ''t'', ForwardedURI = ''/relay/exec/a1/vm''\<rparr>"
  have v: "?v ''t'' () = (Inr ''u1'', ())"
    using one_user_pb_decodes(1)
    by (simp add: ValidateToken_def call_bind_def send_request_def one_user_pb_def refresh_request_def
        call_return_def status_defs)
  have g: "?g ''t'' ''a1'' () = (Inr ''u1'', ())"
    using one_user_pb_decodes(2)
    by (simp add: GetAttempt_owner_def call_bind_def send_request_def one_user_pb_def attempt_request_def
        call_return_def status_defs)
  have p: "parseAttemptID ''/relay/exec/a1/vm'' = Some ''a1''" by code_simp
  obtain resp where r: "serve_auth ?v ?g ?ar () = (resp, ())" "auth_status resp = StatusOK"
    using v g p by (simp add: serve_auth_def)
  have lab: "EnvName demo_lab \<noteq> []" "OwnerId (Spec demo_lab) \<noteq> []" by (simp_all add: demo_lab_def)
  obtain cfg where cfg: "deployed_exec_handler demo_lab = Inr cfg" using deployed_exec[OF lab] by blast
  have "authorize (handler_of cfg) (forwarded resp \<lparr>PathValue = (\<lambda>_. []), Header = (\<lambda>_. ''forged'')\<rparr>) \<noteq> None"
    using only_owner_reaches_terminal[OF lab cfg r] v p by (simp add: demo_lab_def)
  then show ?thesis using r(1) cfg by blast
qed

end
